(* ===== verification/Prelude.thy ===== *)
theory Prelude
  imports Main "HOL-Library.Word"
begin

text \<open>
  What every component of the development shares: the names of the machine types of the
  Rust sources, the operations of the Rust standard library the sources call on integers,
  options, results and vectors, and the lemmas about them that carry the component proofs.

  \<^item> Unsigned machine integers that are added, subtracted or multiplied are words
    (\<open>u8\<close>, \<open>u32\<close>, \<open>u64\<close>); \<open>saturating_*\<close> and \<open>checked_*\<close> are the functions below, and
    the collection \<open>word_nat\<close> reads them in \<open>nat\<close>.
  \<^item> Counters that only ever go up by one per record (generations, sequences, offsets) are
    \<open>nat\<close>; so are the 128-bit identifiers, which the sources compare and never compute with.
  \<^item> A \<open>Result<T, E>\<close> is \<open>'e + 't\<close>, \<open>Inl\<close> the error; a method on \<open>&mut self\<close> returns the new
    value of \<open>self\<close> also when it fails, so that a write before a failing check is visible.
\<close>

named_theorems word_nat \<open>bounded machine arithmetic read in the natural numbers\<close>

type_synonym u8 = "8 word"
type_synonym u32 = "32 word"
type_synonym u64 = "64 word"
type_synonym uuid = nat
type_synonym timestamp = int

section \<open>Bounded arithmetic\<close>

definition saturating_add :: "'a::len word \<Rightarrow> 'a word \<Rightarrow> 'a word" where
  "saturating_add a b = (if unat a + unat b < 2 ^ LENGTH('a) then a + b else - 1)"

definition saturating_sub :: "'a::len word \<Rightarrow> 'a word \<Rightarrow> 'a word" where
  "saturating_sub a b = (if b \<le> a then a - b else 0)"

definition saturating_mul :: "'a::len word \<Rightarrow> 'a word \<Rightarrow> 'a word" where
  "saturating_mul a b = (if unat a * unat b < 2 ^ LENGTH('a) then a * b else - 1)"

definition checked_add :: "'a::len word \<Rightarrow> 'a word \<Rightarrow> 'a word option" where
  "checked_add a b = (if unat a + unat b < 2 ^ LENGTH('a) then Some (a + b) else None)"

section \<open>Results\<close>

text \<open>The question-mark operator and \<open>Result::map_err\<close>.\<close>

definition rbind :: "'e + 'a \<Rightarrow> ('a \<Rightarrow> 'e + 'b) \<Rightarrow> 'e + 'b" where
  "rbind r f = (case r of Inl e \<Rightarrow> Inl e | Inr a \<Rightarrow> f a)"

definition map_err :: "('e \<Rightarrow> 'f) \<Rightarrow> 'e + 'a \<Rightarrow> 'f + 'a" where
  "map_err g r = (case r of Inl e \<Rightarrow> Inl (g e) | Inr a \<Rightarrow> Inr a)"

text \<open>An early return \<open>if !b { return Err(e) }\<close>, and a sequence of checks that stops at the first
  error.\<close>

definition ensure :: "bool \<Rightarrow> 'e \<Rightarrow> 'e + unit" where
  "ensure b e = (if b then Inr () else Inl e)"

fun checks :: "('e + unit) list \<Rightarrow> 'e + unit" where
  "checks [] = Inr ()"
| "checks (Inl e # cs) = Inl e"
| "checks (Inr u # cs) = checks cs"

definition is_ok :: "'e + 'a \<Rightarrow> bool" where
  "is_ok r = (case r of Inl e \<Rightarrow> False | Inr a \<Rightarrow> True)"

section \<open>Vectors\<close>

text \<open>\<open>iter().position(p)\<close>, and the write through \<open>iter_mut().find(p)\<close>.\<close>

fun position :: "('a \<Rightarrow> bool) \<Rightarrow> 'a list \<Rightarrow> nat option" where
  "position p [] = None"
| "position p (x # xs) = (if p x then Some 0 else map_option Suc (position p xs))"

fun upd_first :: "('a \<Rightarrow> bool) \<Rightarrow> ('a \<Rightarrow> 'a) \<Rightarrow> 'a list \<Rightarrow> 'a list" where
  "upd_first p f [] = []"
| "upd_first p f (x # xs) = (if p x then f x # xs else x # upd_first p f xs)"

text \<open>\<open>Vec::remove(i)\<close> and \<open>Vec::insert(i, x)\<close> at an index that is in range.\<close>

definition remove_at :: "nat \<Rightarrow> 'a list \<Rightarrow> 'a list" where
  "remove_at i xs = take i xs @ drop (Suc i) xs"

definition insert_at :: "nat \<Rightarrow> 'a \<Rightarrow> 'a list \<Rightarrow> 'a list" where
  "insert_at i x xs = take i xs @ x # drop i xs"

text \<open>\<open>Iterator::find_map\<close>.\<close>

fun find_map :: "('a \<Rightarrow> 'b option) \<Rightarrow> 'a list \<Rightarrow> 'b option" where
  "find_map f [] = None"
| "find_map f (x # xs) = (case f x of None \<Rightarrow> find_map f xs | Some y \<Rightarrow> Some y)"

text \<open>\<open>Option::is_none_or\<close>.\<close>

text \<open>A \<open>BTreeMap\<close> is the list of its entries in key order; \<open>get\<close> is \<open>map_of\<close>. A \<open>BTreeSet\<close> is the
  list of its elements in order.\<close>

fun bt_insert :: "'k::linorder \<Rightarrow> 'v \<Rightarrow> ('k \<times> 'v) list \<Rightarrow> ('k \<times> 'v) list" where
  "bt_insert k v [] = [(k, v)]"
| "bt_insert k v ((k', v') # m) =
     (if k = k' then (k, v) # m
      else if k < k' then (k, v) # (k', v') # m
      else (k', v') # bt_insert k v m)"

definition bt_remove :: "'k \<Rightarrow> ('k \<times> 'v) list \<Rightarrow> ('k \<times> 'v) list" where
  "bt_remove k m = filter (\<lambda>(k', _). k' \<noteq> k) m"

definition is_none_or :: "'a option \<Rightarrow> ('a \<Rightarrow> bool) \<Rightarrow> bool" where
  "is_none_or x p = (case x of None \<Rightarrow> True | Some v \<Rightarrow> p v)"

section \<open>Lemmas on bounded arithmetic\<close>

lemma unat_neg_one [word_nat]: "unat (- 1 :: 'a::len word) = 2 ^ LENGTH('a) - 1"
  by transfer (simp add: mask_eq_exp_minus_1 nat_diff_distrib nat_power_eq)

lemma unat_less_exp: "unat (a :: 'a::len word) < 2 ^ LENGTH('a)"
  by (rule unsigned_less)

lemma unat_saturating_add [word_nat]:
  "unat (saturating_add a b) = min (unat a + unat b) (2 ^ LENGTH('a) - 1)"
  for a b :: "'a::len word"
  by (auto simp: saturating_add_def unat_word_ariths unat_neg_one)

lemma unat_saturating_sub [word_nat]: "unat (saturating_sub a b) = unat a - unat b"
  by (auto simp: saturating_sub_def unat_sub word_le_nat_alt)

lemma unat_saturating_mul [word_nat]:
  "unat (saturating_mul a b) = min (unat a * unat b) (2 ^ LENGTH('a) - 1)"
  for a b :: "'a::len word"
  by (auto simp: saturating_mul_def unat_word_ariths unat_neg_one)

lemma unat_min [word_nat]: "unat (min a b) = min (unat a) (unat b)"
  by (simp add: min_def word_le_nat_alt)

lemma unat_max [word_nat]: "unat (max a b) = max (unat a) (unat b)"
  by (simp add: max_def word_le_nat_alt)

lemmas word_order_nat = word_le_nat_alt word_less_nat_alt word_unat_eq_iff

lemma checked_add_Some_iff:
  "checked_add a b = Some c \<longleftrightarrow> unat c = unat a + unat b"
  for a b c :: "'a::len word"
proof
  assume "checked_add a b = Some c"
  then show "unat c = unat a + unat b"
    by (auto simp: checked_add_def unat_word_ariths split: if_splits)
next
  assume c: "unat c = unat a + unat b"
  then have lt: "unat a + unat b < 2 ^ LENGTH('a)" using unat_less_exp [of c] by simp
  then have "a + b = c" using c by (simp add: word_unat_eq_iff unat_word_ariths)
  with lt show "checked_add a b = Some c" by (simp add: checked_add_def)
qed

lemma unat_add_one:
  fixes a b :: "'a::len word"
  assumes "a < b"
  shows "unat (a + 1) = Suc (unat a)"
proof -
  have "Suc (unat a) < 2 ^ LENGTH('a)"
    using assms unat_less_exp [of b] unfolding word_less_nat_alt by linarith
  then show ?thesis by (simp add: unat_word_ariths)
qed

section \<open>Lemmas on results and vectors\<close>

lemma rbind_simps [simp]: "rbind (Inl e) f = Inl e" "rbind (Inr a) f = f a"
  by (simp_all add: rbind_def)

lemma rbind_eq_Inr: "rbind r f = Inr b \<longleftrightarrow> (\<exists>a. r = Inr a \<and> f a = Inr b)"
  by (cases r) auto

lemma map_err_simps [simp]: "map_err g (Inl e) = Inl (g e)" "map_err g (Inr a) = Inr a"
  by (simp_all add: map_err_def)

lemma map_err_eq_Inr [simp]: "map_err g r = Inr a \<longleftrightarrow> r = Inr a"
  by (cases r) auto

lemma is_ok_simps [simp]: "is_ok (Inr a)" "\<not> is_ok (Inl e)"
  by (simp_all add: is_ok_def)

lemma is_ok_iff: "is_ok r \<longleftrightarrow> (\<exists>a. r = Inr a)"
  by (cases r) auto

lemma is_none_or_simps [simp]: "is_none_or None p" "is_none_or (Some v) p = p v"
  by (simp_all add: is_none_or_def)

lemma position_None: "position p xs = None \<longleftrightarrow> (\<forall>x \<in> set xs. \<not> p x)"
  by (induction xs) auto

lemma position_Some:
  "position p xs = Some i \<longleftrightarrow> i < length xs \<and> p (xs ! i) \<and> (\<forall>j < i. \<not> p (xs ! j))"
proof (induction xs arbitrary: i)
  case (Cons x xs)
  then show ?case by (cases i) (auto simp: nth_Cons split: nat.splits)
qed simp

lemma position_split:
  assumes "position p xs = Some i"
  shows "xs = take i xs @ xs ! i # drop (Suc i) xs"
  using assms by (auto simp: position_Some id_take_nth_drop)

lemma length_upd_first [simp]: "length (upd_first p f xs) = length xs"
  by (induction xs) auto

lemma map_upd_first:
  "(\<And>x. g (f x) = g x) \<Longrightarrow> map g (upd_first p f xs) = map g xs"
  by (induction xs) auto

lemma upd_first_id: "find p xs = None \<Longrightarrow> upd_first p f xs = xs"
  by (induction xs) (auto split: if_splits)

lemma find_None_iff_ball: "find p xs = None \<longleftrightarrow> (\<forall>x \<in> set xs. \<not> p x)"
  by (induction xs) auto

lemma find_SomeD: "find p xs = Some x \<Longrightarrow> x \<in> set xs \<and> p x"
  by (induction xs) (auto split: if_splits)

lemma set_upd_first_subset: "set (upd_first p f xs) \<subseteq> set xs \<union> f ` {x \<in> set xs. p x}"
  by (induction xs) auto

lemma set_remove_at: "i < length xs \<Longrightarrow> insert (xs ! i) (set (remove_at i xs)) = set xs"
proof -
  assume "i < length xs"
  then have "set xs = set (take i xs @ xs ! i # drop (Suc i) xs)"
    by (simp add: id_take_nth_drop [symmetric])
  then show ?thesis by (simp add: remove_at_def)
qed

lemma set_insert_at [simp]: "set (insert_at i x xs) = insert x (set xs)"
proof -
  have "set (take i xs) \<union> set (drop i xs) = set xs"
    by (metis append_take_drop_id set_append)
  then show ?thesis by (auto simp: insert_at_def)
qed

lemma rbind_ok [simp]: "rbind r f = Inr x \<longleftrightarrow> (\<exists>a. r = Inr a \<and> f a = Inr x)"
  by (auto simp: rbind_def split: sum.split)

lemma map_err_ok [simp]: "map_err g r = Inr x \<longleftrightarrow> r = Inr x"
  by (auto simp: map_err_def split: sum.split)

lemma ensure_ok [simp]: "ensure b e = Inr u \<longleftrightarrow> b"
  by (simp add: ensure_def)

lemma checks_ok: "checks cs = Inr u \<longleftrightarrow> (\<forall>c \<in> set cs. c = Inr ())"
  by (induction cs rule: checks.induct) auto

lemma map_of_bt_insert [simp]: "map_of (bt_insert k v m) = (map_of m)(k \<mapsto> v)"
  by (induction k v m rule: bt_insert.induct) (auto simp: fun_upd_def)

lemma map_of_bt_remove [simp]: "map_of (bt_remove k m) = (map_of m)(k := None)"
  by (induction m) (auto simp: bt_remove_def fun_upd_def)

lemma keys_bt_insert [simp]: "fst ` set (bt_insert k v m) = insert k (fst ` set m)"
  by (induction k v m rule: bt_insert.induct) auto

lemma sorted_bt_insert: "sorted_wrt (<) (map fst m) \<Longrightarrow> sorted_wrt (<) (map fst (bt_insert k v m))"
proof (induction k v m rule: bt_insert.induct)
  case (2 k v k' v' m)
  have "set (map fst (bt_insert k v m)) = insert k (set (map fst m))" by simp
  with 2 show ?case by (auto simp del: set_map)
qed simp

lemma find_map_None: "find_map f xs = None \<longleftrightarrow> (\<forall>x \<in> set xs. f x = None)"
  by (induction xs) (auto split: option.splits)

lemma find_map_SomeD: "find_map f xs = Some y \<Longrightarrow> \<exists>x \<in> set xs. f x = Some y"
  by (induction xs) (auto split: option.splits)

section \<open>Systems with an invariant\<close>

text \<open>The contract of a component whose every operation keeps an invariant.\<close>

locale invariant_system =
  fixes inv :: "'s \<Rightarrow> bool" and step :: "'s \<Rightarrow> 's \<Rightarrow> bool"
  assumes step_inv: "inv s \<Longrightarrow> step s s' \<Longrightarrow> inv s'"
begin

lemma steps_inv: "step\<^sup>*\<^sup>* s s' \<Longrightarrow> inv s \<Longrightarrow> inv s'"
  by (induction rule: rtranclp_induct) (auto intro: step_inv)

end

text \<open>The contract of a component that folds a log and implements an abstract state: every record acts
  on the abstraction as the specification says.\<close>

locale fold_refinement =
  fixes inv :: "'s \<Rightarrow> bool" and abs :: "'s \<Rightarrow> 'a" and apply_record :: "'s \<Rightarrow> 'e \<Rightarrow> 's"
    and spec :: "'a \<Rightarrow> 'e \<Rightarrow> 'a"
  assumes keeps: "inv s \<Longrightarrow> inv (apply_record s e)"
    and refines: "inv s \<Longrightarrow> abs (apply_record s e) = spec (abs s) e"
begin

lemma fold_inv: "inv s \<Longrightarrow> inv (foldl apply_record s es)"
  by (induction es arbitrary: s) (auto intro: keeps)

lemma fold_refines: "inv s \<Longrightarrow> abs (foldl apply_record s es) = foldl spec (abs s) es"
  by (induction es arbitrary: s) (auto simp: keeps refines)

end

end
