(* ===== verification/Rust_Str.thy ===== *)
theory Rust_Str
  imports Prelude
begin

text \<open>
  The part of the Rust string library the sources use. A \<open>String\<close> is its bytes, one
  \<open>char\<close> each. \<open>trim\<close> and \<open>is_whitespace\<close> know the ASCII white space only: tab, newline,
  vertical tab, form feed, carriage return, space. Decimal printing is \<open>u64\<close>'s \<open>Display\<close>;
  parsing is \<open>str::parse\<close>, with its optional plus sign and its overflow error. The lemmas
  show that printing is injective and that parsing inverts it within the width.
\<close>

section \<open>White space, prefixes and suffixes\<close>

definition is_whitespace :: "char \<Rightarrow> bool" where
  "is_whitespace c = (of_char c \<in> {9, 10, 11, 12, 13, 32 :: nat})"

definition trim :: "string \<Rightarrow> string" where
  "trim s = rev (dropWhile is_whitespace (rev (dropWhile is_whitespace s)))"

definition starts_with :: "string \<Rightarrow> string \<Rightarrow> bool" where
  "starts_with s p = (take (length p) s = p)"

definition ends_with :: "string \<Rightarrow> string \<Rightarrow> bool" where
  "ends_with s p = (length p \<le> length s \<and> drop (length s - length p) s = p)"

definition strip_prefix :: "string \<Rightarrow> string \<Rightarrow> string option" where
  "strip_prefix s p = (if starts_with s p then Some (drop (length p) s) else None)"

definition strip_suffix :: "string \<Rightarrow> string \<Rightarrow> string option" where
  "strip_suffix s p = (if ends_with s p then Some (take (length s - length p) s) else None)"

text \<open>\<open>str::split(char)\<close>: always at least one piece; \<open>split_whitespace\<close>: no empty piece.\<close>

fun split_on :: "char \<Rightarrow> string \<Rightarrow> string list" where
  "split_on c [] = [[]]"
| "split_on c (x # xs) =
     (if x = c then [] # split_on c xs
      else (case split_on c xs of [] \<Rightarrow> [[x]] | p # ps \<Rightarrow> (x # p) # ps))"

text \<open>\<open>str::split_once(char)\<close>.\<close>

fun split_once :: "char \<Rightarrow> string \<Rightarrow> (string \<times> string) option" where
  "split_once c [] = None"
| "split_once c (x # xs) =
     (if x = c then Some ([], xs)
      else (case split_once c xs of None \<Rightarrow> None | Some (a, b) \<Rightarrow> Some (x # a, b)))"

text \<open>\<open>slice.join(sep)\<close>.\<close>

fun join :: "string \<Rightarrow> string list \<Rightarrow> string" where
  "join sep [] = []"
| "join sep [x] = x"
| "join sep (x # y # ys) = x @ sep @ join sep (y # ys)"

text \<open>ASCII case, classes of bytes, replacing a byte, trimming given bytes at the end, and the last
  piece of a split from the right.\<close>

definition ascii_lower :: "char \<Rightarrow> char" where
  "ascii_lower c = (let n = of_char c :: nat in if 65 \<le> n \<and> n \<le> 90 then char_of (n + 32) else c)"

definition to_ascii_lowercase :: "string \<Rightarrow> string" where
  "to_ascii_lowercase s = map ascii_lower s"

definition eq_ignore_ascii_case :: "string \<Rightarrow> string \<Rightarrow> bool" where
  "eq_ignore_ascii_case s t \<longleftrightarrow> to_ascii_lowercase s = to_ascii_lowercase t"

definition is_ascii_alphabetic :: "char \<Rightarrow> bool" where
  "is_ascii_alphabetic c = (let n = of_char c :: nat in 65 \<le> n \<and> n \<le> 90 \<or> 97 \<le> n \<and> n \<le> 122)"

definition is_ascii_digit :: "char \<Rightarrow> bool" where
  "is_ascii_digit c = (let n = of_char c :: nat in 48 \<le> n \<and> n \<le> 57)"

definition is_ascii_alphanumeric :: "char \<Rightarrow> bool" where
  "is_ascii_alphanumeric c \<longleftrightarrow> is_ascii_alphabetic c \<or> is_ascii_digit c"

definition replace_char :: "char \<Rightarrow> char \<Rightarrow> string \<Rightarrow> string" where
  "replace_char a b s = map (\<lambda>c. if c = a then b else c) s"

definition trim_end_chars :: "char list \<Rightarrow> string \<Rightarrow> string" where
  "trim_end_chars cs s = rev (dropWhile (\<lambda>c. c \<in> set cs) (rev s))"

definition last_piece :: "char list \<Rightarrow> string \<Rightarrow> string" where
  "last_piece cs s = rev (takeWhile (\<lambda>c. c \<notin> set cs) (rev s))"

function trim_end_str :: "string \<Rightarrow> string \<Rightarrow> string" where
  "trim_end_str p s =
     (if p \<noteq> [] \<and> ends_with s p then trim_end_str p (take (length s - length p) s) else s)"
  by pat_completeness auto
termination
proof (relation "measure (\<lambda>(p, s). length s)")
  fix p s :: string
  assume "p \<noteq> [] \<and> ends_with s p"
  then have "length s - length p < length s" by (cases p; cases s) (auto simp: ends_with_def)
  then show "((p, take (length s - length p) s), p, s) \<in> measure (\<lambda>(p, s). length s)" by simp
qed simp

declare trim_end_str.simps [simp del]

text \<open>The components of a Unix path (\<open>Path::components\<close>): the root, then the pieces; empty pieces and
  dots are dropped, except a dot at the start of a relative path. Paths are equal, and one
  starts with another, by their components. \<open>path_join\<close> is \<open>Path::join\<close>.\<close>

definition path_components :: "string \<Rightarrow> string list" where
  "path_components s =
     (let pieces = split_on CHR ''/'' s; plain = filter (\<lambda>p. p \<noteq> [] \<and> p \<noteq> ''.'') pieces
      in if starts_with s ''/'' then ''/'' # plain
         else if hd pieces = ''.'' then ''.'' # plain else plain)"

definition path_eq :: "string \<Rightarrow> string \<Rightarrow> bool" where
  "path_eq a b \<longleftrightarrow> path_components a = path_components b"

definition path_starts_with :: "string \<Rightarrow> string \<Rightarrow> bool" where
  "path_starts_with p base \<longleftrightarrow>
     take (length (path_components base)) (path_components p) = path_components base"

definition path_join :: "string \<Rightarrow> string \<Rightarrow> string" where
  "path_join dir p =
     (if starts_with p ''/'' then p
      else if dir = [] \<or> ends_with dir ''/'' then dir @ p
      else dir @ ''/'' @ p)"

definition path_of_components :: "string list \<Rightarrow> string" where
  "path_of_components cs = (case cs of
     [] \<Rightarrow> [] | c # rest \<Rightarrow> if c = ''/'' then ''/'' @ join ''/'' rest else join ''/'' cs)"

section \<open>Decimal numbers\<close>

definition digit_char :: "nat \<Rightarrow> char" where
  "digit_char d = char_of (48 + d)"

definition char_digit :: "char \<Rightarrow> nat option" where
  "char_digit c = (let n = of_char c :: nat in if 48 \<le> n \<and> n \<le> 57 then Some (n - 48) else None)"

fun show_nat :: "nat \<Rightarrow> string" where
  "show_nat n = (if n < 10 then [digit_char n] else show_nat (n div 10) @ [digit_char (n mod 10)])"

declare show_nat.simps [simp del]

fun parse_digits :: "nat \<Rightarrow> string \<Rightarrow> nat option" where
  "parse_digits acc [] = Some acc"
| "parse_digits acc (c # cs) =
     (case char_digit c of None \<Rightarrow> None | Some d \<Rightarrow> parse_digits (10 * acc + d) cs)"

definition parse_nat :: "string \<Rightarrow> nat option" where
  "parse_nat s =
     (let t = (if s \<noteq> [] \<and> hd s = CHR ''+'' then tl s else s)
      in if t = [] then None else parse_digits 0 t)"

text \<open>\<open>parse::<uN>()\<close>: the number, unless it does not fit the width.\<close>

definition parse_word :: "string \<Rightarrow> 'a::len word option" where
  "parse_word s =
     (case parse_nat s of None \<Rightarrow> None
      | Some n \<Rightarrow> if n < 2 ^ LENGTH('a) then Some (of_nat n) else None)"

section \<open>Lemmas\<close>

lemma trim_Nil_iff: "trim s = [] \<longleftrightarrow> (\<forall>c \<in> set s. is_whitespace c)"
proof -
  have "(\<forall>c \<in> set (dropWhile is_whitespace s). is_whitespace c) \<longleftrightarrow> (\<forall>c \<in> set s. is_whitespace c)"
    by (induction s) auto
  then show ?thesis by (simp add: trim_def)
qed

lemma starts_with_append [simp]: "starts_with (p @ s) p"
  by (simp add: starts_with_def)

lemma starts_with_iff: "starts_with s p \<longleftrightarrow> (\<exists>r. s = p @ r)"
  by (metis append_eq_conv_conj append_take_drop_id starts_with_def)

lemma starts_with_refl [simp]: "starts_with s s"
  by (simp add: starts_with_def)

lemma starts_with_trans: "starts_with a b \<Longrightarrow> starts_with b c \<Longrightarrow> starts_with a c"
  by (auto simp: starts_with_iff)

lemma ends_with_iff: "ends_with s p \<longleftrightarrow> (\<exists>r. s = r @ p)"
  by (metis append_eq_conv_conj append_take_drop_id diff_add_inverse2 ends_with_def
      le_add2 length_append)

lemma strip_prefix_Some: "strip_prefix s p = Some r \<longleftrightarrow> s = p @ r"
  by (auto simp: strip_prefix_def starts_with_iff)

lemma strip_suffix_Some: "strip_suffix s p = Some r \<longleftrightarrow> s = r @ p"
  by (auto simp: strip_suffix_def ends_with_iff)

lemma split_on_not_Nil [simp]: "split_on c s \<noteq> []"
  by (induction s) (auto split: list.splits)

lemma join_Cons: "ps \<noteq> [] \<Longrightarrow> join sep (p # ps) = p @ sep @ join sep ps"
  by (cases ps) auto

lemma join_hd_Cons: "join sep ((x # p) # ps) = x # join sep (p # ps)"
  by (cases ps) auto

lemma join_split_on [simp]: "join [c] (split_on c s) = s"
proof (induction s)
  case (Cons x xs)
  show ?case
  proof (cases "x = c")
    case True
    then show ?thesis using Cons by (simp add: join_Cons)
  next
    case False
    then show ?thesis using Cons by (auto simp: join_hd_Cons split: list.splits)
  qed
qed simp

lemma of_char_digit_char [simp]: "d < 10 \<Longrightarrow> of_char (digit_char d) = (48 + d :: nat)"
  by (simp add: digit_char_def of_char_of)

lemma char_digit_digit_char [simp]: "d < 10 \<Longrightarrow> char_digit (digit_char d) = Some d"
  by (simp add: char_digit_def)

lemma show_nat_not_Nil [simp]: "show_nat n \<noteq> []"
  by (subst show_nat.simps) auto

lemma parse_digits_append:
  "parse_digits acc (s @ t) = (case parse_digits acc s of None \<Rightarrow> None | Some a \<Rightarrow> parse_digits a t)"
  by (induction s arbitrary: acc) (auto split: option.splits)

lemma parse_digits_show_nat [simp]: "parse_digits 0 (show_nat n) = Some n"
proof (induction n rule: show_nat.induct)
  case (1 n)
  show ?case
  proof (cases "n < 10")
    case True
    then show ?thesis by (subst show_nat.simps) simp
  next
    case False
    with 1 have "parse_digits 0 (show_nat (n div 10)) = Some (n div 10)" by simp
    with False show ?thesis
      by (subst show_nat.simps) (simp add: parse_digits_append)
  qed
qed

lemma inj_show_nat: "inj show_nat"
  by (metis injI option.inject parse_digits_show_nat)

lemma show_nat_eq_iff [simp]: "show_nat m = show_nat n \<longleftrightarrow> m = n"
  using inj_show_nat by (simp add: inj_eq)

lemma hd_show_nat: "char_digit (hd (show_nat n)) \<noteq> None"
proof (induction n rule: show_nat.induct)
  case (1 n)
  show ?case
  proof (cases "n < 10")
    case True
    then show ?thesis by (subst show_nat.simps) simp
  next
    case False
    with 1 show ?thesis by (subst show_nat.simps) (simp add: hd_append)
  qed
qed

lemma parse_nat_show_nat [simp]: "parse_nat (show_nat n) = Some n"
proof -
  have "char_digit (CHR ''+'') = None" by (simp add: char_digit_def)
  then have "hd (show_nat n) \<noteq> CHR ''+''" using hd_show_nat [of n] by metis
  then show ?thesis by (simp add: parse_nat_def)
qed

lemma parse_word_show_nat [simp]:
  "n < 2 ^ LENGTH('a) \<Longrightarrow> (parse_word (show_nat n) :: 'a::len word option) = Some (of_nat n)"
  by (simp add: parse_word_def)

lemma dropWhile_hd: "s \<noteq> [] \<Longrightarrow> \<not> p (hd s) \<Longrightarrow> dropWhile p s = s"
  by (cases s) auto

lemma trim_idem_char:
  "s = [] \<or> (\<not> is_whitespace (hd s) \<and> \<not> is_whitespace (last s)) \<Longrightarrow> trim s = s"
  by (cases "s = []") (auto simp: trim_def dropWhile_hd hd_rev)

end
