(* ===== verification/State_Machine.thy ===== *)
theory State_Machine
  imports Rust_Str
begin

text \<open>
  \<open>crates/domain/src/state.rs\<close>: the transition check every aggregate shares, and the two
  contracts the rest of the system relies on. \<open>event_sourced\<close> is what the projections rely
  on when they fold a stored log into an aggregate: an accepted event leaves the state or
  moves it along the table, a refused one leaves it. \<open>counted_aggregate\<close> adds the generation
  counter. Their client lemmas are about \<open>replay\<close>, the fold of a log.
\<close>

record invalid_transition =
  it_aggregate :: string
  it_from :: string
  it_to :: string

definition transition ::
  "string \<Rightarrow> ('s \<Rightarrow> 's \<Rightarrow> bool) \<Rightarrow> ('s \<Rightarrow> string) \<Rightarrow> 's \<Rightarrow> 's \<Rightarrow> invalid_transition + 's" where
  "transition aggregate can debug s to =
     (if can s to then Inr to
      else Inl \<lparr>it_aggregate = aggregate, it_from = debug s, it_to = debug to\<rparr>)"

definition refuse :: "string \<Rightarrow> string \<Rightarrow> string \<Rightarrow> invalid_transition + 'b" where
  "refuse aggregate frm to = Inl \<lparr>it_aggregate = aggregate, it_from = frm, it_to = to\<rparr>"

text \<open>The fold of a log into an aggregate: it stops at the first event that is refused.\<close>

fun replay ::
  "('a \<Rightarrow> 'e \<Rightarrow> timestamp \<Rightarrow> 'a \<times> (invalid_transition + unit)) \<Rightarrow> 'a \<Rightarrow> ('e \<times> timestamp) list \<Rightarrow>
     invalid_transition + 'a" where
  "replay ap a [] = Inr a"
| "replay ap a ((ev, t) # es) =
     (case ap a ev t of (a', Inl e) \<Rightarrow> Inl e | (a', Inr u) \<Rightarrow> replay ap a' es)"

lemma transition_Inr [simp]: "transition ag can d s to = Inr r \<longleftrightarrow> can s to \<and> r = to"
  by (auto simp: transition_def)

lemma transition_can: "can s to \<Longrightarrow> transition ag can d s to = Inr to"
  by simp

lemma refuse_not_Inr [simp]: "refuse ag f t \<noteq> Inr x"
  by (simp add: refuse_def)

lemma replay_append:
  "replay ap a (xs @ ys) = rbind (replay ap a xs) (\<lambda>b. replay ap b ys)"
  by (induction ap a xs rule: replay.induct) (auto split: prod.splits sum.splits)

lemma replay_snoc:
  "replay ap a (xs @ [(ev, t)]) =
     rbind (replay ap a xs) (\<lambda>b. case ap b ev t of (b', Inl e) \<Rightarrow> Inl e | (b', Inr u) \<Rightarrow> Inr b')"
  by (simp add: replay_append)

lemma replay_invariant:
  assumes "replay ap a es = Inr a'" and "I a"
    and "\<And>a ev t a'. I a \<Longrightarrow> ap a ev t = (a', Inr ()) \<Longrightarrow> I a'"
  shows "I a'"
  using assms(1,2)
proof (induction es arbitrary: a)
  case (Cons x es)
  obtain ev t where x: "x = (ev, t)" by (cases x)
  obtain b where b: "ap a ev t = (b, Inr ())" and r: "replay ap b es = Inr a'"
    using Cons.prems x by (auto split: prod.splits sum.splits)
  then show ?case using Cons.IH [OF r] assms(3) Cons.prems(2) by blast
qed simp

section \<open>The contracts\<close>

locale state_machine =
  fixes can :: "'s \<Rightarrow> 's \<Rightarrow> bool" and terminal :: "'s \<Rightarrow> bool"
  assumes terminal_final: "terminal s \<Longrightarrow> \<not> can s t"
begin

lemma terminal_stuck: "can\<^sup>*\<^sup>* s t \<Longrightarrow> terminal s \<Longrightarrow> t = s"
  by (induction rule: rtranclp_induct) (auto simp: terminal_final)

end

locale event_sourced = state_machine can terminal
  for can :: "'s \<Rightarrow> 's \<Rightarrow> bool" and terminal +
  fixes st :: "'a \<Rightarrow> 's"
    and ap :: "'a \<Rightarrow> 'e \<Rightarrow> timestamp \<Rightarrow> 'a \<times> (invalid_transition + unit)"
  assumes ap_ok: "ap a ev t = (a', Inr ()) \<Longrightarrow> st a' = st a \<or> can (st a) (st a')"
    and ap_err: "ap a ev t = (a', Inl e) \<Longrightarrow> st a' = st a"
begin

lemma ap_along: "can\<^sup>*\<^sup>* (st a) (st (fst (ap a ev t)))"
  using ap_ok [of a ev t] ap_err [of a ev t]
  by (cases "ap a ev t"; cases "snd (ap a ev t)") (auto simp: r_into_rtranclp)

lemma replay_along: "replay ap a es = Inr a' \<Longrightarrow> can\<^sup>*\<^sup>* (st a) (st a')"
proof (induction es arbitrary: a)
  case (Cons x es)
  obtain ev t where x: "x = (ev, t)" by (cases x)
  obtain b where b: "ap a ev t = (b, Inr ())" and r: "replay ap b es = Inr a'"
    using Cons.prems x by (auto split: prod.splits sum.splits)
  have "can\<^sup>*\<^sup>* (st a) (st b)" using ap_along [of a ev t] b by simp
  then show ?case using Cons.IH [OF r] by simp
qed simp

lemma replay_terminal: "replay ap a es = Inr a' \<Longrightarrow> terminal (st a) \<Longrightarrow> st a' = st a"
  using replay_along terminal_stuck by blast

lemma ap_terminal: "terminal (st a) \<Longrightarrow> st (fst (ap a ev t)) = st a"
  using ap_along terminal_stuck by blast

end

locale counted_aggregate = event_sourced can terminal st ap
  for can :: "'s \<Rightarrow> 's \<Rightarrow> bool" and terminal and st :: "'a \<Rightarrow> 's"
    and ap :: "'a \<Rightarrow> 'e \<Rightarrow> timestamp \<Rightarrow> 'a \<times> (invalid_transition + unit)" +
  fixes gen :: "'a \<Rightarrow> nat"
  assumes gen_ok: "ap a ev t = (a', Inr ()) \<Longrightarrow> gen a' = Suc (gen a)"
    and gen_err: "ap a ev t = (a', Inl e) \<Longrightarrow> gen a' = gen a"
begin

lemma replay_gen: "replay ap a es = Inr a' \<Longrightarrow> gen a' = gen a + length es"
proof (induction es arbitrary: a)
  case (Cons x es)
  obtain ev t where x: "x = (ev, t)" by (cases x)
  show ?case using Cons x by (auto dest: gen_ok split: prod.splits sum.splits)
qed simp

end

end
