(* ===== verification/Session.thy ===== *)
theory Session
  imports State_Machine
begin

text \<open>
  \<open>crates/domain/src/session.rs\<close>: the session aggregate. Every event constructor carries the
  fields of the source in their order. The lease generation is the fence of the kernel lease
  and the branch generation that of pending compactions: both only move forward.
\<close>

datatype session_state = SessActive | SessSuspended | SessArchived

fun session_state_debug :: "session_state \<Rightarrow> string" where
  "session_state_debug SessActive = ''Active''"
| "session_state_debug SessSuspended = ''Suspended''"
| "session_state_debug SessArchived = ''Archived''"

fun session_can_transition :: "session_state \<Rightarrow> session_state \<Rightarrow> bool" where
  "session_can_transition SessActive SessSuspended = True"
| "session_can_transition SessSuspended SessActive = True"
| "session_can_transition SessActive SessArchived = True"
| "session_can_transition SessSuspended SessArchived = True"
| "session_can_transition _ _ = False"

definition session_is_terminal :: "session_state \<Rightarrow> bool" where
  "session_is_terminal s = (s = SessArchived)"

record session =
  session_id :: uuid
  session_tenant_id :: uuid
  session_user_id :: uuid
  session_space_id :: uuid
  session_state :: session_state
  session_generation :: nat
  session_created_at :: timestamp
  session_updated_at :: timestamp
  session_current_task_id :: "uuid option"
  session_lease_generation :: nat
  session_lease_owner :: "string option"
  session_emergency_stopped_at :: "timestamp option"
  session_branch_generation :: nat

datatype session_event =
    SessionCreated uuid uuid uuid
  | SessionSuspended
  | SessionResumed
  | SessionArchived
  | SessionFocusChanged "uuid option"
  | SessionLeaseAcquired nat string
  | EmergencyStopActivated string
  | RepositoryTrusted string string
  | ExtensionLoaded string string string string string string "string list" string "string option"
  | ExtensionTrusted string string string
  | ExtensionUnloaded string string "string list"
  | SessionEnding "string list" bool u32 u32
  | SessionBranched nat string string
  | OutcomeStatisticsMaterialized string string string "string list" u32 u32 u32
  | OutcomeBaselinePublished string string string string string u32 u32 u32

definition session_event_type :: "session_event \<Rightarrow> string" where
  "session_event_type ev = (case ev of
     SessionCreated _ _ _ \<Rightarrow> ''SessionCreated''
   | SessionSuspended \<Rightarrow> ''SessionSuspended''
   | SessionResumed \<Rightarrow> ''SessionResumed''
   | SessionArchived \<Rightarrow> ''SessionArchived''
   | SessionFocusChanged _ \<Rightarrow> ''SessionFocusChanged''
   | SessionLeaseAcquired _ _ \<Rightarrow> ''SessionLeaseAcquired''
   | EmergencyStopActivated _ \<Rightarrow> ''EmergencyStopActivated''
   | OutcomeBaselinePublished _ _ _ _ _ _ _ _ \<Rightarrow> ''OutcomeBaselinePublished''
   | OutcomeStatisticsMaterialized _ _ _ _ _ _ _ \<Rightarrow> ''OutcomeStatisticsMaterialized''
   | RepositoryTrusted _ _ \<Rightarrow> ''RepositoryTrusted''
   | ExtensionLoaded _ _ _ _ _ _ _ _ _ \<Rightarrow> ''ExtensionLoaded''
   | ExtensionUnloaded _ _ _ \<Rightarrow> ''ExtensionUnloaded''
   | ExtensionTrusted _ _ _ \<Rightarrow> ''ExtensionTrusted''
   | SessionEnding _ _ _ _ \<Rightarrow> ''SessionEnding''
   | SessionBranched _ _ _ \<Rightarrow> ''SessionBranched'')"

definition session_create :: "uuid \<Rightarrow> session_event \<Rightarrow> timestamp \<Rightarrow> invalid_transition + session" where
  "session_create sid ev at = (case ev of
     SessionCreated tenant user space \<Rightarrow> Inr \<lparr>
       session_id = sid, session_tenant_id = tenant, session_user_id = user,
       session_space_id = space, session_state = SessActive, session_generation = 1,
       session_created_at = at, session_updated_at = at, session_current_task_id = None,
       session_lease_generation = 0, session_lease_owner = None,
       session_emergency_stopped_at = None, session_branch_generation = 0\<rparr>
   | _ \<Rightarrow> refuse ''Session'' ''<none>'' (session_event_type ev))"

text \<open>The \<open>match\<close> that computes \<open>next\<close>, with the field writes of its arms.\<close>

definition session_record :: "session \<Rightarrow> session_event \<Rightarrow> session \<times> (invalid_transition + session_state option)" where
  "session_record s ev =
     (s, if session_is_terminal (session_state s)
         then refuse ''Session'' (session_state_debug (session_state s)) (session_event_type ev)
         else Inr None)"

definition session_next ::
  "session \<Rightarrow> session_event \<Rightarrow> timestamp \<Rightarrow> session \<times> (invalid_transition + session_state option)" where
  "session_next s ev at = (case ev of
     SessionCreated _ _ _ \<Rightarrow>
       (s, refuse ''Session'' (session_state_debug (session_state s)) ''SessionCreated'')
   | OutcomeBaselinePublished _ _ _ _ _ _ _ _ \<Rightarrow> session_record s ev
   | OutcomeStatisticsMaterialized _ _ _ _ _ _ _ \<Rightarrow> session_record s ev
   | RepositoryTrusted _ _ \<Rightarrow> session_record s ev
   | ExtensionLoaded _ _ _ _ _ _ _ _ _ \<Rightarrow> session_record s ev
   | ExtensionUnloaded _ _ _ \<Rightarrow> session_record s ev
   | ExtensionTrusted _ _ _ \<Rightarrow> session_record s ev
   | SessionEnding _ _ _ _ \<Rightarrow> session_record s ev
   | SessionBranched bg kind reason \<Rightarrow>
       if session_is_terminal (session_state s) \<or> bg \<le> session_branch_generation s
       then (s, refuse ''Session''
              (session_state_debug (session_state s) @ '' (branch '' @ show_nat (session_branch_generation s) @ '')'')
              (''SessionBranched (branch '' @ show_nat bg @ '')''))
       else (s\<lparr>session_branch_generation := bg\<rparr>, Inr None)
   | SessionSuspended \<Rightarrow> (s, Inr (Some SessSuspended))
   | SessionResumed \<Rightarrow> (s, Inr (Some SessActive))
   | SessionArchived \<Rightarrow> (s, Inr (Some SessArchived))
   | SessionFocusChanged task \<Rightarrow>
       if session_is_terminal (session_state s)
       then (s, refuse ''Session'' (session_state_debug (session_state s)) ''SessionFocusChanged'')
       else (s\<lparr>session_current_task_id := task\<rparr>, Inr None)
   | SessionLeaseAcquired lg owner \<Rightarrow>
       if session_is_terminal (session_state s) \<or> lg \<le> session_lease_generation s
       then (s, refuse ''Session''
              (''lease generation '' @ show_nat (session_lease_generation s))
              (''stale lease generation '' @ show_nat lg))
       else (s\<lparr>session_lease_generation := lg, session_lease_owner := Some owner\<rparr>, Inr None)
   | EmergencyStopActivated _ \<Rightarrow> (s\<lparr>session_emergency_stopped_at := Some at\<rparr>, Inr None))"

definition session_apply ::
  "session \<Rightarrow> session_event \<Rightarrow> timestamp \<Rightarrow> session \<times> (invalid_transition + unit)" where
  "session_apply s ev at = (case session_next s ev at of
     (s', Inl e) \<Rightarrow> (s', Inl e)
   | (s', Inr nxt) \<Rightarrow>
       (case (case nxt of None \<Rightarrow> Inr s'
              | Some to \<Rightarrow>
                  (case transition ''Session'' session_can_transition session_state_debug (session_state s') to of
                     Inl e \<Rightarrow> Inl e
                   | Inr st \<Rightarrow> Inr (s'\<lparr>session_state := st\<rparr>))) of
          Inl e \<Rightarrow> (s', Inl e)
        | Inr s'' \<Rightarrow>
            (s''\<lparr>session_generation := session_generation s'' + 1, session_updated_at := at\<rparr>, Inr ())))"

section \<open>Contract and fencing\<close>

lemmas session_apply_defs = session_apply_def session_next_def session_record_def refuse_def transition_def

lemma session_terminal_final: "session_is_terminal s \<Longrightarrow> \<not> session_can_transition s t"
  by (cases t) (simp_all add: session_is_terminal_def)

interpretation session_agg: counted_aggregate
  session_can_transition session_is_terminal session_state session_apply session_generation
proof unfold_locales
  show "\<not> session_can_transition s t" if "session_is_terminal s" for s t
    using that by (rule session_terminal_final)
  show "session_state a' = session_state a \<or> session_can_transition (session_state a) (session_state a')"
    if "session_apply a ev t = (a', Inr ())" for a ev t a'
    using that by (auto simp: session_apply_defs split: session_event.splits if_splits)
  show "session_state a' = session_state a" if "session_apply a ev t = (a', Inl e)" for a ev t a' e
    using that by (auto simp: session_apply_defs split: session_event.splits if_splits)
  show "session_generation a' = Suc (session_generation a)"
    if "session_apply a ev t = (a', Inr ())" for a ev t a'
    using that by (auto simp: session_apply_defs split: session_event.splits if_splits)
  show "session_generation a' = session_generation a"
    if "session_apply a ev t = (a', Inl e)" for a ev t a' e
    using that by (auto simp: session_apply_defs split: session_event.splits if_splits)
qed

lemma session_apply_err_unchanged: "session_apply s ev at = (s', Inl e) \<Longrightarrow> s' = s"
  by (auto simp: session_apply_defs split: session_event.splits if_splits)

lemma session_apply_fences:
  "session_apply s ev at = (s', Inr ()) \<Longrightarrow>
     session_lease_generation s \<le> session_lease_generation s' \<and>
     session_branch_generation s \<le> session_branch_generation s' \<and>
     (session_emergency_stopped_at s \<noteq> None \<longrightarrow> session_emergency_stopped_at s' \<noteq> None)"
  by (auto simp: session_apply_defs split: session_event.splits if_splits)

lemma session_replay_fences:
  assumes "replay session_apply s es = Inr s'"
  shows "session_lease_generation s \<le> session_lease_generation s' \<and>
     session_branch_generation s \<le> session_branch_generation s' \<and>
     (session_emergency_stopped_at s \<noteq> None \<longrightarrow> session_emergency_stopped_at s' \<noteq> None)"
  using assms
proof (rule replay_invariant)
  fix a ev t a'
  assume "session_lease_generation s \<le> session_lease_generation a \<and>
     session_branch_generation s \<le> session_branch_generation a \<and>
     (session_emergency_stopped_at s \<noteq> None \<longrightarrow> session_emergency_stopped_at a \<noteq> None)"
    and "session_apply a ev t = (a', Inr ())"
  then show "session_lease_generation s \<le> session_lease_generation a' \<and>
     session_branch_generation s \<le> session_branch_generation a' \<and>
     (session_emergency_stopped_at s \<noteq> None \<longrightarrow> session_emergency_stopped_at a' \<noteq> None)"
    using session_apply_fences [of a ev t a'] by fastforce
qed simp

lemma session_apply_id: "session_id (fst (session_apply s ev at)) = session_id s"
  by (auto simp: session_apply_defs split: session_event.splits if_splits)

lemma session_create_id: "session_create i ev at = Inr s \<Longrightarrow> session_id s = i"
  by (auto simp: session_create_def refuse_def split: session_event.splits)

end
