(* ===== verification/Task.thy ===== *)
theory Task
  imports State_Machine
begin

text \<open>
  \<open>crates/domain/src/task.rs\<close>: the task aggregate. The events that move the state, rebind
  the workspace or feed the input queue have their own constructors with the fields of the
  source. The other 139 events are records: \<open>apply\<close> reads nothing of them but which of
  the two groups of its \<open>match\<close> they are in, so they are \<open>TaskRecord\<close> with the name that
  \<open>event_type\<close> gives them, and the groups are the lists \<open>open_records\<close> (refused once the
  task is over) and \<open>any_state_records\<close>. A name in neither list is not an event of the
  source and is refused.
\<close>

datatype wait_reason =
    WaitUserInput | WaitApproval | WaitCapacity | WaitExternal | WaitProvider | WaitPaused

datatype task_origin =
    OriginDesktop | OriginCli | OriginIdeAdapter | OriginForgeIssue | OriginForgeWebhook
  | OriginFork | OriginReview | OriginSubagent | OriginReplay | OriginAutomation

datatype input_mode = Steer | Collect | FollowUp

datatype task_state =
    TkCreated | TkQueued | TkRunning | TkWaiting wait_reason | TkReadyForReview
  | TkCompleted | TkFailed | TkCancelled

fun wait_reason_debug :: "wait_reason \<Rightarrow> string" where
  "wait_reason_debug WaitUserInput = ''UserInput''"
| "wait_reason_debug WaitApproval = ''Approval''"
| "wait_reason_debug WaitCapacity = ''Capacity''"
| "wait_reason_debug WaitExternal = ''External''"
| "wait_reason_debug WaitProvider = ''Provider''"
| "wait_reason_debug WaitPaused = ''Paused''"

fun task_state_debug :: "task_state \<Rightarrow> string" where
  "task_state_debug TkCreated = ''Created''"
| "task_state_debug TkQueued = ''Queued''"
| "task_state_debug TkRunning = ''Running''"
| "task_state_debug (TkWaiting r) = ''Waiting('' @ wait_reason_debug r @ '')''"
| "task_state_debug TkReadyForReview = ''ReadyForReview''"
| "task_state_debug TkCompleted = ''Completed''"
| "task_state_debug TkFailed = ''Failed''"
| "task_state_debug TkCancelled = ''Cancelled''"

definition task_can_transition :: "task_state \<Rightarrow> task_state \<Rightarrow> bool" where
  "task_can_transition s to = (case (s, to) of
     (TkCreated, TkQueued) \<Rightarrow> True
   | (TkQueued, TkRunning) \<Rightarrow> True
   | (TkRunning, TkWaiting _) \<Rightarrow> True
   | (TkWaiting _, TkRunning) \<Rightarrow> True
   | (TkRunning, TkReadyForReview) \<Rightarrow> True
   | (TkReadyForReview, TkCompleted) \<Rightarrow> True
   | (TkReadyForReview, TkRunning) \<Rightarrow> True
   | (f, t) \<Rightarrow>
       (case f of TkCompleted \<Rightarrow> False | TkFailed \<Rightarrow> False | TkCancelled \<Rightarrow> False
        | _ \<Rightarrow> t = TkFailed \<or> t = TkCancelled))"

definition task_is_terminal :: "task_state \<Rightarrow> bool" where
  "task_is_terminal s = (s = TkCompleted \<or> s = TkFailed \<or> s = TkCancelled)"

record task =
  task_id :: uuid
  task_session_id :: uuid
  task_goal_text :: string
  task_workspace_id :: uuid
  task_workspace_root :: "string option"
  task_base_revision :: "string option"
  task_execution_profile :: string
  task_policy_profile_id :: "string option"
  task_origin :: task_origin
  task_state :: task_state
  task_generation :: nat
  task_created_at :: timestamp
  task_started_at :: "timestamp option"
  task_completed_at :: "timestamp option"
  task_failure_code :: "string option"

datatype task_event =
    TaskCreated uuid string uuid "string option" "string option" string "string option" task_origin
  | TaskQueued
  | TaskStarted
  | TaskWaiting wait_reason
  | TaskResumed
  | TaskReadyForReview
  | TaskReturnedToWork
  | TaskCompleted
  | TaskFailed string
  | TaskCancelled
  | TaskSteered string string bool "string list"
  | TaskInputQueued string input_mode string string bool
  | TaskInputEdited string string "input_mode option" string
  | TaskInputRemoved string string
  | TaskInputReordered string string
  | SendBehaviorSet string string
  | TaskInterruptRequested string string string string
  | TaskInterruptApplied string string bool "string list" "string list" string
  | TaskWorkspaceRebound string string string
  | TaskRecord string

definition open_records :: "string list" where
  "open_records =
    [''TaskNeedsAttention'', ''UserQuestionAsked'', ''UserQuestionAnswered'',
     ''AttachmentIngested'', ''TaskModeSet'', ''TaskPostureApplied'', ''ModeSwitchProposed'',
     ''ModeSwitchDecided'', ''ExecutionPreferenceSet'', ''ExecutionPreferenceApplied'',
     ''PlanRecorded'', ''PlanRevised'', ''PlanAnnotated'', ''UserPatchApplied'',
     ''ExternalDiagnosticsRecorded'', ''ExternalDiagnosticsRejected'',
     ''ForgePullRequestOpened'', ''ForgePullRequestUpdated'', ''ForgeCommentPosted'',
     ''TaskCreatedFromIssue'', ''TaskTriggeredByAutomation'', ''BrowserSessionOpened'',
     ''BrowserHostAttached'', ''BrowserNavigated'', ''BrowserSessionClosed'',
     ''BrowserControlChanged'', ''BrowserPageObserved'', ''BrowserActionPerformed'',
     ''BrowserRegionCaptured'', ''BrowserPageChanged'', ''BrowserOutcomeUnknown'',
     ''BrowserOutcomeReconciled'', ''SecurityEventRecorded'', ''SloStageRecorded'',
     ''TaskPauseRequested'', ''TaskResumeRequested'', ''TaskPaused'', ''TaskCancelRequested'',
     ''BrowserCredentialFilled'', ''SandboxLeaseAcquired'', ''TaskHandedOff'',
     ''TaskHandoffAdmitted'', ''SelfReviewRecorded'', ''ToolsActivated'',
     ''ToolProjectionConfigured'', ''ProgramStarted'', ''ProgramEnded'', ''SkillSelected'',
     ''SkillRejected'', ''SkillIndexRecorded'', ''SkillConfigurationCompiled'',
     ''RulesSelected'', ''MediaBridged'', ''CapacityTicketGranted'',
     ''CapacityTicketReleased'', ''CapacityDenied'', ''AgentNodeCreated'',
     ''AgentNodeTransitioned'', ''AgentBindingChanged'', ''WorkNodesChanged'',
     ''SubagentAdmitted'', ''TaskBudgetsSet'', ''TaskBudgetRaiseDecided'',
     ''SubagentAdmissionRefused'', ''SubagentCapsuleBound'', ''SubagentResultRecorded'',
     ''SubagentProtectedEffect'', ''ReviewEnvironmentAdmitted'', ''ReviewEnvironmentBound'',
     ''ReviewerResultRecorded'', ''RevisionActivated'', ''ReviewEnvironmentDisposed'',
     ''ContextEpochOpened'', ''CompactionStarted'', ''CompactionCommitted'',
     ''CompactionRejectedStale'', ''ReproductionRecorded'', ''SelectionRecorded'',
     ''ContextDocumentAttached'', ''UnsupportedLanguageOptInRecorded'',
     ''ScopeExpansionRecorded'', ''ProtectedPathsUnlocked'', ''RetrievalRecorded'',
     ''ContextPackRecorded'', ''RepairAttemptRecorded'', ''RepairAttemptConcluded'',
     ''RepairEscalated'', ''HarnessBudgetExhausted'', ''NoProgressDetected'',
     ''ReviewDecisionRecorded'', ''TaskForked'', ''TerminalCreated'',
     ''TerminalOutputAdvanced'', ''ProcessExited'', ''TerminalControlRecorded'',
     ''ProtocolStateResumed'', ''ToolCallReconciled'', ''PolicyGenerationChanged'',
     ''CapabilitySnapshotRecorded'']"

definition any_state_records :: "string list" where
  "any_state_records =
    [''CheckpointStarted'', ''CheckpointCommitted'', ''CheckpointRejectedStale'',
     ''CheckpointRestored'', ''CheckpointRestoreStarted'', ''CheckpointRestoreRolledBack'',
     ''CheckpointNamed'', ''CheckpointSkipped'', ''CheckpointGcStarted'',
     ''CheckpointCollected'', ''CheckpointGcCompleted'', ''BackgroundProcessEnded'',
     ''BackgroundWakeDelivered'', ''PausedCapacityReleased'', ''RunModeSet'',
     ''AllowRuleAdded'', ''AllowRuleRevoked'', ''ComputerSessionStarted'',
     ''ComputerObserved'', ''ComputerActionPerformed'', ''ComputerLatched'',
     ''ComputerLatchResolved'', ''ComputerSessionClosed'', ''ComputerUserAborted'',
     ''ComputerArtifactExpired'', ''ProcessServiceObserved'', ''SandboxReleased'',
     ''CiEvidenceRecorded'', ''ReviewCommentsIngested'', ''UsageReconciled'',
     ''RequestOutcomeRecorded'', ''HooksResolved'', ''HookInvoked'',
     ''RequestSnapshotRecorded'', ''CounterfactualReplayStarted'', ''SandboxLost'',
     ''SandboxRestored'', ''EnvironmentPinned'', ''EnvironmentStale'', ''EnvironmentRebuilt'']"

definition task_event_type :: "task_event \<Rightarrow> string" where
  "task_event_type ev = (case ev of
     TaskCreated _ _ _ _ _ _ _ _ \<Rightarrow> ''TaskCreated''
   | TaskQueued \<Rightarrow> ''TaskQueued''
   | TaskStarted \<Rightarrow> ''TaskStarted''
   | TaskWaiting _ \<Rightarrow> ''TaskWaiting''
   | TaskResumed \<Rightarrow> ''TaskResumed''
   | TaskReadyForReview \<Rightarrow> ''TaskReadyForReview''
   | TaskReturnedToWork \<Rightarrow> ''TaskReturnedToWork''
   | TaskCompleted \<Rightarrow> ''TaskCompleted''
   | TaskFailed _ \<Rightarrow> ''TaskFailed''
   | TaskCancelled \<Rightarrow> ''TaskCancelled''
   | TaskSteered _ _ _ _ \<Rightarrow> ''TaskSteered''
   | TaskInputQueued _ _ _ _ _ \<Rightarrow> ''TaskInputQueued''
   | TaskInputEdited _ _ _ _ \<Rightarrow> ''TaskInputEdited''
   | TaskInputRemoved _ _ \<Rightarrow> ''TaskInputRemoved''
   | TaskInputReordered _ _ \<Rightarrow> ''TaskInputReordered''
   | SendBehaviorSet _ _ \<Rightarrow> ''SendBehaviorSet''
   | TaskInterruptRequested _ _ _ _ \<Rightarrow> ''TaskInterruptRequested''
   | TaskInterruptApplied _ _ _ _ _ _ \<Rightarrow> ''TaskInterruptApplied''
   | TaskWorkspaceRebound _ _ _ \<Rightarrow> ''TaskWorkspaceRebound''
   | TaskRecord name \<Rightarrow> name)"

definition task_create :: "uuid \<Rightarrow> task_event \<Rightarrow> timestamp \<Rightarrow> invalid_transition + task" where
  "task_create tid ev at = (case ev of
     TaskCreated session goal workspace root base profile policy origin \<Rightarrow> Inr \<lparr>
       task_id = tid, task_session_id = session, task_goal_text = goal,
       task_workspace_id = workspace, task_workspace_root = root, task_base_revision = base,
       task_execution_profile = profile, task_policy_profile_id = policy, task_origin = origin,
       task_state = TkCreated, task_generation = 1, task_created_at = at,
       task_started_at = None, task_completed_at = None, task_failure_code = None\<rparr>
   | _ \<Rightarrow> refuse ''Task'' ''<none>'' (task_event_type ev))"

definition task_invalid :: "task_state \<Rightarrow> string \<Rightarrow> invalid_transition + 'b" where
  "task_invalid s to = refuse ''Task'' (task_state_debug s) to"

definition task_record :: "task \<Rightarrow> task_event \<Rightarrow> task \<times> (invalid_transition + task_state option)" where
  "task_record k ev =
     (k, if task_is_terminal (task_state k) then task_invalid (task_state k) (task_event_type ev)
         else Inr None)"

text \<open>The \<open>match\<close> that computes \<open>next\<close>, with the field writes of its arms.\<close>

definition task_next :: "task \<Rightarrow> task_event \<Rightarrow> task \<times> (invalid_transition + task_state option)" where
  "task_next k ev = (case ev of
     TaskCreated _ _ _ _ _ _ _ _ \<Rightarrow> (k, task_invalid (task_state k) ''TaskCreated'')
   | TaskQueued \<Rightarrow> (k, Inr (Some TkQueued))
   | TaskStarted \<Rightarrow> (k, Inr (Some TkRunning))
   | TaskWaiting reason \<Rightarrow> (k, Inr (Some (TkWaiting reason)))
   | TaskResumed \<Rightarrow>
       (case task_state k of TkWaiting _ \<Rightarrow> (k, Inr (Some TkRunning))
        | s \<Rightarrow> (k, task_invalid s ''TaskResumed''))
   | TaskReadyForReview \<Rightarrow> (k, Inr (Some TkReadyForReview))
   | TaskReturnedToWork \<Rightarrow>
       if task_state k \<noteq> TkReadyForReview then (k, task_invalid (task_state k) ''TaskReturnedToWork'')
       else (k, Inr (Some TkRunning))
   | TaskCompleted \<Rightarrow> (k, Inr (Some TkCompleted))
   | TaskFailed code \<Rightarrow>
       (case transition ''Task'' task_can_transition task_state_debug (task_state k) TkFailed of
          Inl e \<Rightarrow> (k, Inl e)
        | Inr _ \<Rightarrow> (k\<lparr>task_failure_code := Some code\<rparr>, Inr (Some TkFailed)))
   | TaskCancelled \<Rightarrow> (k, Inr (Some TkCancelled))
   | TaskWorkspaceRebound root reason profile \<Rightarrow>
       if task_is_terminal (task_state k) then (k, task_invalid (task_state k) (task_event_type ev))
       else (let k' = k\<lparr>task_workspace_root := Some root\<rparr>
             in (if profile \<noteq> [] then k'\<lparr>task_execution_profile := profile\<rparr> else k', Inr None))
   | TaskRecord name \<Rightarrow>
       if name \<in> set any_state_records then (k, Inr None)
       else if name \<in> set open_records then task_record k ev
       else (k, task_invalid (task_state k) name)
   | _ \<Rightarrow> task_record k ev)"

definition task_apply :: "task \<Rightarrow> task_event \<Rightarrow> timestamp \<Rightarrow> task \<times> (invalid_transition + unit)" where
  "task_apply k ev at = (case task_next k ev of
     (k', Inl e) \<Rightarrow> (k', Inl e)
   | (k', Inr None) \<Rightarrow> (k'\<lparr>task_generation := task_generation k' + 1\<rparr>, Inr ())
   | (k', Inr (Some to)) \<Rightarrow>
       (case transition ''Task'' task_can_transition task_state_debug (task_state k') to of
          Inl e \<Rightarrow> (k', Inl e)
        | Inr st \<Rightarrow>
            (let k1 = k'\<lparr>task_state := st\<rparr>;
                 k2 = (if to = TkRunning \<and> task_started_at k1 = None
                       then k1\<lparr>task_started_at := Some at\<rparr> else k1);
                 k3 = (if task_is_terminal to then k2\<lparr>task_completed_at := Some at\<rparr> else k2)
             in (k3\<lparr>task_generation := task_generation k3 + 1\<rparr>, Inr ()))))"

section \<open>Contract\<close>

lemmas task_apply_defs =
  task_apply_def task_next_def task_record_def task_invalid_def refuse_def transition_def Let_def

lemma task_terminal_final: "task_is_terminal s \<Longrightarrow> \<not> task_can_transition s t"
  by (auto simp: task_is_terminal_def task_can_transition_def split: task_state.splits)

lemma task_next_keeps:
  assumes "task_next k ev = (k', r)"
  shows "task_state k' = task_state k \<and> task_generation k' = task_generation k
    \<and> task_started_at k' = task_started_at k \<and> task_completed_at k' = task_completed_at k"
  using assms by (auto simp: task_apply_defs split: task_event.splits task_state.splits if_splits)

lemma task_apply_ok_cases:
  assumes "task_apply k ev at = (k', Inr ())"
  obtains (stay) "task_state k' = task_state k" "task_generation k' = Suc (task_generation k)"
      "task_started_at k' = task_started_at k" "task_completed_at k' = task_completed_at k"
    | (move) "task_can_transition (task_state k) (task_state k')"
      "task_generation k' = Suc (task_generation k)"
      "task_started_at k' = (if task_state k' = TkRunning \<and> task_started_at k = None
         then Some at else task_started_at k)"
      "task_completed_at k' = (if task_is_terminal (task_state k') then Some at else task_completed_at k)"
proof -
  obtain k1 r where n: "task_next k ev = (k1, r)" by (cases "task_next k ev")
  from assms n obtain nxt where r: "r = Inr nxt" by (cases r) (auto simp: task_apply_def)
  note keep = task_next_keeps [OF n]
  show thesis
  proof (cases nxt)
    case None
    then show ?thesis using assms n r keep by (intro stay) (auto simp: task_apply_def)
  next
    case (Some to)
    then show ?thesis using assms n r keep
      by (intro move) (auto simp: task_apply_def transition_def Let_def split: if_splits)
  qed
qed

lemma task_apply_err_keeps:
  assumes "task_apply k ev at = (k', Inl e)"
  shows "k' = k"
  using assms
  by (auto simp: task_apply_defs split: task_event.splits task_state.splits if_splits)

interpretation task_agg: counted_aggregate
  task_can_transition task_is_terminal task_state task_apply task_generation
proof unfold_locales
  show "\<not> task_can_transition s t" if "task_is_terminal s" for s t
    using that by (rule task_terminal_final)
  show "task_state a' = task_state a \<or> task_can_transition (task_state a) (task_state a')"
    if "task_apply a ev t = (a', Inr ())" for a ev t a'
    using that by (rule task_apply_ok_cases) auto
  show "task_state a' = task_state a" if "task_apply a ev t = (a', Inl e)" for a ev t a' e
    using task_apply_err_keeps [OF that] by simp
  show "task_generation a' = Suc (task_generation a)"
    if "task_apply a ev t = (a', Inr ())" for a ev t a'
    using that by (rule task_apply_ok_cases) auto
  show "task_generation a' = task_generation a"
    if "task_apply a ev t = (a', Inl e)" for a ev t a' e
    using task_apply_err_keeps [OF that] by simp
qed

text \<open>The well-formedness of a task: its times say where it is in its life.\<close>

definition task_wf :: "task \<Rightarrow> bool" where
  "task_wf k \<longleftrightarrow>
     (task_completed_at k \<noteq> None \<longleftrightarrow> task_is_terminal (task_state k))
   \<and> (task_state k \<in> {TkCreated, TkQueued} \<longrightarrow> task_started_at k = None)
   \<and> (task_state k \<in> {TkRunning, TkReadyForReview, TkCompleted} \<union> range TkWaiting
        \<longrightarrow> task_started_at k \<noteq> None)
   \<and> 1 \<le> task_generation k"

lemma task_create_wf: "task_create tid ev at = Inr k \<Longrightarrow> task_wf k"
  by (auto simp: task_create_def task_wf_def task_is_terminal_def split: task_event.splits)

lemma task_apply_wf:
  assumes "task_wf k" "task_apply k ev at = (k', Inr ())"
  shows "task_wf k'"
  using assms(2)
proof (cases rule: task_apply_ok_cases)
  case stay
  then show ?thesis using assms(1) by (auto simp: task_wf_def)
next
  case move
  then show ?thesis using assms(1)
    by (cases "task_state k"; cases "task_state k'")
      (auto simp: task_wf_def task_is_terminal_def task_can_transition_def)
qed

lemma task_replay_wf:
  assumes "replay task_apply k es = Inr k'" "task_wf k"
  shows "task_wf k'"
  using assms task_apply_wf by (rule replay_invariant)

end
