(* ===== verification/Run.thy ===== *)
theory Run
  imports State_Machine
begin

text \<open>
  \<open>crates/domain/src/run.rs\<close>: the run aggregate, fenced by the lease generation of the
  session kernel. The seventeen audit events are \<open>RunRecord\<close> with the name \<open>event_type\<close>
  gives them: \<open>apply\<close> reads nothing else of them. \<open>run_records\<close> lists those that a finished
  run refuses; \<open>AcceptanceGateEvaluated\<close> is accepted in every state.
\<close>

datatype owner_location = OwnerLocal | OwnerCloud

datatype run_state = RnPending | RnRunning | RnSuspended | RnCompleted | RnFailed | RnCancelled

fun run_state_debug :: "run_state \<Rightarrow> string" where
  "run_state_debug RnPending = ''Pending''"
| "run_state_debug RnRunning = ''Running''"
| "run_state_debug RnSuspended = ''Suspended''"
| "run_state_debug RnCompleted = ''Completed''"
| "run_state_debug RnFailed = ''Failed''"
| "run_state_debug RnCancelled = ''Cancelled''"

definition run_can_transition :: "run_state \<Rightarrow> run_state \<Rightarrow> bool" where
  "run_can_transition s to \<longleftrightarrow>
     (s, to) \<in> {(RnPending, RnRunning), (RnRunning, RnSuspended), (RnSuspended, RnRunning),
                (RnRunning, RnCompleted)}
   \<or> s \<in> {RnPending, RnRunning, RnSuspended} \<and> to \<in> {RnFailed, RnCancelled}"

definition run_is_terminal :: "run_state \<Rightarrow> bool" where
  "run_is_terminal s \<longleftrightarrow> s \<in> {RnCompleted, RnFailed, RnCancelled}"

record run =
  run_id :: uuid
  run_task_id :: uuid
  run_attempt :: u32
  run_owner_location :: owner_location
  run_kernel_lease_generation :: nat
  run_state :: run_state
  run_generation :: nat
  run_started_at :: "timestamp option"
  run_ended_at :: "timestamp option"

datatype run_event =
    RunCreated uuid u32 owner_location nat
  | RunStarted
  | RunSuspended
  | RunResumed nat
  | RunCompleted
  | RunFailed string
  | RunCancelled
  | RunRecord string

definition run_records :: "string list" where
  "run_records =
    [''VerificationBaselineRecorded'', ''VerificationRunRecorded'', ''RoutingPlanCompiled'',
     ''RequestProfiled'', ''RoutingPlanAdmitted'', ''SlotActivated'', ''RoutingAttemptRecorded'',
     ''RoutingDecisionRecorded'', ''RunFenced'', ''FlakyCheckQuarantined'',
     ''RegressionAttributed'', ''DiffInvariantViolated'', ''RealizedRiskDerived'',
     ''RouteReevaluated'', ''ContinuationActivated'', ''ReviewLegActivated'']"

definition run_event_type :: "run_event \<Rightarrow> string" where
  "run_event_type ev = (case ev of
     RunCreated _ _ _ _ \<Rightarrow> ''RunCreated''
   | RunStarted \<Rightarrow> ''RunStarted''
   | RunSuspended \<Rightarrow> ''RunSuspended''
   | RunResumed _ \<Rightarrow> ''RunResumed''
   | RunCompleted \<Rightarrow> ''RunCompleted''
   | RunFailed _ \<Rightarrow> ''RunFailed''
   | RunCancelled \<Rightarrow> ''RunCancelled''
   | RunRecord name \<Rightarrow> name)"

definition run_create :: "uuid \<Rightarrow> run_event \<Rightarrow> timestamp \<Rightarrow> invalid_transition + run" where
  "run_create rid ev at = (case ev of
     RunCreated task attempt owner lease_gen \<Rightarrow> Inr \<lparr>
       run_id = rid, run_task_id = task, run_attempt = attempt, run_owner_location = owner,
       run_kernel_lease_generation = lease_gen, run_state = RnPending, run_generation = 1,
       run_started_at = None, run_ended_at = None\<rparr>
   | _ \<Rightarrow> refuse ''Run'' ''<none>'' (run_event_type ev))"

text \<open>The \<open>match\<close> that computes \<open>to\<close>; \<open>None\<close> is its early \<open>return Ok(())\<close>.\<close>

definition run_next :: "run \<Rightarrow> run_event \<Rightarrow> run \<times> (invalid_transition + run_state option)" where
  "run_next r ev = (case ev of
     RunCreated _ _ _ _ \<Rightarrow> (r, refuse ''Run'' (run_state_debug (run_state r)) ''RunCreated'')
   | RunStarted \<Rightarrow> (r, Inr (Some RnRunning))
   | RunSuspended \<Rightarrow> (r, Inr (Some RnSuspended))
   | RunResumed lease_gen \<Rightarrow>
       if lease_gen < run_kernel_lease_generation r
       then (r, refuse ''Run'' (''lease generation '' @ show_nat (run_kernel_lease_generation r))
                  (''stale lease generation '' @ show_nat lease_gen))
       else (case transition ''Run'' run_can_transition run_state_debug (run_state r) RnRunning of
               Inl e \<Rightarrow> (r, Inl e)
             | Inr _ \<Rightarrow> (r\<lparr>run_kernel_lease_generation := lease_gen\<rparr>, Inr (Some RnRunning)))
   | RunCompleted \<Rightarrow> (r, Inr (Some RnCompleted))
   | RunFailed _ \<Rightarrow> (r, Inr (Some RnFailed))
   | RunCancelled \<Rightarrow> (r, Inr (Some RnCancelled))
   | RunRecord name \<Rightarrow>
       if name = ''AcceptanceGateEvaluated'' then (r, Inr None)
       else if run_is_terminal (run_state r) \<or> name \<notin> set run_records
       then (r, refuse ''Run'' (run_state_debug (run_state r)) (run_event_type ev))
       else (r, Inr None))"

definition run_apply :: "run \<Rightarrow> run_event \<Rightarrow> timestamp \<Rightarrow> run \<times> (invalid_transition + unit)" where
  "run_apply r ev at = (case run_next r ev of
     (r', Inl e) \<Rightarrow> (r', Inl e)
   | (r', Inr None) \<Rightarrow> (r'\<lparr>run_generation := run_generation r' + 1\<rparr>, Inr ())
   | (r', Inr (Some to)) \<Rightarrow>
       (case transition ''Run'' run_can_transition run_state_debug (run_state r') to of
          Inl e \<Rightarrow> (r', Inl e)
        | Inr st \<Rightarrow>
            (let r1 = r'\<lparr>run_state := st\<rparr>;
                 r2 = (if to = RnRunning \<and> run_started_at r1 = None
                       then r1\<lparr>run_started_at := Some at\<rparr> else r1);
                 r3 = (if run_is_terminal to then r2\<lparr>run_ended_at := Some at\<rparr> else r2)
             in (r3\<lparr>run_generation := run_generation r3 + 1\<rparr>, Inr ()))))"

section \<open>Contract and fencing\<close>

lemmas run_apply_defs = run_apply_def run_next_def refuse_def transition_def Let_def

lemma run_terminal_final: "run_is_terminal s \<Longrightarrow> \<not> run_can_transition s t"
  by (auto simp: run_is_terminal_def run_can_transition_def)

lemma run_apply_ok:
  assumes "run_apply r ev at = (r', Inr ())"
  shows "run_generation r' = Suc (run_generation r)"
    and "run_state r' = run_state r \<or> run_can_transition (run_state r) (run_state r')"
    and "run_kernel_lease_generation r \<le> run_kernel_lease_generation r'"
  using assms by (auto simp: run_apply_defs split: run_event.splits if_splits)

lemma run_apply_err: "run_apply r ev at = (r', Inl e) \<Longrightarrow> r' = r"
  by (auto simp: run_apply_defs split: run_event.splits if_splits)

interpretation run_agg: counted_aggregate
  run_can_transition run_is_terminal run_state run_apply run_generation
  by unfold_locales (auto simp: run_terminal_final run_apply_ok dest: run_apply_err run_apply_ok(2))

lemma run_replay_fence:
  assumes "replay run_apply r es = Inr r'"
  shows "run_kernel_lease_generation r \<le> run_kernel_lease_generation r'"
  using assms
proof (rule replay_invariant)
  show "run_kernel_lease_generation r \<le> run_kernel_lease_generation a'"
    if "run_kernel_lease_generation r \<le> run_kernel_lease_generation a"
      and "run_apply a ev t = (a', Inr ())" for a ev t a'
    using that run_apply_ok(3) le_trans by blast
qed simp

end
