(* ===== verification/Turn.thy ===== *)
theory Turn
  imports State_Machine
begin

text \<open>
  \<open>crates/domain/src/turn.rs\<close>: one model interaction cycle. The opaque JSON values (the model
  route, the route record) are strings: no operation reads them.
\<close>

datatype turn_state =
  TnPrepared | TnStreaming | TnExecuting | TnVerifying | TnCompleted | TnInterrupted | TnFailed

fun turn_state_debug :: "turn_state \<Rightarrow> string" where
  "turn_state_debug TnPrepared = ''Prepared''"
| "turn_state_debug TnStreaming = ''Streaming''"
| "turn_state_debug TnExecuting = ''Executing''"
| "turn_state_debug TnVerifying = ''Verifying''"
| "turn_state_debug TnCompleted = ''Completed''"
| "turn_state_debug TnInterrupted = ''Interrupted''"
| "turn_state_debug TnFailed = ''Failed''"

definition turn_can_transition :: "turn_state \<Rightarrow> turn_state \<Rightarrow> bool" where
  "turn_can_transition s to \<longleftrightarrow>
     (s, to) \<in> {(TnPrepared, TnStreaming), (TnStreaming, TnExecuting), (TnStreaming, TnVerifying),
                (TnExecuting, TnStreaming), (TnExecuting, TnVerifying), (TnVerifying, TnCompleted),
                (TnVerifying, TnStreaming)}
   \<or> s \<in> {TnPrepared, TnStreaming, TnExecuting, TnVerifying} \<and> to \<in> {TnInterrupted, TnFailed}"

definition turn_is_terminal :: "turn_state \<Rightarrow> bool" where
  "turn_is_terminal s \<longleftrightarrow> s \<in> {TnCompleted, TnInterrupted, TnFailed}"

record turn =
  turn_id :: uuid
  turn_run_id :: uuid
  turn_ordinal :: u32
  turn_state :: turn_state
  turn_model_route :: "string option"
  turn_tool_projection_hash :: "string option"
  turn_context_pack_id :: "string option"
  turn_generation :: nat
  turn_started_at :: timestamp
  turn_ended_at :: "timestamp option"

datatype turn_event =
    TurnPrepared uuid u32 u32
  | ContextPackCompiled string
  | ToolProjectionSelected string "string list" "string list" string string u64 u64 u64 "string list"
  | ModelInvocationStarted string
  | ModelUsageRecorded u64 u64 u64 string bool
  | ModelInvocationCompleted bool
  | TurnVerifying
  | TurnCompleted
  | TurnInterrupted
  | TurnFailed string

definition turn_event_type :: "turn_event \<Rightarrow> string" where
  "turn_event_type ev = (case ev of
     TurnPrepared _ _ _ \<Rightarrow> ''TurnPrepared''
   | ContextPackCompiled _ \<Rightarrow> ''ContextPackCompiled''
   | ToolProjectionSelected _ _ _ _ _ _ _ _ _ \<Rightarrow> ''ToolProjectionSelected''
   | ModelInvocationStarted _ \<Rightarrow> ''ModelInvocationStarted''
   | ModelUsageRecorded _ _ _ _ _ \<Rightarrow> ''ModelUsageRecorded''
   | ModelInvocationCompleted _ \<Rightarrow> ''ModelInvocationCompleted''
   | TurnVerifying \<Rightarrow> ''TurnVerifying''
   | TurnCompleted \<Rightarrow> ''TurnCompleted''
   | TurnInterrupted \<Rightarrow> ''TurnInterrupted''
   | TurnFailed _ \<Rightarrow> ''TurnFailed'')"

definition turn_create :: "uuid \<Rightarrow> turn_event \<Rightarrow> timestamp \<Rightarrow> invalid_transition + turn" where
  "turn_create tid ev at = (case ev of
     TurnPrepared run ordinal plan_version \<Rightarrow> Inr \<lparr>
       turn_id = tid, turn_run_id = run, turn_ordinal = ordinal, turn_state = TnPrepared,
       turn_model_route = None, turn_tool_projection_hash = None, turn_context_pack_id = None,
       turn_generation = 1, turn_started_at = at, turn_ended_at = None\<rparr>
   | _ \<Rightarrow> refuse ''Turn'' ''<none>'' (turn_event_type ev))"

definition turn_invalid :: "turn_state \<Rightarrow> string \<Rightarrow> invalid_transition + 'b" where
  "turn_invalid s to = refuse ''Turn'' (turn_state_debug s) to"

definition turn_next :: "turn \<Rightarrow> turn_event \<Rightarrow> turn \<times> (invalid_transition + turn_state option)" where
  "turn_next u ev = (case ev of
     TurnPrepared _ _ _ \<Rightarrow> (u, turn_invalid (turn_state u) ''TurnPrepared'')
   | ContextPackCompiled pack \<Rightarrow>
       if turn_state u \<noteq> TnPrepared then (u, turn_invalid (turn_state u) ''ContextPackCompiled'')
       else (u\<lparr>turn_context_pack_id := Some pack\<rparr>, Inr None)
   | ToolProjectionSelected hash _ _ _ _ _ _ _ _ \<Rightarrow>
       if turn_state u \<noteq> TnPrepared then (u, turn_invalid (turn_state u) ''ToolProjectionSelected'')
       else (u\<lparr>turn_tool_projection_hash := Some hash\<rparr>, Inr None)
   | ModelInvocationStarted route \<Rightarrow>
       (case transition ''Turn'' turn_can_transition turn_state_debug (turn_state u) TnStreaming of
          Inl e \<Rightarrow> (u, Inl e)
        | Inr _ \<Rightarrow> (u\<lparr>turn_model_route := Some route\<rparr>, Inr (Some TnStreaming)))
   | ModelUsageRecorded _ _ _ _ _ \<Rightarrow>
       if turn_state u \<notin> {TnStreaming, TnExecuting}
       then (u, turn_invalid (turn_state u) ''ModelUsageRecorded'')
       else (u, Inr None)
   | ModelInvocationCompleted requested_actions \<Rightarrow>
       (u, Inr (Some (if requested_actions then TnExecuting else TnVerifying)))
   | TurnVerifying \<Rightarrow> (u, Inr (Some TnVerifying))
   | TurnCompleted \<Rightarrow> (u, Inr (Some TnCompleted))
   | TurnInterrupted \<Rightarrow> (u, Inr (Some TnInterrupted))
   | TurnFailed _ \<Rightarrow> (u, Inr (Some TnFailed)))"

definition turn_apply :: "turn \<Rightarrow> turn_event \<Rightarrow> timestamp \<Rightarrow> turn \<times> (invalid_transition + unit)" where
  "turn_apply u ev at = (case turn_next u ev of
     (u', Inl e) \<Rightarrow> (u', Inl e)
   | (u', Inr None) \<Rightarrow> (u'\<lparr>turn_generation := turn_generation u' + 1\<rparr>, Inr ())
   | (u', Inr (Some to)) \<Rightarrow>
       (case transition ''Turn'' turn_can_transition turn_state_debug (turn_state u') to of
          Inl e \<Rightarrow> (u', Inl e)
        | Inr st \<Rightarrow>
            (let u1 = u'\<lparr>turn_state := st\<rparr>;
                 u2 = (if turn_is_terminal to then u1\<lparr>turn_ended_at := Some at\<rparr> else u1)
             in (u2\<lparr>turn_generation := turn_generation u2 + 1\<rparr>, Inr ()))))"

section \<open>Contract\<close>

lemmas turn_apply_defs = turn_apply_def turn_next_def turn_invalid_def refuse_def transition_def Let_def

lemma turn_terminal_final: "turn_is_terminal s \<Longrightarrow> \<not> turn_can_transition s t"
  by (auto simp: turn_is_terminal_def turn_can_transition_def)

lemma turn_next_keeps:
  assumes "turn_next u ev = (u1, r)"
  shows "turn_state u1 = turn_state u" "turn_generation u1 = turn_generation u"
    "turn_ended_at u1 = turn_ended_at u"
    "if r = Inr (Some TnStreaming) then turn_model_route u1 \<noteq> None
     else turn_model_route u1 = turn_model_route u"
  using assms
  by (cases ev; auto simp: turn_next_def turn_invalid_def refuse_def transition_def split: if_splits)+

lemma turn_apply_ok_cases:
  assumes "turn_apply u ev at = (u', Inr ())"
  obtains (stay) "turn_state u' = turn_state u" "turn_model_route u' = turn_model_route u"
      "turn_ended_at u' = turn_ended_at u" "turn_generation u' = Suc (turn_generation u)"
    | (move) "turn_can_transition (turn_state u) (turn_state u')"
      "if turn_state u' = TnStreaming then turn_model_route u' \<noteq> None
       else turn_model_route u' = turn_model_route u"
      "turn_ended_at u' = (if turn_is_terminal (turn_state u') then Some at else turn_ended_at u)"
      "turn_generation u' = Suc (turn_generation u)"
proof -
  obtain u1 r where n: "turn_next u ev = (u1, r)" by (cases "turn_next u ev")
  from assms n obtain nxt where r: "r = Inr nxt" by (cases r) (auto simp: turn_apply_def)
  note keep = turn_next_keeps [OF n]
  show thesis
  proof (cases nxt)
    case None
    then show ?thesis using assms n r keep by (intro stay) (auto simp: turn_apply_def)
  next
    case (Some to)
    then show ?thesis using assms n r keep
      by (intro move) (auto simp: turn_apply_def transition_def Let_def split: if_splits)
  qed
qed

lemma turn_apply_err: "turn_apply u ev at = (u', Inl e) \<Longrightarrow> u' = u"
  by (cases ev; auto simp: turn_apply_defs split: if_splits)

interpretation turn_agg: counted_aggregate
  turn_can_transition turn_is_terminal turn_state turn_apply turn_generation
  by unfold_locales
    (auto simp: turn_terminal_final dest: turn_apply_err elim: turn_apply_ok_cases)

text \<open>A turn that streams, executes, verifies or is complete has a model route.\<close>

definition turn_wf :: "turn \<Rightarrow> bool" where
  "turn_wf u \<longleftrightarrow>
     (turn_ended_at u \<noteq> None \<longleftrightarrow> turn_is_terminal (turn_state u))
   \<and> (turn_state u \<in> {TnStreaming, TnExecuting, TnVerifying, TnCompleted} \<longrightarrow> turn_model_route u \<noteq> None)
   \<and> (turn_state u = TnPrepared \<longrightarrow> turn_model_route u = None)"

lemma turn_create_wf: "turn_create tid ev at = Inr u \<Longrightarrow> turn_wf u"
  by (auto simp: turn_create_def turn_wf_def turn_is_terminal_def split: turn_event.splits)

lemma turn_apply_wf:
  assumes "turn_wf u" "turn_apply u ev at = (u', Inr ())"
  shows "turn_wf u'"
  using assms(2)
proof (cases rule: turn_apply_ok_cases)
  case stay
  then show ?thesis using assms(1) by (simp add: turn_wf_def)
next
  case move
  then show ?thesis
    using assms(1) unfolding turn_wf_def turn_is_terminal_def turn_can_transition_def
    by (cases "turn_state u'"; auto split: if_splits)
qed

lemma turn_replay_wf:
  assumes "replay turn_apply u es = Inr u'" "turn_wf u"
  shows "turn_wf u'"
  using assms turn_apply_wf by (rule replay_invariant)

end
