(* ===== verification/Run_Step.thy ===== *)
theory Run_Step
  imports State_Machine
begin

text \<open>
  \<open>crates/domain/src/step.rs\<close>: the typed atomic steps of a turn. \<open>str_debug\<close> is the \<open>Debug\<close>
  text of a string, which one error message prints; it escapes what Rust escapes in ASCII.
\<close>

datatype verification_stage = StageBaseline | StageTargeted | StageCompletion | StageRerun

datatype step_type =
    SContextCompile | SModelInvoke | SToolCall | SProcedureRun | SApprovalWait
  | SVerification verification_stage string
  | SCheckpoint | SHandoff | SUserQuestion | SPlan | SRepairAttempt | SSelfReview
  | SRequestProfile | SPlanCompile | SContinuationActivate | SAcceptanceGate | SReview
  | SRealizedRisk | SAccountingReconcile

definition is_effectful :: "step_type \<Rightarrow> bool" where
  "is_effectful t \<longleftrightarrow> t \<in> {SToolCall, SProcedureRun, SHandoff}"

datatype step_state = StPending | StRunning | StSucceeded | StFailed | StCancelled | StUnknownOutcome

fun step_state_debug :: "step_state \<Rightarrow> string" where
  "step_state_debug StPending = ''Pending''"
| "step_state_debug StRunning = ''Running''"
| "step_state_debug StSucceeded = ''Succeeded''"
| "step_state_debug StFailed = ''Failed''"
| "step_state_debug StCancelled = ''Cancelled''"
| "step_state_debug StUnknownOutcome = ''UnknownOutcome''"

fun stage_debug :: "verification_stage \<Rightarrow> string" where
  "stage_debug StageBaseline = ''Baseline''"
| "stage_debug StageTargeted = ''Targeted''"
| "stage_debug StageCompletion = ''Completion''"
| "stage_debug StageRerun = ''Rerun''"

definition escape_char :: "char \<Rightarrow> string" where
  "escape_char c = (let n = of_char c :: nat in
     if n = 34 \<or> n = 92 then [CHR 0x5C, c]
     else if n = 9 then [CHR 0x5C, CHR ''t'']
     else if n = 10 then [CHR 0x5C, CHR ''n'']
     else if n = 13 then [CHR 0x5C, CHR ''r'']
     else if n = 0 then [CHR 0x5C, CHR ''0'']
     else [c])"

definition str_debug :: "string \<Rightarrow> string" where
  "str_debug s = [CHR 0x22] @ concat (map escape_char s) @ [CHR 0x22]"

fun step_type_debug :: "step_type \<Rightarrow> string" where
  "step_type_debug SContextCompile = ''ContextCompile''"
| "step_type_debug SModelInvoke = ''ModelInvoke''"
| "step_type_debug SToolCall = ''ToolCall''"
| "step_type_debug SProcedureRun = ''ProcedureRun''"
| "step_type_debug SApprovalWait = ''ApprovalWait''"
| "step_type_debug (SVerification stage revision) =
     ''Verification { stage: '' @ stage_debug stage @ '', candidate_revision: '' @ str_debug revision @ '' }''"
| "step_type_debug SCheckpoint = ''Checkpoint''"
| "step_type_debug SHandoff = ''Handoff''"
| "step_type_debug SUserQuestion = ''UserQuestion''"
| "step_type_debug SPlan = ''Plan''"
| "step_type_debug SRepairAttempt = ''RepairAttempt''"
| "step_type_debug SSelfReview = ''SelfReview''"
| "step_type_debug SRequestProfile = ''RequestProfile''"
| "step_type_debug SPlanCompile = ''PlanCompile''"
| "step_type_debug SContinuationActivate = ''ContinuationActivate''"
| "step_type_debug SAcceptanceGate = ''AcceptanceGate''"
| "step_type_debug SReview = ''Review''"
| "step_type_debug SRealizedRisk = ''RealizedRisk''"
| "step_type_debug SAccountingReconcile = ''AccountingReconcile''"

definition step_can_transition :: "step_state \<Rightarrow> step_state \<Rightarrow> bool" where
  "step_can_transition s to \<longleftrightarrow>
     (s, to) = (StPending, StRunning)
   \<or> s = StRunning \<and> to \<in> {StSucceeded, StFailed, StUnknownOutcome}
   \<or> s \<in> {StPending, StRunning} \<and> to = StCancelled"

definition step_is_terminal :: "step_state \<Rightarrow> bool" where
  "step_is_terminal s \<longleftrightarrow> \<not> s \<in> {StPending, StRunning}"

record run_step =
  step_id :: uuid
  step_turn_id :: uuid
  step_type :: step_type
  step_ordinal :: u32
  step_state :: step_state
  step_generation :: nat
  step_input_ref :: "string option"
  step_output_ref :: "string option"
  step_failure_code :: "string option"
  step_started_at :: "timestamp option"
  step_ended_at :: "timestamp option"

datatype step_event =
    StepScheduled uuid step_type u32 "string option"
  | StepStarted
  | StepSucceeded "string option"
  | StepFailed string "string option"
  | StepCancelled
  | StepUnknownOutcome string

definition step_event_type :: "step_event \<Rightarrow> string" where
  "step_event_type ev = (case ev of
     StepScheduled _ _ _ _ \<Rightarrow> ''StepScheduled''
   | StepStarted \<Rightarrow> ''StepStarted''
   | StepSucceeded _ \<Rightarrow> ''StepSucceeded''
   | StepFailed _ _ \<Rightarrow> ''StepFailed''
   | StepCancelled \<Rightarrow> ''StepCancelled''
   | StepUnknownOutcome _ \<Rightarrow> ''StepUnknownOutcome'')"

definition step_create :: "uuid \<Rightarrow> step_event \<Rightarrow> timestamp \<Rightarrow> invalid_transition + run_step" where
  "step_create sid ev at = (case ev of
     StepScheduled tid ty ordinal input \<Rightarrow> Inr \<lparr>
       step_id = sid, step_turn_id = tid, step_type = ty, step_ordinal = ordinal,
       step_state = StPending, step_generation = 1, step_input_ref = input,
       step_output_ref = None, step_failure_code = None, step_started_at = None,
       step_ended_at = None\<rparr>
   | _ \<Rightarrow> refuse ''RunStep'' ''<none>'' (step_event_type ev))"

abbreviation step_transition :: "step_state \<Rightarrow> step_state \<Rightarrow> invalid_transition + step_state" where
  "step_transition \<equiv> transition ''RunStep'' step_can_transition step_state_debug"

definition step_next :: "run_step \<Rightarrow> step_event \<Rightarrow> run_step \<times> (invalid_transition + step_state)" where
  "step_next p ev = (case ev of
     StepScheduled _ _ _ _ \<Rightarrow>
       (p, refuse ''RunStep'' (step_state_debug (step_state p)) ''StepScheduled'')
   | StepStarted \<Rightarrow> (p, Inr StRunning)
   | StepSucceeded output \<Rightarrow>
       (case step_transition (step_state p) StSucceeded of
          Inl e \<Rightarrow> (p, Inl e)
        | Inr _ \<Rightarrow> (p\<lparr>step_output_ref := output\<rparr>, Inr StSucceeded))
   | StepFailed code output \<Rightarrow>
       (case step_transition (step_state p) StFailed of
          Inl e \<Rightarrow> (p, Inl e)
        | Inr _ \<Rightarrow> (p\<lparr>step_failure_code := Some code, step_output_ref := output\<rparr>, Inr StFailed))
   | StepCancelled \<Rightarrow> (p, Inr StCancelled)
   | StepUnknownOutcome reason \<Rightarrow>
       if \<not> is_effectful (step_type p)
       then (p, refuse ''RunStep''
              (step_state_debug (step_state p) @ '' ('' @ step_type_debug (step_type p) @ '')'')
              ''UnknownOutcome (only effectful steps)'')
       else (case step_transition (step_state p) StUnknownOutcome of
               Inl e \<Rightarrow> (p, Inl e)
             | Inr _ \<Rightarrow> (p\<lparr>step_failure_code := Some (''UNKNOWN_OUTCOME:'' @ reason)\<rparr>, Inr StUnknownOutcome)))"

definition step_apply :: "run_step \<Rightarrow> step_event \<Rightarrow> timestamp \<Rightarrow> run_step \<times> (invalid_transition + unit)" where
  "step_apply p ev at = (case step_next p ev of
     (p', Inl e) \<Rightarrow> (p', Inl e)
   | (p', Inr to) \<Rightarrow>
       (case step_transition (step_state p') to of
          Inl e \<Rightarrow> (p', Inl e)
        | Inr st \<Rightarrow>
            (let p1 = p'\<lparr>step_state := st\<rparr>;
                 p2 = (if to = StRunning then p1\<lparr>step_started_at := Some at\<rparr> else p1);
                 p3 = (if step_is_terminal to then p2\<lparr>step_ended_at := Some at\<rparr> else p2)
             in (p3\<lparr>step_generation := step_generation p3 + 1\<rparr>, Inr ()))))"

section \<open>Contract\<close>

lemmas step_apply_defs = step_apply_def step_next_def refuse_def transition_def Let_def

lemma step_terminal_final: "step_is_terminal s \<Longrightarrow> \<not> step_can_transition s t"
  by (auto simp: step_is_terminal_def step_can_transition_def)

lemma step_apply_ok:
  assumes "step_apply p ev at = (p', Inr ())"
  shows "step_generation p' = Suc (step_generation p)"
    and "step_can_transition (step_state p) (step_state p')"
    and "step_type p' = step_type p"
    and "step_state p' = StUnknownOutcome \<longrightarrow> is_effectful (step_type p')"
  using assms by (auto simp: step_apply_defs split: step_event.splits if_splits)

lemma step_apply_err: "step_apply p ev at = (p', Inl e) \<Longrightarrow> p' = p"
  by (auto simp: step_apply_defs split: step_event.splits if_splits)

interpretation step_agg: counted_aggregate
  step_can_transition step_is_terminal step_state step_apply step_generation
  by unfold_locales (auto simp: step_terminal_final step_apply_ok dest: step_apply_err step_apply_ok(2))

text \<open>Only an effectful step ends with an unknown outcome.\<close>

lemma step_replay_unknown_outcome:
  assumes "replay step_apply p es = Inr p'"
    and "step_state p = StUnknownOutcome \<longrightarrow> is_effectful (step_type p)"
  shows "step_state p' = StUnknownOutcome \<longrightarrow> is_effectful (step_type p')"
  using assms by (rule replay_invariant) (simp add: step_apply_ok(4))

text \<open>A step takes at most two events: every accepted one moves it forward.\<close>

fun step_rank :: "step_state \<Rightarrow> nat" where
  "step_rank StPending = 2"
| "step_rank StRunning = 1"
| "step_rank _ = 0"

lemma step_rank_decreases: "step_can_transition s t \<Longrightarrow> step_rank t < step_rank s"
  by (cases s; cases t) (auto simp: step_can_transition_def)

lemma step_replay_rank:
  "replay step_apply p es = Inr p' \<Longrightarrow> length es + step_rank (step_state p') \<le> step_rank (step_state p)"
proof (induction es arbitrary: p)
  case (Cons x es)
  obtain ev t where x: "x = (ev, t)" by (cases x)
  obtain q where q: "step_apply p ev t = (q, Inr ())" and r: "replay step_apply q es = Inr p'"
    using Cons.prems x by (auto split: prod.splits sum.splits)
  show ?case
    using Cons.IH [OF r] step_rank_decreases [OF step_apply_ok(2) [OF q]] by simp
qed simp

end
