(* ===== verification/Tool_Call.thy ===== *)
theory Tool_Call
  imports State_Machine
begin

text \<open>
  \<open>crates/domain/src/toolcall.rs\<close> and the plain data of \<open>crates/domain/src/epoch.rs\<close>: effect
  classes in their declared order, reversibility, the tool call aggregate and the receipt of
  a protected effect.
\<close>

section \<open>Effect classes\<close>

datatype effect_class =
  ReadOnly | ReversibleWrite | ProtectedWrite | ExternalSideEffect | SecretAccess | Destructive

fun effect_rank :: "effect_class \<Rightarrow> nat" where
  "effect_rank ReadOnly = 0"
| "effect_rank ReversibleWrite = 1"
| "effect_rank ProtectedWrite = 2"
| "effect_rank ExternalSideEffect = 3"
| "effect_rank SecretAccess = 4"
| "effect_rank Destructive = 5"

lemma effect_rank_inject [simp]: "effect_rank a = effect_rank b \<longleftrightarrow> a = b"
  by (cases a; cases b) simp_all

instantiation effect_class :: linorder
begin

definition less_eq_effect_class :: "effect_class \<Rightarrow> effect_class \<Rightarrow> bool" where
  "less_eq_effect_class a b \<longleftrightarrow> effect_rank a \<le> effect_rank b"

definition less_effect_class :: "effect_class \<Rightarrow> effect_class \<Rightarrow> bool" where
  "less_effect_class a b \<longleftrightarrow> effect_rank a < effect_rank b"

instance
  by standard (auto simp: less_eq_effect_class_def less_effect_class_def)

end

datatype reversibility = Reversible | PartiallyReversible | Compensatable | Irreversible

fun reversibility_of :: "effect_class \<Rightarrow> bool \<Rightarrow> reversibility" where
  "reversibility_of ReadOnly _ = Reversible"
| "reversibility_of ReversibleWrite _ = Reversible"
| "reversibility_of ProtectedWrite _ = PartiallyReversible"
| "reversibility_of ExternalSideEffect has_compensation =
     (if has_compensation then Compensatable else Irreversible)"
| "reversibility_of SecretAccess _ = Irreversible"
| "reversibility_of Destructive _ = Irreversible"

fun reversibility_label :: "reversibility \<Rightarrow> string" where
  "reversibility_label Reversible = ''REVERSIBLE''"
| "reversibility_label PartiallyReversible = ''PARTIALLY_REVERSIBLE''"
| "reversibility_label Compensatable = ''COMPENSATABLE''"
| "reversibility_label Irreversible = ''IRREVERSIBLE''"

section \<open>The aggregate\<close>

datatype tool_call_state =
    TcProposed | TcValidated | TcPolicyChecked | TcApprovalPending | TcDispatched | TcStreaming
  | TcSucceeded | TcFailed | TcCancelled | TcUnknownOutcome

fun tool_call_state_debug :: "tool_call_state \<Rightarrow> string" where
  "tool_call_state_debug TcProposed = ''Proposed''"
| "tool_call_state_debug TcValidated = ''Validated''"
| "tool_call_state_debug TcPolicyChecked = ''PolicyChecked''"
| "tool_call_state_debug TcApprovalPending = ''ApprovalPending''"
| "tool_call_state_debug TcDispatched = ''Dispatched''"
| "tool_call_state_debug TcStreaming = ''Streaming''"
| "tool_call_state_debug TcSucceeded = ''Succeeded''"
| "tool_call_state_debug TcFailed = ''Failed''"
| "tool_call_state_debug TcCancelled = ''Cancelled''"
| "tool_call_state_debug TcUnknownOutcome = ''UnknownOutcome''"

definition tool_call_can_transition :: "tool_call_state \<Rightarrow> tool_call_state \<Rightarrow> bool" where
  "tool_call_can_transition s to \<longleftrightarrow>
     (s, to) \<in> {(TcProposed, TcValidated), (TcValidated, TcPolicyChecked),
                (TcValidated, TcApprovalPending), (TcApprovalPending, TcPolicyChecked),
                (TcPolicyChecked, TcDispatched), (TcDispatched, TcStreaming)}
   \<or> s \<in> {TcDispatched, TcStreaming} \<and> to \<in> {TcSucceeded, TcFailed, TcUnknownOutcome}
   \<or> s \<in> {TcProposed, TcValidated, TcPolicyChecked, TcApprovalPending, TcDispatched, TcStreaming}
       \<and> to = TcCancelled
   \<or> s \<in> {TcProposed, TcValidated, TcApprovalPending} \<and> to = TcFailed"

definition tool_call_is_terminal :: "tool_call_state \<Rightarrow> bool" where
  "tool_call_is_terminal s \<longleftrightarrow> s \<in> {TcSucceeded, TcFailed, TcCancelled, TcUnknownOutcome}"

record authorization_stamp =
  stamp_epoch :: nat
  stamp_snapshot_hash :: string

record effect_receipt =
  er_effect_id :: uuid
  er_previous_receipt_hash :: "string option"
  er_task_id :: uuid
  er_tool_call_id :: uuid
  er_capability_lease_id :: "uuid option"
  er_intent_hash :: string
  er_policy_decision :: string
  er_approval_id :: "uuid option"
  er_execution_target :: string
  er_evidence_ref :: "string option"
  er_status :: string
  er_occurred_at :: timestamp
  er_reversibility :: "reversibility option"
  er_compensates :: "uuid option"
  er_authorization :: "authorization_stamp option"
  er_receipt_hash :: string

record tool_call =
  tc_tool_call_id :: uuid
  tc_task_id :: uuid
  tc_step_id :: "uuid option"
  tc_tool_name :: string
  tc_tool_version :: string
  tc_effect_class :: effect_class
  tc_capability_lease_id :: "uuid option"
  tc_arguments_hash :: string
  tc_state :: tool_call_state
  tc_generation :: nat
  tc_dispatched_at :: "timestamp option"
  tc_completed_at :: "timestamp option"
  tc_result_ref :: "string option"
  tc_unknown_outcome_reason :: "string option"
  tc_policy_decision :: "string option"
  tc_approval_id :: "uuid option"
  tc_run_id :: "uuid option"
  tc_turn_id :: "uuid option"
  tc_call_id :: "string option"
  tc_arguments_ref :: "string option"

datatype tool_call_event =
    ToolCallProposed uuid "uuid option" string string effect_class "uuid option" string
      "uuid option" "uuid option" "string option" "string option"
  | ToolCallValidated
  | ToolCallPolicyDecision bool string bool "authorization_stamp option"
  | ToolCallApprovalRequested uuid string
  | ToolCallDispatched
  | EffectReceiptAppended effect_receipt
  | ToolCallSucceeded string
  | ToolCallFailed string "string option"
  | ToolCallCancelled
  | ToolCallUnknownOutcome string

definition tool_call_event_type :: "tool_call_event \<Rightarrow> string" where
  "tool_call_event_type ev = (case ev of
     ToolCallProposed _ _ _ _ _ _ _ _ _ _ _ \<Rightarrow> ''ToolCallProposed''
   | ToolCallValidated \<Rightarrow> ''ToolCallValidated''
   | ToolCallPolicyDecision _ _ _ _ \<Rightarrow> ''ToolCallPolicyDecision''
   | ToolCallApprovalRequested _ _ \<Rightarrow> ''ToolCallApprovalRequested''
   | ToolCallDispatched \<Rightarrow> ''ToolCallDispatched''
   | EffectReceiptAppended _ \<Rightarrow> ''EffectReceiptAppended''
   | ToolCallSucceeded _ \<Rightarrow> ''ToolCallSucceeded''
   | ToolCallFailed _ _ \<Rightarrow> ''ToolCallFailed''
   | ToolCallCancelled \<Rightarrow> ''ToolCallCancelled''
   | ToolCallUnknownOutcome _ \<Rightarrow> ''ToolCallUnknownOutcome'')"

definition tool_call_create :: "uuid \<Rightarrow> tool_call_event \<Rightarrow> timestamp \<Rightarrow> invalid_transition + tool_call" where
  "tool_call_create cid ev at = (case ev of
     ToolCallProposed task step tool version ec lease args run turn call args_ref \<Rightarrow> Inr \<lparr>
       tc_tool_call_id = cid, tc_task_id = task, tc_step_id = step, tc_tool_name = tool,
       tc_tool_version = version, tc_effect_class = ec, tc_capability_lease_id = lease,
       tc_arguments_hash = args, tc_state = TcProposed, tc_generation = 1,
       tc_dispatched_at = None, tc_completed_at = None, tc_result_ref = None,
       tc_unknown_outcome_reason = None, tc_policy_decision = None, tc_approval_id = None,
       tc_run_id = run, tc_turn_id = turn, tc_call_id = call, tc_arguments_ref = args_ref\<rparr>
   | _ \<Rightarrow> refuse ''ToolCall'' ''<none>'' (tool_call_event_type ev))"

definition tool_call_invalid :: "tool_call_state \<Rightarrow> string \<Rightarrow> invalid_transition + 'b" where
  "tool_call_invalid s to = refuse ''ToolCall'' (tool_call_state_debug s) to"

abbreviation tool_call_transition :: "tool_call_state \<Rightarrow> tool_call_state \<Rightarrow> invalid_transition + tool_call_state" where
  "tool_call_transition \<equiv> transition ''ToolCall'' tool_call_can_transition tool_call_state_debug"

text \<open>The \<open>match\<close> that computes \<open>to\<close>; \<open>None\<close> is its early \<open>return Ok(())\<close>.\<close>

definition tool_call_next :: "tool_call \<Rightarrow> tool_call_event \<Rightarrow> tool_call \<times> (invalid_transition + tool_call_state option)" where
  "tool_call_next c ev = (case ev of
     ToolCallProposed _ _ _ _ _ _ _ _ _ _ _ \<Rightarrow> (c, tool_call_invalid (tc_state c) ''ToolCallProposed'')
   | ToolCallValidated \<Rightarrow> (c, Inr (Some TcValidated))
   | ToolCallPolicyDecision allowed decision approval_required _ \<Rightarrow>
       (c\<lparr>tc_policy_decision := Some decision\<rparr>,
        Inr (Some (if allowed then TcPolicyChecked
                   else if approval_required then TcApprovalPending else TcFailed)))
   | ToolCallApprovalRequested approval decision \<Rightarrow>
       (c\<lparr>tc_policy_decision := Some decision, tc_approval_id := Some approval\<rparr>,
        Inr (Some TcApprovalPending))
   | ToolCallDispatched \<Rightarrow> (c, Inr (Some TcDispatched))
   | EffectReceiptAppended receipt \<Rightarrow>
       if tc_state c \<notin> {TcDispatched, TcStreaming}
       then (c, tool_call_invalid (tc_state c) ''EffectReceiptAppended'')
       else (c, Inr None)
   | ToolCallSucceeded result \<Rightarrow>
       (case tool_call_transition (tc_state c) TcSucceeded of
          Inl e \<Rightarrow> (c, Inl e)
        | Inr _ \<Rightarrow> (c\<lparr>tc_result_ref := Some result\<rparr>, Inr (Some TcSucceeded)))
   | ToolCallFailed code result \<Rightarrow>
       (case tool_call_transition (tc_state c) TcFailed of
          Inl e \<Rightarrow> (c, Inl e)
        | Inr _ \<Rightarrow> (c\<lparr>tc_result_ref := result\<rparr>, Inr (Some TcFailed)))
   | ToolCallCancelled \<Rightarrow> (c, Inr (Some TcCancelled))
   | ToolCallUnknownOutcome reason \<Rightarrow>
       if tc_effect_class c = ReadOnly
       then (c, refuse ''ToolCall'' (tool_call_state_debug (tc_state c) @ '' (READ_ONLY)'')
                  ''UnknownOutcome (only effectful tools)'')
       else (case tool_call_transition (tc_state c) TcUnknownOutcome of
               Inl e \<Rightarrow> (c, Inl e)
             | Inr _ \<Rightarrow> (c\<lparr>tc_unknown_outcome_reason := Some reason\<rparr>, Inr (Some TcUnknownOutcome))))"

definition tool_call_apply :: "tool_call \<Rightarrow> tool_call_event \<Rightarrow> timestamp \<Rightarrow> tool_call \<times> (invalid_transition + unit)" where
  "tool_call_apply c ev at = (case tool_call_next c ev of
     (c', Inl e) \<Rightarrow> (c', Inl e)
   | (c', Inr None) \<Rightarrow> (c'\<lparr>tc_generation := tc_generation c' + 1\<rparr>, Inr ())
   | (c', Inr (Some to)) \<Rightarrow>
       (case tool_call_transition (tc_state c') to of
          Inl e \<Rightarrow> (c', Inl e)
        | Inr st \<Rightarrow>
            (let c1 = c'\<lparr>tc_state := st\<rparr>;
                 c2 = (if to = TcDispatched then c1\<lparr>tc_dispatched_at := Some at\<rparr> else c1);
                 c3 = (if tool_call_is_terminal to then c2\<lparr>tc_completed_at := Some at\<rparr> else c2)
             in (c3\<lparr>tc_generation := tc_generation c3 + 1\<rparr>, Inr ()))))"

section \<open>Contract\<close>

lemma tool_call_terminal_final: "tool_call_is_terminal s \<Longrightarrow> \<not> tool_call_can_transition s t"
  by (auto simp: tool_call_is_terminal_def tool_call_can_transition_def)

text \<open>What the \<open>match\<close> may write, and which target it names for which event.\<close>

lemma tool_call_next_keeps:
  assumes "tool_call_next c ev = (c1, r)"
  shows "tc_state c1 = tc_state c" "tc_generation c1 = tc_generation c"
    "tc_effect_class c1 = tc_effect_class c" "tc_dispatched_at c1 = tc_dispatched_at c"
    "tc_completed_at c1 = tc_completed_at c"
  using assms
  by (cases ev; auto simp: tool_call_next_def tool_call_invalid_def refuse_def transition_def
      split: if_splits)+

lemma tool_call_next_target:
  assumes "tool_call_next c ev = (c1, Inr (Some to))"
  shows "to = TcPolicyChecked \<Longrightarrow> \<exists>d q z. ev = ToolCallPolicyDecision True d q z"
    "to = TcUnknownOutcome \<Longrightarrow> tc_effect_class c \<noteq> ReadOnly"
    "to \<noteq> TcStreaming"
  using assms
  by (cases ev; auto simp: tool_call_next_def tool_call_invalid_def refuse_def transition_def
      split: if_splits)+

lemma tool_call_apply_ok_cases:
  assumes "tool_call_apply c ev at = (c', Inr ())"
  obtains (stay) "tc_state c' = tc_state c" "tc_generation c' = Suc (tc_generation c)"
      "tc_effect_class c' = tc_effect_class c" "tc_dispatched_at c' = tc_dispatched_at c"
      "tc_completed_at c' = tc_completed_at c"
    | (move) c1 where "tool_call_next c ev = (c1, Inr (Some (tc_state c')))"
      "tool_call_can_transition (tc_state c) (tc_state c')"
      "tc_generation c' = Suc (tc_generation c)" "tc_effect_class c' = tc_effect_class c"
      "tc_dispatched_at c' = (if tc_state c' = TcDispatched then Some at else tc_dispatched_at c)"
      "tc_completed_at c' = (if tool_call_is_terminal (tc_state c') then Some at else tc_completed_at c)"
proof -
  obtain c1 r where n: "tool_call_next c ev = (c1, r)" by (cases "tool_call_next c ev")
  from assms n obtain nxt where r: "r = Inr nxt" by (cases r) (auto simp: tool_call_apply_def)
  note keep = tool_call_next_keeps [OF n]
  show thesis
  proof (cases nxt)
    case None
    then show ?thesis using assms n r keep by (intro stay) (auto simp: tool_call_apply_def)
  next
    case (Some to)
    then show ?thesis using assms n r keep
      by (intro move [of c1]) (auto simp: tool_call_apply_def transition_def Let_def split: if_splits)
  qed
qed

lemma tool_call_apply_err_state:
  assumes "tool_call_apply c ev at = (c', Inl e)"
  shows "tc_state c' = tc_state c" "tc_generation c' = tc_generation c"
proof -
  obtain c1 r where n: "tool_call_next c ev = (c1, r)" by (cases "tool_call_next c ev")
  have "c' = c1" using assms n
    by (auto simp: tool_call_apply_def Let_def split: sum.splits option.splits)
  then show "tc_state c' = tc_state c" "tc_generation c' = tc_generation c"
    using tool_call_next_keeps [OF n] by simp_all
qed

interpretation tool_call_agg: counted_aggregate
  tool_call_can_transition tool_call_is_terminal tc_state tool_call_apply tc_generation
  by unfold_locales
    (auto simp: tool_call_terminal_final tool_call_apply_err_state elim: tool_call_apply_ok_cases)

text \<open>
  The invariant of a call, against the events it has seen: it has passed a policy decision
  that allowed it once it is past \<open>PolicyChecked\<close>, and only an effectful call is in doubt.
\<close>

definition allowed_in :: "tool_call_event list \<Rightarrow> bool" where
  "allowed_in evs \<longleftrightarrow> (\<exists>d q z. ToolCallPolicyDecision True d q z \<in> set evs)"

definition tool_call_wf :: "tool_call_event list \<Rightarrow> tool_call \<Rightarrow> bool" where
  "tool_call_wf evs c \<longleftrightarrow>
     ((tc_state c \<in> {TcPolicyChecked, TcDispatched, TcSucceeded, TcUnknownOutcome}
        \<or> tc_dispatched_at c \<noteq> None)
        \<longrightarrow> allowed_in evs)
   \<and> (tc_state c \<in> {TcSucceeded, TcUnknownOutcome} \<longrightarrow> tc_dispatched_at c \<noteq> None)
   \<and> (tc_state c = TcDispatched \<longrightarrow> tc_dispatched_at c \<noteq> None)
   \<and> (tc_state c = TcUnknownOutcome \<longrightarrow> tc_effect_class c \<noteq> ReadOnly)
   \<and> tc_state c \<noteq> TcStreaming
   \<and> (tc_completed_at c \<noteq> None \<longleftrightarrow> tool_call_is_terminal (tc_state c))"

lemma tool_call_create_wf: "tool_call_create cid ev at = Inr c \<Longrightarrow> tool_call_wf [] c"
  by (auto simp: tool_call_create_def tool_call_wf_def tool_call_is_terminal_def
      split: tool_call_event.splits)

lemma tool_call_predecessors:
  "tool_call_can_transition s TcDispatched \<Longrightarrow> s = TcPolicyChecked"
  "tool_call_can_transition s TcSucceeded \<Longrightarrow> s \<in> {TcDispatched, TcStreaming}"
  "tool_call_can_transition s TcUnknownOutcome \<Longrightarrow> s \<in> {TcDispatched, TcStreaming}"
  by (auto simp: tool_call_can_transition_def)

lemma allowed_in_snoc: "allowed_in evs \<Longrightarrow> allowed_in (evs @ [ev])"
  by (auto simp: allowed_in_def)

lemma tool_call_apply_wf:
  assumes wf: "tool_call_wf evs c" and ok: "tool_call_apply c ev at = (c', Inr ())"
  shows "tool_call_wf (evs @ [ev]) c'"
  using ok
proof (cases rule: tool_call_apply_ok_cases)
  case stay
  then show ?thesis using wf allowed_in_snoc by (simp add: tool_call_wf_def)
next
  case (move c1)
  note target = tool_call_next_target [OF move(1)]
  note pre = tool_call_predecessors [of "tc_state c"]
  have live: "\<not> tool_call_is_terminal (tc_state c)"
    using move(2) tool_call_terminal_final by blast
  have allowed: "allowed_in (evs @ [ev])" if "tc_state c' = TcPolicyChecked"
    using target(1) [OF that] by (auto simp: allowed_in_def)
  show ?thesis
    using wf target(2,3) allowed pre allowed_in_snoc [of evs ev] move(2,4,5,6) live
    by (cases "tc_state c'") (auto simp: tool_call_wf_def tool_call_is_terminal_def)
qed

lemma tool_call_replay_wf:
  assumes "replay tool_call_apply c es = Inr c'" "tool_call_wf evs c"
  shows "tool_call_wf (evs @ map fst es) c'"
  using assms
proof (induction es arbitrary: c evs)
  case (Cons x es)
  obtain ev t where x: "x = (ev, t)" by (cases x)
  obtain q where q: "tool_call_apply c ev t = (q, Inr ())" and r: "replay tool_call_apply q es = Inr c'"
    using Cons.prems x by (auto split: prod.splits sum.splits)
  show ?case using Cons.IH [OF r tool_call_apply_wf [OF Cons.prems(2) q]] x by simp
qed simp

end
