(* ===== verification/Approval.thy ===== *)
theory Approval
  imports Tool_Call
begin

text \<open>
  \<open>crates/domain/src/approval.rs\<close> and \<open>crates/domain/src/lease.rs\<close>: the approval of one
  intent and the capability lease. \<open>approval_apply\<close> writes the resolver before it checks the
  transition, as the source does. The lease does not count its events: its generation is the
  one it was granted with, so it is an \<open>event_sourced\<close> aggregate only.
\<close>

section \<open>Approval\<close>

datatype approval_state = ApRequested | ApApproved | ApDenied | ApExpired

fun approval_state_debug :: "approval_state \<Rightarrow> string" where
  "approval_state_debug ApRequested = ''Requested''"
| "approval_state_debug ApApproved = ''Approved''"
| "approval_state_debug ApDenied = ''Denied''"
| "approval_state_debug ApExpired = ''Expired''"

definition approval_can_transition :: "approval_state \<Rightarrow> approval_state \<Rightarrow> bool" where
  "approval_can_transition s to \<longleftrightarrow> s = ApRequested \<and> to \<in> {ApApproved, ApDenied, ApExpired}"

definition approval_is_terminal :: "approval_state \<Rightarrow> bool" where
  "approval_is_terminal s \<longleftrightarrow> \<not> s = ApRequested"

record approval =
  ap_approval_id :: uuid
  ap_task_id :: uuid
  ap_tool_call_id :: uuid
  ap_tool_name :: string
  ap_effect_class :: effect_class
  ap_intent_hash :: string
  ap_scope_json :: string
  ap_state :: approval_state
  ap_generation :: nat
  ap_requested_at :: timestamp
  ap_resolved_at :: "timestamp option"
  ap_resolver :: "string option"
  ap_expires_at :: "timestamp option"
  ap_consumed_at :: "timestamp option"

datatype approval_event =
    ApprovalRequested uuid uuid string effect_class string string "timestamp option"
  | ApprovalResolved bool string string
  | ApprovalExpired

definition approval_event_type :: "approval_event \<Rightarrow> string" where
  "approval_event_type ev = (case ev of
     ApprovalRequested _ _ _ _ _ _ _ \<Rightarrow> ''ApprovalRequested''
   | ApprovalResolved _ _ _ \<Rightarrow> ''ApprovalResolved''
   | ApprovalExpired \<Rightarrow> ''ApprovalExpired'')"

definition approval_create :: "uuid \<Rightarrow> approval_event \<Rightarrow> timestamp \<Rightarrow> invalid_transition + approval" where
  "approval_create aid ev at = (case ev of
     ApprovalRequested task call tool ec intent scope expires \<Rightarrow> Inr \<lparr>
       ap_approval_id = aid, ap_task_id = task, ap_tool_call_id = call, ap_tool_name = tool,
       ap_effect_class = ec, ap_intent_hash = intent, ap_scope_json = scope,
       ap_state = ApRequested, ap_generation = 1, ap_requested_at = at, ap_resolved_at = None,
       ap_resolver = None, ap_expires_at = expires, ap_consumed_at = None\<rparr>
   | _ \<Rightarrow> refuse ''Approval'' ''<none>'' (approval_event_type ev))"

definition approval_apply :: "approval \<Rightarrow> approval_event \<Rightarrow> timestamp \<Rightarrow> approval \<times> (invalid_transition + unit)" where
  "approval_apply a ev at =
     (let (a1, nxt) = (case ev of
         ApprovalRequested _ _ _ _ _ _ _ \<Rightarrow>
           (a, refuse ''Approval'' (approval_state_debug (ap_state a)) ''ApprovalRequested'')
       | ApprovalResolved approved resolver _ \<Rightarrow>
           (a\<lparr>ap_resolver := Some resolver\<rparr>, Inr (if approved then ApApproved else ApDenied))
       | ApprovalExpired \<Rightarrow> (a, Inr ApExpired))
      in case nxt of
           Inl e \<Rightarrow> (a1, Inl e)
         | Inr to \<Rightarrow>
             (case transition ''Approval'' approval_can_transition approval_state_debug (ap_state a1) to of
                Inl e \<Rightarrow> (a1, Inl e)
              | Inr st \<Rightarrow>
                  (a1\<lparr>ap_state := st, ap_resolved_at := Some at, ap_generation := ap_generation a1 + 1\<rparr>,
                   Inr ())))"

definition is_consumed :: "approval \<Rightarrow> bool" where
  "is_consumed a \<longleftrightarrow> ap_state a = ApApproved \<and> ap_consumed_at a \<noteq> None"

definition authorizes :: "approval \<Rightarrow> string \<Rightarrow> timestamp \<Rightarrow> bool" where
  "authorizes a intent now \<longleftrightarrow>
     ap_state a = ApApproved \<and> ap_consumed_at a = None \<and> ap_intent_hash a = intent
   \<and> is_none_or (ap_expires_at a) (\<lambda>e. now < e)"

section \<open>Capability lease\<close>

datatype lease_state = LsActive | LsRevoked

fun lease_state_debug :: "lease_state \<Rightarrow> string" where
  "lease_state_debug LsActive = ''Active''"
| "lease_state_debug LsRevoked = ''Revoked''"

definition lease_can_transition :: "lease_state \<Rightarrow> lease_state \<Rightarrow> bool" where
  "lease_can_transition s to \<longleftrightarrow> (s, to) = (LsActive, LsRevoked)"

definition lease_is_terminal :: "lease_state \<Rightarrow> bool" where
  "lease_is_terminal s \<longleftrightarrow> s = LsRevoked"

record capability_lease =
  cl_lease_id :: uuid
  cl_tenant_id :: uuid
  cl_task_id :: uuid
  cl_agent_id :: "string option"
  cl_resources :: "string list"
  cl_operations :: "string list"
  cl_effect_ceiling :: effect_class
  cl_execution_profile :: string
  cl_generation :: nat
  cl_state :: lease_state
  cl_expires_at :: "timestamp option"
  cl_revoked_at :: "timestamp option"
  cl_revoke_reason :: "string option"

datatype lease_event =
    CapabilityLeaseGranted uuid uuid "string option" "string list" "string list" effect_class
      string nat "timestamp option"
  | CapabilityLeaseRevoked string

definition lease_event_type :: "lease_event \<Rightarrow> string" where
  "lease_event_type ev = (case ev of
     CapabilityLeaseGranted _ _ _ _ _ _ _ _ _ \<Rightarrow> ''CapabilityLeaseGranted''
   | CapabilityLeaseRevoked _ \<Rightarrow> ''CapabilityLeaseRevoked'')"

definition lease_create :: "uuid \<Rightarrow> lease_event \<Rightarrow> timestamp \<Rightarrow> invalid_transition + capability_lease" where
  "lease_create lid ev at = (case ev of
     CapabilityLeaseGranted tenant task agent resources operations ceiling profile g expires \<Rightarrow>
       Inr \<lparr>cl_lease_id = lid, cl_tenant_id = tenant, cl_task_id = task, cl_agent_id = agent,
         cl_resources = resources, cl_operations = operations, cl_effect_ceiling = ceiling,
         cl_execution_profile = profile, cl_generation = g, cl_state = LsActive,
         cl_expires_at = expires, cl_revoked_at = None, cl_revoke_reason = None\<rparr>
   | _ \<Rightarrow> refuse ''CapabilityLease'' ''<none>'' (lease_event_type ev))"

definition lease_apply :: "capability_lease \<Rightarrow> lease_event \<Rightarrow> timestamp \<Rightarrow> capability_lease \<times> (invalid_transition + unit)" where
  "lease_apply l ev at = (case ev of
     CapabilityLeaseGranted _ _ _ _ _ _ _ _ _ \<Rightarrow>
       (l, refuse ''CapabilityLease'' (lease_state_debug (cl_state l)) ''CapabilityLeaseGranted'')
   | CapabilityLeaseRevoked reason \<Rightarrow>
       (case transition ''CapabilityLease'' lease_can_transition lease_state_debug (cl_state l) LsRevoked of
          Inl e \<Rightarrow> (l, Inl e)
        | Inr st \<Rightarrow> (l\<lparr>cl_state := st, cl_revoked_at := Some at, cl_revoke_reason := Some reason\<rparr>, Inr ())))"

definition lease_is_valid :: "capability_lease \<Rightarrow> timestamp \<Rightarrow> bool" where
  "lease_is_valid l now \<longleftrightarrow> cl_state l = LsActive \<and> is_none_or (cl_expires_at l) (\<lambda>e. now < e)"

definition lease_covers :: "capability_lease \<Rightarrow> string list \<Rightarrow> bool" where
  "lease_covers l required \<longleftrightarrow>
     list_all (\<lambda>r. list_ex (\<lambda>op. op = r) (cl_operations l)) required"

section \<open>Contracts\<close>

lemmas approval_apply_defs = approval_apply_def refuse_def transition_def Let_def

interpretation approval_agg: counted_aggregate
  approval_can_transition approval_is_terminal ap_state approval_apply ap_generation
  by unfold_locales
    (auto simp: approval_is_terminal_def approval_can_transition_def approval_apply_defs
      split: approval_event.splits if_splits)

text \<open>An event never changes what an approval is bound to, accepted or not.\<close>

lemma approval_apply_binding:
  "ap_intent_hash (fst (approval_apply a ev at)) = ap_intent_hash a \<and>
   ap_expires_at (fst (approval_apply a ev at)) = ap_expires_at a \<and>
   ap_tool_call_id (fst (approval_apply a ev at)) = ap_tool_call_id a \<and>
   ap_consumed_at (fst (approval_apply a ev at)) = ap_consumed_at a"
  by (auto simp: approval_apply_defs split: approval_event.splits)

lemma approval_replay_binding:
  assumes "replay approval_apply a es = Inr a'"
  shows "ap_intent_hash a' = ap_intent_hash a \<and> ap_expires_at a' = ap_expires_at a
    \<and> ap_consumed_at a' = ap_consumed_at a"
  using assms
proof (rule replay_invariant)
  show "ap_intent_hash b' = ap_intent_hash a \<and> ap_expires_at b' = ap_expires_at a
      \<and> ap_consumed_at b' = ap_consumed_at a"
    if "ap_intent_hash b = ap_intent_hash a \<and> ap_expires_at b = ap_expires_at a
      \<and> ap_consumed_at b = ap_consumed_at a" and "approval_apply b ev t = (b', Inr ())" for b ev t b'
    using that approval_apply_binding [of b ev t] by simp
qed simp

interpretation lease_agg: event_sourced
  lease_can_transition lease_is_terminal cl_state lease_apply
  by unfold_locales
    (auto simp: lease_is_terminal_def lease_can_transition_def lease_apply_def refuse_def
      transition_def split: lease_event.splits if_splits)

text \<open>Revocation is final and immediate.\<close>

lemma lease_revoked_stays:
  assumes "replay lease_apply l es = Inr l'" "cl_state l = LsRevoked"
  shows "\<not> lease_is_valid l' later"
  using lease_agg.replay_terminal [OF assms(1)] assms(2)
  by (simp add: lease_is_terminal_def lease_is_valid_def)

end
