(* ===== verification/Assistant_Stream.thy ===== *)
theory Assistant_Stream
  imports Rust_Str
begin

text \<open>
  \<open>crates/domain/src/stream.rs\<close>: the events of one streamed model output and the check the
  store makes before it takes the next one. The reasons of a refusal are constructors. The
  locale-free lemma \<open>stream_shape\<close> is what readers of a stream rely on: deltas, then at most
  one closing record.
\<close>

definition MAX_DELTA_BYTES :: nat where
  "MAX_DELTA_BYTES = 2048"

datatype stream_kind = KindText | KindReasoning

datatype abort_source = AbortUserInterrupt | AbortRuntime | AbortProvider | AbortRecovery

fun abort_label :: "abort_source \<Rightarrow> string" where
  "abort_label AbortUserInterrupt = ''USER_INTERRUPT''"
| "abort_label AbortRuntime = ''RUNTIME''"
| "abort_label AbortProvider = ''PROVIDER''"
| "abort_label AbortRecovery = ''RECOVERY''"

datatype retention = CollapsibleOnComplete

record text_ref =
  tr_object_hash :: string
  tr_byte_length :: nat

datatype stream_event =
    AssistantTextDelta uuid stream_kind nat uuid uuid uuid string string retention
  | AssistantMessageCompleted uuid stream_kind nat text_ref string
  | AssistantMessageAborted uuid stream_kind abort_source string string nat nat

fun stream_event_type :: "stream_event \<Rightarrow> string" where
  "stream_event_type (AssistantTextDelta _ _ _ _ _ _ _ _ _) = ''AssistantTextDelta''"
| "stream_event_type (AssistantMessageCompleted _ _ _ _ _) = ''AssistantMessageCompleted''"
| "stream_event_type (AssistantMessageAborted _ _ _ _ _ _ _) = ''AssistantMessageAborted''"

fun stream_id :: "stream_event \<Rightarrow> uuid" where
  "stream_id (AssistantTextDelta sid _ _ _ _ _ _ _ _) = sid"
| "stream_id (AssistantMessageCompleted sid _ _ _ _) = sid"
| "stream_id (AssistantMessageAborted sid _ _ _ _ _ _) = sid"

definition closes :: "string \<Rightarrow> bool" where
  "closes event_type \<longleftrightarrow>
     event_type = ''AssistantMessageCompleted'' \<or> event_type = ''AssistantMessageAborted''"

datatype stream_refusal =
    OtherStream | StreamClosed | OutOfOrder nat nat | DeltaTooLong nat | EmptyDelta
  | CompleteBeforeDelta | WrongDeltaCount nat nat

definition check_next :: "uuid \<Rightarrow> nat \<Rightarrow> string option \<Rightarrow> stream_event \<Rightarrow> stream_refusal + unit" where
  "check_next aggregate sequence previous ev =
     (if stream_id ev \<noteq> aggregate then Inl OtherStream
      else if (case previous of None \<Rightarrow> False | Some p \<Rightarrow> closes p) then Inl StreamClosed
      else (case ev of
          AssistantTextDelta _ _ s _ _ _ txt _ _ \<Rightarrow>
            if s \<noteq> sequence then Inl (OutOfOrder s sequence)
            else if length txt > MAX_DELTA_BYTES then Inl (DeltaTooLong (length txt))
            else if txt = [] then Inl EmptyDelta
            else Inr ()
        | AssistantMessageCompleted _ _ delta_count _ _ \<Rightarrow>
            if sequence = 1 then Inl CompleteBeforeDelta
            else if delta_count \<noteq> sequence - 1 then Inl (WrongDeltaCount delta_count (sequence - 1))
            else Inr ()
        | AssistantMessageAborted _ _ _ _ _ delta_count _ \<Rightarrow>
            if delta_count \<noteq> sequence - 1 then Inl (WrongDeltaCount delta_count (sequence - 1))
            else Inr ()))"

text \<open>The check over a whole stream, event after event, as the store makes it.\<close>

fun stream_accepted :: "uuid \<Rightarrow> nat \<Rightarrow> string option \<Rightarrow> stream_event list \<Rightarrow> bool" where
  "stream_accepted aggregate sequence previous [] = True"
| "stream_accepted aggregate sequence previous (ev # evs) =
     (check_next aggregate sequence previous ev = Inr ()
      \<and> stream_accepted aggregate (Suc sequence) (Some (stream_event_type ev)) evs)"

fun is_delta :: "stream_event \<Rightarrow> bool" where
  "is_delta (AssistantTextDelta _ _ _ _ _ _ _ _ _) = True"
| "is_delta _ = False"

fun delta_text :: "stream_event \<Rightarrow> string" where
  "delta_text (AssistantTextDelta _ _ _ _ _ _ txt _ _) = txt"
| "delta_text _ = []"

fun closing_count :: "stream_event \<Rightarrow> nat" where
  "closing_count (AssistantMessageCompleted _ _ n _ _) = n"
| "closing_count (AssistantMessageAborted _ _ _ _ _ n _) = n"
| "closing_count _ = 0"

lemma closes_event_type: "closes (stream_event_type ev) \<longleftrightarrow> \<not> is_delta ev"
  by (cases ev) (auto simp: closes_def)

lemma stream_closed_end:
  "stream_accepted a n (Some p) evs \<Longrightarrow> closes p \<Longrightarrow> evs = []"
  by (cases evs) (auto simp: check_next_def split: if_splits)

lemma check_next_delta:
  assumes "check_next a n p ev = Inr ()" "is_delta ev"
  shows "0 < length (delta_text ev) \<and> length (delta_text ev) \<le> MAX_DELTA_BYTES"
  using assms by (cases ev) (auto simp: check_next_def split: if_splits option.splits)

lemma check_next_closing:
  assumes "check_next a n p ev = Inr ()" "\<not> is_delta ev"
  shows "closing_count ev = n - 1"
  using assms by (cases ev) (auto simp: check_next_def split: if_splits option.splits)

lemma stream_shape:
  assumes "stream_accepted a n p evs"
  shows "\<exists>ds tl. evs = ds @ tl \<and> list_all is_delta ds
     \<and> (tl = [] \<or> (\<exists>c. tl = [c] \<and> \<not> is_delta c \<and> closing_count c = n + length ds - 1))
     \<and> (\<forall>d \<in> set ds. 0 < length (delta_text d) \<and> length (delta_text d) \<le> MAX_DELTA_BYTES)"
  using assms
proof (induction evs arbitrary: n p)
  case (Cons ev evs)
  have ok: "check_next a n p ev = Inr ()"
    and rest: "stream_accepted a (Suc n) (Some (stream_event_type ev)) evs"
    using Cons.prems by simp_all
  show ?case
  proof (cases "is_delta ev")
    case False
    then have "evs = []" using stream_closed_end [OF rest] closes_event_type by blast
    then show ?thesis using False check_next_closing [OF ok False]
      by (intro exI [of _ "[]"] exI [of _ "[ev]"]) auto
  next
    case True
    obtain ds tl where IH: "evs = ds @ tl" "list_all is_delta ds"
      "tl = [] \<or> (\<exists>c. tl = [c] \<and> \<not> is_delta c \<and> closing_count c = Suc n + length ds - 1)"
      "\<forall>d \<in> set ds. 0 < length (delta_text d) \<and> length (delta_text d) \<le> MAX_DELTA_BYTES"
      using Cons.IH [OF rest] by blast
    then show ?thesis using True check_next_delta [OF ok True]
      by (intro exI [of _ "ev # ds"] exI [of _ tl]) auto
  qed
qed simp

end
