(* ===== verification/Project.thy ===== *)
theory Project
  imports Task Rust_Str
begin

text \<open>
  \<open>crates/domain/src/project.rs\<close>: projects, a named and archivable record bound to one workspace
  with a membership map from task to project. The events, the checks on a name, a colour and
  an icon, and the rules for a task that would join. A refusal is its code and its sentence.
  \<open>trim\<close> and the lower case know ASCII only; characters are counted and control characters found
  in the UTF-8 bytes. The lemmas say what each check lets through and which rule refuses.
\<close>

section \<open>Constants and events\<close>

definition MAX_NAME_CHARS :: nat where
  "MAX_NAME_CHARS = 80"

definition MAX_MEMBERS :: nat where
  "MAX_MEMBERS = 200"

definition MAX_LIVE_PROJECTS_PER_WORKSPACE :: nat where
  "MAX_LIVE_PROJECTS_PER_WORKSPACE = 50"

definition COLORS :: "string list" where
  "COLORS = [''accent'', ''ok'', ''warn'', ''danger'', ''info'', ''modeAsk'', ''modePlan'', ''modeDebug'']"

definition DEFAULT_COLOR :: string where
  "DEFAULT_COLOR = ''accent''"

definition ICONS :: "string list" where
  "ICONS = [''folder'', ''star'', ''flag'', ''bolt'', ''book'', ''bug'', ''rocket'', ''leaf'']"

definition DEFAULT_ICON :: string where
  "DEFAULT_ICON = ''folder''"

type_synonym refusal = "string \<times> string"

text \<open>The fields in the order of the source: identity first, then name, colour, icon and workspace root.\<close>

datatype proj_event =
    ProjectCreated uuid string string string string
  | ProjectRenamed uuid string string string
  | ProjectArchived uuid
  | ProjectUnarchived uuid
  | ProjectMemberAdded uuid uuid
  | ProjectMemberRemoved uuid uuid

fun proj_event_type :: "proj_event \<Rightarrow> string" where
  "proj_event_type (ProjectCreated _ _ _ _ _) = ''ProjectCreated''"
| "proj_event_type (ProjectRenamed _ _ _ _) = ''ProjectRenamed''"
| "proj_event_type (ProjectArchived _) = ''ProjectArchived''"
| "proj_event_type (ProjectUnarchived _) = ''ProjectUnarchived''"
| "proj_event_type (ProjectMemberAdded _ _) = ''ProjectMemberAdded''"
| "proj_event_type (ProjectMemberRemoved _ _) = ''ProjectMemberRemoved''"

section \<open>Names, colours and icons\<close>

definition name_key :: "string \<Rightarrow> string" where
  "name_key name = to_ascii_lowercase (trim name)"

text \<open>\<open>chars().count()\<close>: the bytes that do not continue a character.\<close>

definition chars_count :: "string \<Rightarrow> nat" where
  "chars_count s = length (filter (\<lambda>c. \<not> (128 \<le> (of_char c :: nat) \<and> (of_char c :: nat) < 192)) s)"

text \<open>\<open>char::is_control\<close>: U+0000 to U+001F, U+007F, and U+0080 to U+009F, which are two bytes.\<close>

fun any_control :: "string \<Rightarrow> bool" where
  "any_control [] = False"
| "any_control (c # s) =
     ((of_char c :: nat) < 32 \<or> (of_char c :: nat) = 127
      \<or> (of_char c :: nat) = 194
         \<and> (case s of [] \<Rightarrow> False | d # _ \<Rightarrow> 128 \<le> (of_char d :: nat) \<and> (of_char d :: nat) < 160)
      \<or> any_control s)"

definition check_name :: "string \<Rightarrow> refusal + string" where
  "check_name name = (let n = trim name in
     if n = [] then Inl (''PROJECT_NAME_INVALID'', ''a project needs a name'')
     else if chars_count n > MAX_NAME_CHARS
     then Inl (''PROJECT_NAME_INVALID'', ''a project name has at most 80 characters'')
     else if any_control n
     then Inl (''PROJECT_NAME_INVALID'', ''a project name holds no control characters'')
     else Inr n)"

definition check_color :: "string \<Rightarrow> string option \<Rightarrow> refusal + string" where
  "check_color color current =
     (if color = [] then Inr (case current of None \<Rightarrow> DEFAULT_COLOR | Some c \<Rightarrow> c)
      else if color \<in> set COLORS then Inr color
      else Inl (''PROJECT_COLOR_INVALID'',
        ''`'' @ color @ ''` is not a palette role; use one of '' @ join '', '' COLORS))"

definition check_icon :: "string \<Rightarrow> string option \<Rightarrow> refusal + string" where
  "check_icon icon current =
     (if icon = [] then Inr (case current of None \<Rightarrow> DEFAULT_ICON | Some c \<Rightarrow> c)
      else if icon \<in> set ICONS then Inr icon
      else Inl (''PROJECT_ICON_INVALID'',
        ''`'' @ icon @ ''` is not a project icon; use one of '' @ join '', '' ICONS))"

section \<open>Joining a project\<close>

record candidate =
  cd_task_id :: uuid
  cd_origin :: task_origin
  cd_state :: task_state
  cd_archived :: bool
  cd_workspace_root :: "string option"

record target =
  tg_project_id :: uuid
  tg_name :: string
  tg_workspace_root :: string
  tg_archived :: bool
  tg_members :: nat

definition is_top_level :: "task_origin \<Rightarrow> bool" where
  "is_top_level origin = (origin \<notin> {OriginSubagent, OriginReview, OriginReplay})"

definition is_draft :: "task_state \<Rightarrow> bool \<Rightarrow> bool" where
  "is_draft state archived = ((state = TkCreated \<or> state = TkQueued) \<and> \<not> archived)"

definition check_add :: "target \<Rightarrow> candidate \<Rightarrow> (uuid \<times> string) option \<Rightarrow> refusal + unit" where
  "check_add t c in_project =
     (if tg_archived t then Inl (''PROJECT_ARCHIVED'',
        ''`'' @ tg_name t @ ''` is archived; restore it before adding to it'')
      else if \<not> is_top_level (cd_origin c) then Inl (''TASK_NOT_TOP_LEVEL'',
        ''only a top-level task can join a project; this task belongs to another task's work'')
      else if is_draft (cd_state c) (cd_archived c) then Inl (''TASK_IS_DRAFT'',
        ''a draft task cannot join a project; start it first'')
      else (case cd_workspace_root c of
          None \<Rightarrow> Inl (''WORKSPACE_MISMATCH'',
            ''the task has no workspace, so it cannot join a workspace's project'')
        | Some root \<Rightarrow>
            if root \<noteq> tg_workspace_root t then Inl (''WORKSPACE_MISMATCH'',
              ''the task works in `'' @ root @ ''` and `'' @ tg_name t @ ''` belongs to `''
                @ tg_workspace_root t @ ''`; a project holds tasks of its own workspace only'')
            else (case in_project of
                Some (other, other_name) \<Rightarrow>
                  if other \<noteq> tg_project_id t then Inl (''IN_ANOTHER_PROJECT'',
                    ''the task is in `'' @ other_name
                      @ ''`; remove it from there first, a task is in one project at a time'')
                  else if tg_members t \<ge> MAX_MEMBERS
                  then Inl (''PROJECT_FULL'', ''a project holds at most 200 tasks'')
                  else Inr ()
              | None \<Rightarrow>
                  if tg_members t \<ge> MAX_MEMBERS
                  then Inl (''PROJECT_FULL'', ''a project holds at most 200 tasks'')
                  else Inr ())))"

section \<open>Lemmas\<close>

lemma check_color_palette:
  "check_color color current = Inr c \<Longrightarrow> c \<in> set COLORS \<or> current = Some c"
  by (auto simp: check_color_def COLORS_def DEFAULT_COLOR_def split: if_splits option.splits)

lemma check_icon_set:
  "check_icon icon current = Inr c \<Longrightarrow> c \<in> set ICONS \<or> current = Some c"
  by (auto simp: check_icon_def ICONS_def DEFAULT_ICON_def split: if_splits option.splits)

lemma check_name_Inr:
  "check_name name = Inr n \<longleftrightarrow>
     n = trim name \<and> n \<noteq> [] \<and> chars_count n \<le> MAX_NAME_CHARS \<and> \<not> any_control n"
  by (auto simp: check_name_def Let_def)

text \<open>A task joins exactly when the project is live and of its workspace and has room, the task is a
  started one of the person's own, and no other project holds it.\<close>

lemma check_add_Inr:
  "check_add t c in_project = Inr () \<longleftrightarrow>
     \<not> tg_archived t \<and> is_top_level (cd_origin c) \<and> \<not> is_draft (cd_state c) (cd_archived c)
     \<and> cd_workspace_root c = Some (tg_workspace_root t)
     \<and> (case in_project of None \<Rightarrow> True | Some (p, _) \<Rightarrow> p = tg_project_id t)
     \<and> tg_members t < MAX_MEMBERS"
  by (auto simp: check_add_def not_le split: option.splits)

end
