(* ===== verification/Envelope.thy ===== *)
theory Envelope
  imports Session Task Run Turn Run_Step Tool_Call Approval Assistant_Stream Project
begin

text \<open>
  \<open>crates/domain/src/event.rs\<close> and \<open>canonical_content\<close>/\<open>chain_hash\<close> of
  \<open>crates/event-store/src/store.rs\<close>: the event envelope and the bytes its hash is taken over.

  The JSON value of a payload is the typed event it encodes, or an opaque value of an
  aggregate that has no projection here (\<open>POther\<close>). What the store gets from outside is the
  record \<open>codec\<close>: the JSON text of a payload and its parser, the JSON text of an actor, and
  SHA-256 in hex. The lemmas show that the canonical bytes determine the envelope up to its
  hash.
\<close>

section \<open>Data\<close>

definition SCHEMA_VERSION :: nat where
  "SCHEMA_VERSION = 1"

datatype aggregate_type =
    AggSession | AggTask | AggRun | AggTurn | AggRunStep | AggToolCall | AggApproval
  | AggCapabilityLease | AggCheckpoint | AggCompactionEpoch | AggWorkspace | AggAssistantStream
  | AggConversation | AggMemory | AggAutomation | AggProject

fun aggregate_as_str :: "aggregate_type \<Rightarrow> string" where
  "aggregate_as_str AggSession = ''session''"
| "aggregate_as_str AggTask = ''task''"
| "aggregate_as_str AggRun = ''run''"
| "aggregate_as_str AggTurn = ''turn''"
| "aggregate_as_str AggRunStep = ''run_step''"
| "aggregate_as_str AggToolCall = ''tool_call''"
| "aggregate_as_str AggApproval = ''approval''"
| "aggregate_as_str AggCapabilityLease = ''capability_lease''"
| "aggregate_as_str AggCheckpoint = ''checkpoint''"
| "aggregate_as_str AggCompactionEpoch = ''compaction_epoch''"
| "aggregate_as_str AggWorkspace = ''workspace''"
| "aggregate_as_str AggAssistantStream = ''assistant_stream''"
| "aggregate_as_str AggConversation = ''conversation''"
| "aggregate_as_str AggMemory = ''memory''"
| "aggregate_as_str AggAutomation = ''automation''"
| "aggregate_as_str AggProject = ''project''"

definition aggregate_parse :: "string \<Rightarrow> aggregate_type option" where
  "aggregate_parse s =
     (if s = ''session'' then Some AggSession
      else if s = ''task'' then Some AggTask
      else if s = ''run'' then Some AggRun
      else if s = ''turn'' then Some AggTurn
      else if s = ''run_step'' then Some AggRunStep
      else if s = ''tool_call'' then Some AggToolCall
      else if s = ''approval'' then Some AggApproval
      else if s = ''capability_lease'' then Some AggCapabilityLease
      else if s = ''checkpoint'' then Some AggCheckpoint
      else if s = ''compaction_epoch'' then Some AggCompactionEpoch
      else if s = ''workspace'' then Some AggWorkspace
      else if s = ''assistant_stream'' then Some AggAssistantStream
      else if s = ''conversation'' then Some AggConversation
      else if s = ''memory'' then Some AggMemory
      else if s = ''automation'' then Some AggAutomation
      else if s = ''project'' then Some AggProject
      else None)"

datatype actor = ActorUser uuid | ActorCore string | ActorAgent string | ActorExternal string

datatype payload =
    PSession session_event | PTask task_event | PRun run_event | PTurn turn_event
  | PStep step_event | PToolCall tool_call_event | PApproval approval_event
  | PLease lease_event | PStream stream_event | PProject proj_event | POther string

datatype payload_ref = Inline payload | Object string nat

record event_envelope =
  ev_event_id :: uuid
  ev_tenant_id :: uuid
  ev_session_id :: uuid
  ev_task_id :: "uuid option"
  ev_run_id :: "uuid option"
  ev_turn_id :: "uuid option"
  ev_step_id :: "uuid option"
  ev_aggregate_type :: aggregate_type
  ev_aggregate_id :: uuid
  ev_sequence :: nat
  ev_event_type :: string
  ev_schema_version :: nat
  ev_occurred_at :: timestamp
  ev_actor :: actor
  ev_causation_id :: "uuid option"
  ev_correlation_id :: "uuid option"
  ev_payload :: payload_ref
  ev_integrity_hash :: string

record codec =
  c_text :: "payload \<Rightarrow> string"
  c_parse :: "string \<Rightarrow> payload option"
  c_actor :: "actor \<Rightarrow> string"
  c_sha :: "string \<Rightarrow> string"

section \<open>Canonical bytes and the chain hash\<close>

text \<open>\<open>to_be_bytes\<close> of a \<open>k\<close>-byte unsigned number, and of an \<open>i64\<close>.\<close>

primrec be_bytes :: "nat \<Rightarrow> nat \<Rightarrow> string" where
  "be_bytes 0 n = []"
| "be_bytes (Suc k) n = be_bytes k (n div 256) @ [char_of (n mod 256)]"

definition i64_bytes :: "int \<Rightarrow> string" where
  "i64_bytes i = be_bytes 8 (nat (i mod 2 ^ 64))"

definition opt_id_bytes :: "uuid option \<Rightarrow> string" where
  "opt_id_bytes x = (case x of None \<Rightarrow> CHR 0x00 # be_bytes 16 0 | Some u \<Rightarrow> CHR 0x01 # be_bytes 16 u)"

definition payload_bytes :: "codec \<Rightarrow> payload_ref \<Rightarrow> string" where
  "payload_bytes c p = (case p of
     Inline v \<Rightarrow> CHR 0x01 # c_text c v
   | Object h n \<Rightarrow> CHR 0x02 # h @ be_bytes 8 n)"

definition lineage_bytes :: "event_envelope \<Rightarrow> string" where
  "lineage_bytes e =
     be_bytes 16 (ev_event_id e) @ be_bytes 16 (ev_tenant_id e) @ be_bytes 16 (ev_session_id e)
   @ opt_id_bytes (ev_task_id e) @ opt_id_bytes (ev_run_id e)
   @ opt_id_bytes (ev_turn_id e) @ opt_id_bytes (ev_step_id e)"

definition position_bytes :: "event_envelope \<Rightarrow> string" where
  "position_bytes e = be_bytes 16 (ev_aggregate_id e) @ be_bytes 8 (ev_sequence e)"

definition version_bytes :: "event_envelope \<Rightarrow> string" where
  "version_bytes e = be_bytes 4 (ev_schema_version e) @ i64_bytes (ev_occurred_at e)"

definition cause_bytes :: "event_envelope \<Rightarrow> string" where
  "cause_bytes e = opt_id_bytes (ev_causation_id e) @ opt_id_bytes (ev_correlation_id e)"

definition canonical_content :: "codec \<Rightarrow> event_envelope \<Rightarrow> string" where
  "canonical_content c e =
     lineage_bytes e
   @ aggregate_as_str (ev_aggregate_type e) @ CHR 0x00 # position_bytes e
   @ ev_event_type e @ CHR 0x00 # version_bytes e
   @ c_actor c (ev_actor e) @ CHR 0x00 # cause_bytes e
   @ payload_bytes c (ev_payload e)"

definition chain_hash :: "codec \<Rightarrow> string \<Rightarrow> event_envelope \<Rightarrow> string" where
  "chain_hash c previous e = c_sha c (previous @ canonical_content c e)"

section \<open>The canonical bytes determine the envelope\<close>

lemma aggregate_parse_as_str: "aggregate_parse (aggregate_as_str t) = Some t"
  by (cases t) (simp_all add: aggregate_parse_def)

lemma length_be_bytes [simp]: "length (be_bytes k n) = k"
  by (induction k arbitrary: n) auto

lemma be_bytes_inject:
  "m < 256 ^ k \<Longrightarrow> n < 256 ^ k \<Longrightarrow> be_bytes k m = be_bytes k n \<longleftrightarrow> m = n"
proof (induction k arbitrary: m n)
  case (Suc k)
  have d: "m div 256 < 256 ^ k" "n div 256 < 256 ^ k"
    using Suc.prems by (auto simp: less_mult_imp_div_less mult.commute)
  have c: "char_of (m mod 256) = (char_of (n mod 256) :: char) \<longleftrightarrow> m mod 256 = n mod 256"
    by (metis char_of_eq_iff mod_mod_trivial of_char_of)
  show ?case using Suc.IH [OF d] c
    by simp (metis div_mult_mod_eq)
qed simp

definition id_ok :: "uuid \<Rightarrow> bool" where
  "id_ok u \<longleftrightarrow> u < 256 ^ 16"

definition opt_id_ok :: "uuid option \<Rightarrow> bool" where
  "opt_id_ok x \<longleftrightarrow> (case x of None \<Rightarrow> True | Some u \<Rightarrow> id_ok u)"

text \<open>The widths of the fields, and no NUL byte in an event type name.\<close>

definition envelope_ok :: "event_envelope \<Rightarrow> bool" where
  "envelope_ok e \<longleftrightarrow>
     id_ok (ev_event_id e) \<and> id_ok (ev_tenant_id e) \<and> id_ok (ev_session_id e)
   \<and> opt_id_ok (ev_task_id e) \<and> opt_id_ok (ev_run_id e) \<and> opt_id_ok (ev_turn_id e)
   \<and> opt_id_ok (ev_step_id e) \<and> id_ok (ev_aggregate_id e) \<and> ev_sequence e < 256 ^ 8
   \<and> CHR 0x00 \<notin> set (ev_event_type e) \<and> ev_schema_version e < 256 ^ 4
   \<and> - (2 ^ 63) \<le> ev_occurred_at e \<and> ev_occurred_at e < 2 ^ 63
   \<and> opt_id_ok (ev_causation_id e) \<and> opt_id_ok (ev_correlation_id e)
   \<and> (case ev_payload e of Inline _ \<Rightarrow> True | Object _ n \<Rightarrow> n < 256 ^ 8)"

text \<open>JSON text never holds a NUL byte and has one value.\<close>

definition codec_faithful :: "codec \<Rightarrow> event_envelope set \<Rightarrow> bool" where
  "codec_faithful c E \<longleftrightarrow>
     (\<forall>e \<in> E. \<forall>f \<in> E. c_actor c (ev_actor e) = c_actor c (ev_actor f) \<longrightarrow> ev_actor e = ev_actor f)
   \<and> (\<forall>e \<in> E. CHR 0x00 \<notin> set (c_actor c (ev_actor e)))
   \<and> (\<forall>e \<in> E. \<forall>f \<in> E. \<forall>p q. ev_payload e = Inline p \<longrightarrow> ev_payload f = Inline q \<longrightarrow>
        c_text c p = c_text c q \<longrightarrow> p = q)"

lemma codec_faithfulD:
  assumes "codec_faithful c E"
  shows "e \<in> E \<Longrightarrow> f \<in> E \<Longrightarrow> c_actor c (ev_actor e) = c_actor c (ev_actor f) \<Longrightarrow>
      ev_actor e = ev_actor f"
    and "e \<in> E \<Longrightarrow> CHR 0x00 \<notin> set (c_actor c (ev_actor e))"
    and "e \<in> E \<Longrightarrow> f \<in> E \<Longrightarrow> ev_payload e = Inline p \<Longrightarrow> ev_payload f = Inline q \<Longrightarrow>
      c_text c p = c_text c q \<Longrightarrow> p = q"
  using assms unfolding codec_faithful_def by blast+

lemma nul_terminated:
  "CHR 0x00 \<notin> set a \<Longrightarrow> CHR 0x00 \<notin> set b \<Longrightarrow>
     a @ CHR 0x00 # x = b @ CHR 0x00 # y \<longleftrightarrow> a = b \<and> x = y"
proof (induction a arbitrary: b)
  case Nil
  then show ?case by (cases b) auto
next
  case (Cons c a)
  then show ?case by (cases b) auto
qed

lemma length_opt_id_bytes [simp]: "length (opt_id_bytes x) = 17"
  by (simp add: opt_id_bytes_def split: option.splits)

lemma length_i64_bytes [simp]: "length (i64_bytes i) = 8"
  by (simp add: i64_bytes_def)

lemma opt_id_bytes_inject:
  "opt_id_ok x \<Longrightarrow> opt_id_ok y \<Longrightarrow> opt_id_bytes x = opt_id_bytes y \<longleftrightarrow> x = y"
  by (auto simp: opt_id_bytes_def opt_id_ok_def id_ok_def be_bytes_inject split: option.splits)

lemma i64_bytes_inject:
  assumes "- (2 ^ 63) \<le> i" "i < 2 ^ 63" "- (2 ^ 63) \<le> j" "j < 2 ^ 63"
  shows "i64_bytes i = i64_bytes j \<longleftrightarrow> i = j"
proof -
  have lt: "nat (k mod 2 ^ 64) < 256 ^ 8" for k :: int
  proof -
    have "k mod 2 ^ 64 < 2 ^ 64" by simp
    then show ?thesis by (simp add: nat_less_iff)
  qed
  have "i mod 2 ^ 64 = j mod 2 ^ 64 \<longleftrightarrow> i = j"
  proof
    assume "i mod 2 ^ 64 = j mod 2 ^ 64"
    then have "2 ^ 64 dvd i - j" by (simp add: mod_eq_dvd_iff)
    moreover have "\<bar>i - j\<bar> < 2 ^ 64" using assms by simp
    ultimately show "i = j" using dvd_imp_le_int [of "i - j" "2 ^ 64"] by force
  qed simp
  then show ?thesis
    by (simp only: i64_bytes_def be_bytes_inject [OF lt lt])
      (metis nat_eq_iff2 pos_mod_sign zero_less_numeral zero_less_power nat_0_le)
qed

lemma aggregate_no_nul: "CHR 0x00 \<notin> set (aggregate_as_str t)"
  by (cases t) simp_all

lemma aggregate_as_str_inject: "aggregate_as_str s = aggregate_as_str t \<longleftrightarrow> s = t"
  by (metis aggregate_parse_as_str option.inject)

lemma payload_bytes_inject:
  assumes "payload_bytes c p = payload_bytes c q"
    and "\<And>v w. p = Inline v \<Longrightarrow> q = Inline w \<Longrightarrow> c_text c v = c_text c w \<Longrightarrow> v = w"
    and "case p of Inline _ \<Rightarrow> True | Object _ n \<Rightarrow> n < 256 ^ 8"
    and "case q of Inline _ \<Rightarrow> True | Object _ n \<Rightarrow> n < 256 ^ 8"
  shows "p = q"
proof (cases p)
  case (Inline v)
  then obtain w where w: "q = Inline w"
    using assms(1) by (cases q) (simp_all add: payload_bytes_def)
  then have "c_text c v = c_text c w" using assms(1) Inline by (simp add: payload_bytes_def)
  then show ?thesis using assms(2) [OF Inline w] Inline w by simp
next
  case (Object h n)
  then obtain h' n' where q: "q = Object h' n'"
    using assms(1) by (cases q) (simp_all add: payload_bytes_def)
  then have "h = h' \<and> be_bytes 8 n = be_bytes 8 n'"
    using assms(1) Object by (simp add: payload_bytes_def)
  then show ?thesis using assms(3,4) Object q by (simp add: be_bytes_inject)
qed

lemma block_lengths [simp]:
  "length (lineage_bytes e) = 116" "length (position_bytes e) = 24"
  "length (version_bytes e) = 12" "length (cause_bytes e) = 34"
  by (simp_all add: lineage_bytes_def position_bytes_def version_bytes_def cause_bytes_def)

lemma lineage_bytes_inject:
  assumes "lineage_bytes e = lineage_bytes f" "envelope_ok e" "envelope_ok f"
  shows "ev_event_id e = ev_event_id f" "ev_tenant_id e = ev_tenant_id f"
    "ev_session_id e = ev_session_id f" "ev_task_id e = ev_task_id f" "ev_run_id e = ev_run_id f"
    "ev_turn_id e = ev_turn_id f" "ev_step_id e = ev_step_id f"
  using assms unfolding lineage_bytes_def envelope_ok_def id_ok_def
  by (simp_all add: be_bytes_inject opt_id_bytes_inject)

lemma fixed_block_inject:
  assumes "envelope_ok e" "envelope_ok f"
  shows "position_bytes e = position_bytes f \<Longrightarrow>
      ev_aggregate_id e = ev_aggregate_id f \<and> ev_sequence e = ev_sequence f"
    "version_bytes e = version_bytes f \<Longrightarrow>
      ev_schema_version e = ev_schema_version f \<and> ev_occurred_at e = ev_occurred_at f"
    "cause_bytes e = cause_bytes f \<Longrightarrow>
      ev_causation_id e = ev_causation_id f \<and> ev_correlation_id e = ev_correlation_id f"
  using assms
  unfolding position_bytes_def version_bytes_def cause_bytes_def envelope_ok_def id_ok_def
  by (simp_all add: be_bytes_inject opt_id_bytes_inject i64_bytes_inject)

lemma canonical_content_blocks:
  assumes "canonical_content c e = canonical_content c f"
    and "CHR 0x00 \<notin> set (ev_event_type e)" "CHR 0x00 \<notin> set (ev_event_type f)"
    and "CHR 0x00 \<notin> set (c_actor c (ev_actor e))" "CHR 0x00 \<notin> set (c_actor c (ev_actor f))"
  shows "lineage_bytes e = lineage_bytes f" "ev_aggregate_type e = ev_aggregate_type f"
    "position_bytes e = position_bytes f" "ev_event_type e = ev_event_type f"
    "version_bytes e = version_bytes f" "c_actor c (ev_actor e) = c_actor c (ev_actor f)"
    "cause_bytes e = cause_bytes f" "payload_bytes c (ev_payload e) = payload_bytes c (ev_payload f)"
  using assms(1) unfolding canonical_content_def
  by (simp_all add: nul_terminated [OF aggregate_no_nul aggregate_no_nul] aggregate_as_str_inject
      nul_terminated [OF assms(2,3)] nul_terminated [OF assms(4,5)])

lemma canonical_content_inject:
  assumes "canonical_content c e = canonical_content c f"
    and "envelope_ok e" "envelope_ok f" "codec_faithful c {e, f}"
    and "ev_integrity_hash e = ev_integrity_hash f"
  shows "e = f"
proof -
  have nul: "CHR 0x00 \<notin> set (ev_event_type e)" "CHR 0x00 \<notin> set (ev_event_type f)"
    "CHR 0x00 \<notin> set (c_actor c (ev_actor e))" "CHR 0x00 \<notin> set (c_actor c (ev_actor f))"
    using assms(2,3) codec_faithfulD(2) [OF assms(4)] by (simp_all add: envelope_ok_def)
  note blocks = canonical_content_blocks [OF assms(1) nul]
  have actor: "ev_actor e = ev_actor f"
    using codec_faithfulD(1) [OF assms(4)] blocks(6) by blast
  have payload: "ev_payload e = ev_payload f"
  proof (rule payload_bytes_inject [OF blocks(8)])
    show "v = w" if "ev_payload e = Inline v" "ev_payload f = Inline w" "c_text c v = c_text c w" for v w
      using codec_faithfulD(3) [OF assms(4)] that by blast
  qed (use assms(2,3) in \<open>simp_all add: envelope_ok_def\<close>)
  show ?thesis
    using lineage_bytes_inject [OF blocks(1) assms(2,3)] fixed_block_inject(1) [OF assms(2,3) blocks(3)]
      fixed_block_inject(2) [OF assms(2,3) blocks(5)] fixed_block_inject(3) [OF assms(2,3) blocks(7)]
      blocks(2,4) actor payload assms(5)
    by (intro event_envelope.equality) simp_all
qed

end
