(* ===== verification/Ledger.thy ===== *)
theory Ledger
  imports Tool_Call
begin

text \<open>
  \<open>crates/policy/src/ledger.rs\<close> and \<open>crates/policy/src/epoch.rs\<close>: the receipt chain of
  protected effects and the epochs of the authority they ran under. SHA-256 over the
  canonical JSON is a parameter: \<open>H\<close> gives the digest of a receipt whose own hash field is
  blank, \<open>HS\<close> that of a capability snapshot. The error texts are reduced to which rule broke
  and where. The locale \<open>hash_chain\<close> is the contract a chain checker offers its readers.
\<close>

section \<open>Hash chains\<close>

locale hash_chain =
  fixes link :: "'r \<Rightarrow> 'h option" and own :: "'r \<Rightarrow> 'h" and digest :: "'r \<Rightarrow> 'h"
    and sealed :: "'r \<Rightarrow> 'r"
  assumes link_sealed: "link (sealed r) = link r"
    and own_sealed: "own (sealed r) = digest r"
    and digest_sealed: "digest (sealed r) = digest r"
begin

fun chained :: "'h option \<Rightarrow> 'r list \<Rightarrow> bool" where
  "chained prev [] = True"
| "chained prev (r # rs) = (link r = prev \<and> digest r = own r \<and> chained (Some (own r)) rs)"

definition tip :: "'h option \<Rightarrow> 'r list \<Rightarrow> 'h option" where
  "tip prev rs = (if rs = [] then prev else Some (own (last rs)))"

lemma chained_append: "chained prev (xs @ ys) \<longleftrightarrow> chained prev xs \<and> chained (tip prev xs) ys"
  by (induction xs arbitrary: prev) (auto simp: tip_def)

lemma chained_snoc_sealed:
  "chained prev xs \<Longrightarrow> link r = tip prev xs \<Longrightarrow> chained prev (xs @ [sealed r])"
  by (simp add: chained_append link_sealed own_sealed digest_sealed)

lemma tip_snoc: "tip prev (xs @ [r]) = Some (own r)"
  by (simp add: tip_def)

text \<open>
  Two chains from the same start that end at the same hash are the same chain, unless two
  different records among them have the same digest.
\<close>

lemma chained_unique:
  assumes "chained None xs" "chained None ys" "tip None xs = tip None ys"
    and "\<And>r s. r \<in> set xs \<Longrightarrow> s \<in> set ys \<Longrightarrow> digest r = digest s \<Longrightarrow> own r = own s \<Longrightarrow> r = s"
  shows "xs = ys"
  using assms
proof (induction xs arbitrary: ys rule: rev_induct)
  case Nil
  then show ?case by (auto simp: tip_def split: if_splits)
next
  case (snoc r xs)
  then obtain zs s where ys: "ys = zs @ [s]"
    by (cases ys rule: rev_cases) (auto simp: tip_def)
  have own: "own r = own s" using snoc.prems(3) ys by (simp add: tip_snoc)
  have d: "digest r = own r" "digest s = own s"
    using snoc.prems(1,2) ys by (auto simp: chained_append)
  have rs: "r = s" using snoc.prems(4) [of r s] ys own d by simp
  have "tip None xs = tip None zs"
    using snoc.prems(1,2) ys rs by (simp add: chained_append)
  moreover have "chained None xs" "chained None zs"
    using snoc.prems(1,2) ys by (simp_all add: chained_append)
  ultimately have "xs = zs"
    using snoc.prems(4) ys by (intro snoc.IH) auto
  with rs ys show ?case by simp
qed

end

section \<open>Receipts\<close>

type_synonym receipt_digest = "effect_receipt \<Rightarrow> string"

definition STATUS_AUTHORIZED :: string where
  "STATUS_AUTHORIZED = ''AUTHORIZED''"

definition is_authorization :: "effect_receipt \<Rightarrow> bool" where
  "is_authorization r \<longleftrightarrow> er_status r = STATUS_AUTHORIZED"

definition result_of :: "effect_receipt list \<Rightarrow> uuid \<Rightarrow> effect_receipt option" where
  "result_of chain call = find (\<lambda>r. er_tool_call_id r = call \<and> \<not> is_authorization r) chain"

definition authorization_of :: "effect_receipt list \<Rightarrow> uuid \<Rightarrow> effect_receipt option" where
  "authorization_of chain call = find (\<lambda>r. er_tool_call_id r = call \<and> is_authorization r) chain"

definition in_doubt :: "effect_receipt list \<Rightarrow> effect_receipt list" where
  "in_doubt chain =
     filter (\<lambda>r. is_authorization r \<and> result_of chain (er_tool_call_id r) = None) chain"

definition receipt_hash :: "receipt_digest \<Rightarrow> effect_receipt \<Rightarrow> string" where
  "receipt_hash H r = H (r\<lparr>er_receipt_hash := []\<rparr>)"

definition seal :: "receipt_digest \<Rightarrow> effect_receipt \<Rightarrow> effect_receipt" where
  "seal H r = r\<lparr>er_receipt_hash := receipt_hash H r\<rparr>"

datatype chain_error = BrokenLink nat | WrongHash nat

fun verify_from :: "receipt_digest \<Rightarrow> nat \<Rightarrow> string option \<Rightarrow> effect_receipt list \<Rightarrow> chain_error + unit" where
  "verify_from H i prev [] = Inr ()"
| "verify_from H i prev (r # rs) =
     (if er_previous_receipt_hash r \<noteq> prev then Inl (BrokenLink i)
      else if receipt_hash H r \<noteq> er_receipt_hash r then Inl (WrongHash i)
      else verify_from H (Suc i) (Some (er_receipt_hash r)) rs)"

definition verify_chain :: "receipt_digest \<Rightarrow> effect_receipt list \<Rightarrow> chain_error + unit" where
  "verify_chain H chain = verify_from H 0 None chain"

interpretation receipts: hash_chain
  er_previous_receipt_hash er_receipt_hash "receipt_hash H" "seal H" for H
  by unfold_locales (simp_all add: seal_def receipt_hash_def)

lemma verify_from_ok: "verify_from H i prev rs = Inr () \<longleftrightarrow> receipts.chained H prev rs"
  by (induction H i prev rs rule: verify_from.induct) auto

lemma verify_chain_ok: "verify_chain H rs = Inr () \<longleftrightarrow> receipts.chained H None rs"
  by (simp add: verify_chain_def verify_from_ok)

lemma in_doubt_iff:
  "r \<in> set (in_doubt chain) \<longleftrightarrow>
     r \<in> set chain \<and> is_authorization r
   \<and> (\<forall>s \<in> set chain. er_tool_call_id s = er_tool_call_id r \<longrightarrow> is_authorization s)"
  by (auto simp: in_doubt_def result_of_def find_None_iff_ball)

section \<open>Epochs\<close>

record lease_snapshot =
  ls_lease_id :: string
  ls_generation :: nat
  ls_effect_ceiling :: string
  ls_operations :: "string list"
  ls_resources_digest :: string

record capability_snapshot =
  cs_epoch :: nat
  cs_run_id :: string
  cs_turn_id :: string
  cs_round :: u32
  cs_config_generation :: string
  cs_config_ref :: string
  cs_mode :: string
  cs_execution_profile :: string
  cs_lease :: "lease_snapshot option"
  cs_projected_tools :: "string list"
  cs_projection_hash :: string
  cs_skills :: "string list"

type_synonym snapshot_digest = "capability_snapshot \<Rightarrow> string"

definition stamp :: "snapshot_digest \<Rightarrow> capability_snapshot \<Rightarrow> authorization_stamp" where
  "stamp HS s = \<lparr>stamp_epoch = cs_epoch s, stamp_snapshot_hash = HS s\<rparr>"

datatype epoch_error =
    SnapshotHash nat | EpochGap nat | StampMissing uuid | StampUnexpected uuid | StampDiffers uuid
  | SnapshotDiffers uuid | SnapshotUnknown uuid

fun verify_snapshots_from :: "snapshot_digest \<Rightarrow> nat \<Rightarrow> (capability_snapshot \<times> string) list \<Rightarrow> epoch_error + unit" where
  "verify_snapshots_from HS expected [] = Inr ()"
| "verify_snapshots_from HS expected ((snap, recorded) # rs) =
     (if HS snap \<noteq> recorded then Inl (SnapshotHash (cs_epoch snap))
      else if cs_epoch snap \<noteq> expected then Inl (EpochGap (cs_epoch snap))
      else verify_snapshots_from HS (Suc expected) rs)"

definition verify_snapshots :: "snapshot_digest \<Rightarrow> (capability_snapshot \<times> string) list \<Rightarrow> epoch_error + unit" where
  "verify_snapshots HS records = verify_snapshots_from HS 1 records"

definition verify_receipt_epoch ::
  "(uuid \<Rightarrow> authorization_stamp option) \<Rightarrow> (uuid \<Rightarrow> nat \<Rightarrow> string option) \<Rightarrow> effect_receipt \<Rightarrow> epoch_error + unit" where
  "verify_receipt_epoch decision_of snapshot_hash_of r =
     (case (er_authorization r, decision_of (er_tool_call_id r)) of
        (None, None) \<Rightarrow> Inr ()
      | (None, Some d) \<Rightarrow> Inl (StampMissing (er_effect_id r))
      | (Some a, None) \<Rightarrow> Inl (StampUnexpected (er_effect_id r))
      | (Some a, Some d) \<Rightarrow>
          if a \<noteq> d then Inl (StampDiffers (er_effect_id r))
          else (case snapshot_hash_of (er_task_id r) (stamp_epoch a) of
                  Some h \<Rightarrow> if h = stamp_snapshot_hash a then Inr () else Inl (SnapshotDiffers (er_effect_id r))
                | None \<Rightarrow> Inl (SnapshotUnknown (er_effect_id r))))"

fun verify_receipt_epochs ::
  "(uuid \<Rightarrow> authorization_stamp option) \<Rightarrow> (uuid \<Rightarrow> nat \<Rightarrow> string option) \<Rightarrow> effect_receipt list \<Rightarrow> epoch_error + unit" where
  "verify_receipt_epochs decision_of snapshot_hash_of [] = Inr ()"
| "verify_receipt_epochs decision_of snapshot_hash_of (r # rs) =
     rbind (verify_receipt_epoch decision_of snapshot_hash_of r)
       (\<lambda>_. verify_receipt_epochs decision_of snapshot_hash_of rs)"

lemma verify_snapshots_from_ok:
  "verify_snapshots_from HS n rs = Inr () \<longleftrightarrow>
     (\<forall>i < length rs. cs_epoch (fst (rs ! i)) = n + i \<and> snd (rs ! i) = HS (fst (rs ! i)))"
proof (induction HS n rs rule: verify_snapshots_from.induct)
  case (2 HS n snap recorded rs)
  have split: "(\<forall>i < length ((snap, recorded) # rs). P (((snap, recorded) # rs) ! i) (n + i)) \<longleftrightarrow>
      P (snap, recorded) n \<and> (\<forall>i < length rs. P (rs ! i) (Suc n + i))" for P
    by (auto simp: nth_Cons split: nat.splits)
  show ?case using 2 split [of "\<lambda>p k. cs_epoch (fst p) = k \<and> snd p = HS (fst p)"] by auto
qed simp

lemma verify_receipt_epochs_ok:
  "verify_receipt_epochs dof sof rs = Inr () \<longleftrightarrow>
     (\<forall>r \<in> set rs. er_authorization r = dof (er_tool_call_id r) \<and>
        (\<forall>a. er_authorization r = Some a \<longrightarrow>
           sof (er_task_id r) (stamp_epoch a) = Some (stamp_snapshot_hash a)))"
  by (induction rs)
    (auto simp: rbind_eq_Inr verify_receipt_epoch_def split: option.splits if_splits)

end
