(* ===== verification/Projections.thy ===== *)
theory Projections
  imports Envelope Ledger
begin

text \<open>
  \<open>crates/event-store/src/projections.rs\<close>: the tables derived from the log. A table is a map
  from its primary key to the aggregate its row encodes; the receipt table is the list of its
  rows by \<open>seq\<close>. Modelled are the rows of sessions, tasks, runs, turns, steps, tool calls,
  approvals and leases, the receipt chain, projects and their members, the check on an
  assistant stream and the cursor. Derived side tables (compactions, checkpoints, graphs,
  protocol state, verification and routing rows, memory, automations) are not: their events only
  move the cursor here. Every SQL failure these statements can have is left out, except a taken
  primary key of \<open>projects\<close>: no foreign key, no \<open>UNIQUE\<close> column that \<open>INSERT OR REPLACE\<close> would
  free, no error of a side table. So the model accepts every event the code accepts, and some
  the code would roll back. An inline payload is the value stored; that SQLite returns the text
  written to it, and that a lease epoch fits its \<open>i64\<close> column, is assumed.
\<close>

record stored_event =
  se_offset :: nat
  se_envelope :: event_envelope

record project_record =
  pj_name :: string
  pj_name_key :: string
  pj_color :: string
  pj_icon :: string
  pj_workspace_root :: string
  pj_archived :: bool
  pj_created_at :: timestamp
  pj_updated_at :: timestamp
  pj_created_offset :: nat
  pj_last_offset :: nat

record project_member =
  pm_project_id :: uuid
  pm_added_at :: timestamp
  pm_added_offset :: nat

text \<open>The two tables by primary key, in key order: \<open>projects\<close>, and \<open>project_members\<close> by task.\<close>

record project_tables =
  pt_projects :: "(uuid \<times> project_record) list"
  pt_members :: "(uuid \<times> project_member) list"

record projections =
  pr_sessions :: "uuid \<rightharpoonup> session"
  pr_tasks :: "uuid \<rightharpoonup> task"
  pr_runs :: "uuid \<rightharpoonup> run"
  pr_turns :: "uuid \<rightharpoonup> turn"
  pr_steps :: "uuid \<rightharpoonup> run_step"
  pr_tool_calls :: "uuid \<rightharpoonup> tool_call"
  pr_approvals :: "uuid \<rightharpoonup> approval"
  pr_leases :: "uuid \<rightharpoonup> capability_lease"
  pr_receipts :: "effect_receipt list"
  pr_projects :: project_tables
  pr_last_offset :: nat

datatype store_error =
    SequenceConflict nat nat
  | StaleLease nat nat
  | ReceiptChainStale "string option" "string option"
  | Integrity nat
  | ObjectUnreadable string
  | ProjectionInvalid nat invalid_transition
  | ProjectionStream nat stream_refusal
  | ProjectionProject nat string
  | BadJson
  | UniqueViolation
  | IdempotencyConflict uuid
  | RelaxedRefused

type_synonym objects = "string \<rightharpoonup> string"

text \<open>\<open>ObjectStore::get\<close>: the bytes, when they are there and have the digest asked for.\<close>

definition object_get :: "codec \<Rightarrow> objects \<Rightarrow> string \<Rightarrow> store_error + string" where
  "object_get c objs h = (case objs h of
     None \<Rightarrow> Inl (ObjectUnreadable h)
   | Some bytes \<Rightarrow> if c_sha c bytes = h then Inr bytes else Inl (ObjectUnreadable h))"

definition object_put :: "codec \<Rightarrow> objects \<Rightarrow> string \<Rightarrow> objects \<times> string" where
  "object_put c objs bytes = (let h = c_sha c bytes in
     (if objs h \<noteq> None then objs else objs(h \<mapsto> bytes), h))"

definition payload_json :: "codec \<Rightarrow> objects \<Rightarrow> stored_event \<Rightarrow> store_error + payload" where
  "payload_json c objs ev = (case ev_payload (se_envelope ev) of
     Inline p \<Rightarrow> Inr p
   | Object h _ \<Rightarrow>
       rbind (object_get c objs h)
         (\<lambda>bytes. case c_parse c bytes of None \<Rightarrow> Inl BadJson | Some p \<Rightarrow> Inr p))"

text \<open>
  The pattern of every aggregate arm: load the row or create it from the event, then apply
  the event unless it is the first. A refused event aborts the transaction, so what \<open>apply\<close>
  wrote before it failed is gone.
\<close>

definition project_row ::
  "(uuid \<Rightarrow> 'e \<Rightarrow> timestamp \<Rightarrow> invalid_transition + 'a) \<Rightarrow>
   ('a \<Rightarrow> 'e \<Rightarrow> timestamp \<Rightarrow> 'a \<times> (invalid_transition + unit)) \<Rightarrow>
   'a option \<Rightarrow> nat \<Rightarrow> nat \<Rightarrow> uuid \<Rightarrow> 'e \<Rightarrow> timestamp \<Rightarrow> store_error + 'a" where
  "project_row cr ap row offset sequence i ev at =
     rbind (case row of Some s \<Rightarrow> Inr s | None \<Rightarrow> map_err (ProjectionInvalid offset) (cr i ev at))
       (\<lambda>s. if sequence > 1
             then (case ap s ev at of (s', Inl e) \<Rightarrow> Inl (ProjectionInvalid offset e) | (s', Inr _) \<Rightarrow> Inr s')
             else Inr s)"

definition last_receipt_hash :: "projections \<Rightarrow> string option" where
  "last_receipt_hash p =
     (if pr_receipts p = [] then None else Some (er_receipt_hash (last (pr_receipts p))))"

text \<open>\<open>INSERT OR IGNORE\<close> on the primary key \<open>effect_id\<close>, with the next \<open>seq\<close>.\<close>

definition insert_receipt :: "projections \<Rightarrow> effect_receipt \<Rightarrow> projections" where
  "insert_receipt p r =
     (if er_effect_id r \<in> er_effect_id ` set (pr_receipts p) then p
      else p\<lparr>pr_receipts := pr_receipts p @ [r]\<rparr>)"

text \<open>
  The approvals table has no consumption column: \<open>load_approval\<close> reads it off the dispatch
  of the bound call.
\<close>

definition load_approval :: "projections \<Rightarrow> uuid \<Rightarrow> approval option" where
  "load_approval p i =
     map_option (\<lambda>a. a\<lparr>ap_consumed_at :=
         (case pr_tool_calls p (ap_tool_call_id a) of None \<Rightarrow> None | Some t \<Rightarrow> tc_dispatched_at t)\<rparr>)
       (pr_approvals p i)"

text \<open>The type name at \<open>sequence - 1\<close> of the aggregate, read from the log.\<close>

definition event_type_at :: "stored_event list \<Rightarrow> uuid \<Rightarrow> nat \<Rightarrow> string option" where
  "event_type_at log i sequence =
     map_option (\<lambda>e. ev_event_type (se_envelope e))
       (find (\<lambda>e. ev_aggregate_id (se_envelope e) = i \<and> ev_sequence (se_envelope e) = sequence) log)"

text \<open>\<open>project_project\<close>: an \<open>UPDATE\<close> of one project, with the number of rows it touched checked.\<close>

definition update_project :: "(project_record \<Rightarrow> project_record) \<Rightarrow> uuid \<Rightarrow> project_tables \<Rightarrow> project_tables" where
  "update_project f i t = (case map_of (pt_projects t) i of
     None \<Rightarrow> t
   | Some r \<Rightarrow> t\<lparr>pt_projects := bt_insert i (f r) (pt_projects t)\<rparr>)"

definition touched :: "nat \<Rightarrow> string \<Rightarrow> uuid \<Rightarrow> project_tables \<Rightarrow> store_error + unit" where
  "touched off what i t =
     (if map_of (pt_projects t) i = None
      then Inl (ProjectionProject off (what @ '' names a project that does not exist'')) else Inr ())"

definition project_project ::
  "nat \<Rightarrow> timestamp \<Rightarrow> project_tables \<Rightarrow> proj_event \<Rightarrow> store_error + project_tables" where
  "project_project off at t e = (case e of
     ProjectCreated i name color icon root \<Rightarrow>
       if map_of (pt_projects t) i \<noteq> None then Inl UniqueViolation
       else Inr (t\<lparr>pt_projects := bt_insert i \<lparr>pj_name = name, pj_name_key = name_key name,
         pj_color = color, pj_icon = icon, pj_workspace_root = root, pj_archived = False,
         pj_created_at = at, pj_updated_at = at, pj_created_offset = off, pj_last_offset = off\<rparr>
         (pt_projects t)\<rparr>)
   | ProjectRenamed i name color icon \<Rightarrow>
       rbind (touched off ''ProjectRenamed'' i t) (\<lambda>_. Inr (update_project
         (\<lambda>r. r\<lparr>pj_name := name, pj_name_key := name_key name, pj_color := color, pj_icon := icon,
           pj_updated_at := at, pj_last_offset := off\<rparr>) i t))
   | ProjectArchived i \<Rightarrow>
       rbind (touched off ''ProjectArchived'' i t) (\<lambda>_. Inr (update_project
         (\<lambda>r. r\<lparr>pj_archived := True, pj_updated_at := at, pj_last_offset := off\<rparr>) i t))
   | ProjectUnarchived i \<Rightarrow>
       rbind (touched off ''ProjectUnarchived'' i t) (\<lambda>_. Inr (update_project
         (\<lambda>r. r\<lparr>pj_archived := False, pj_updated_at := at, pj_last_offset := off\<rparr>) i t))
   | ProjectMemberAdded i task \<Rightarrow>
       rbind (touched off ''ProjectMemberAdded'' i t) (\<lambda>_.
         let t1 = update_project (\<lambda>r. r\<lparr>pj_updated_at := at, pj_last_offset := off\<rparr>) i t in
         case map_of (pt_members t1) task of
           Some held \<Rightarrow>
             if pm_project_id held \<noteq> i
             then Inl (ProjectionProject off ''ProjectMemberAdded names a task another project holds'')
             else Inr t1
         | None \<Rightarrow> Inr (t1\<lparr>pt_members := bt_insert task
             \<lparr>pm_project_id = i, pm_added_at = at, pm_added_offset = off\<rparr> (pt_members t1)\<rparr>))
   | ProjectMemberRemoved i task \<Rightarrow>
       let t1 = update_project (\<lambda>r. r\<lparr>pj_updated_at := at, pj_last_offset := off\<rparr>) i t in
       Inr (t1\<lparr>pt_members := filter (\<lambda>(k, m). \<not> (k = task \<and> pm_project_id m = i)) (pt_members t1)\<rparr>))"

definition project_event ::
  "stored_event list \<Rightarrow> projections \<Rightarrow> stored_event \<Rightarrow> payload \<Rightarrow> store_error + projections" where
  "project_event log p ev pl =
     (let env = se_envelope ev; off = se_offset ev; sq = ev_sequence env;
          i = ev_aggregate_id env; at = ev_occurred_at env in
      case ev_aggregate_type env of
        AggSession \<Rightarrow>
          (case pl of PSession e \<Rightarrow>
             rbind (project_row session_create session_apply (pr_sessions p i) off sq i e at)
               (\<lambda>s. Inr (p\<lparr>pr_sessions := (pr_sessions p)(session_id s \<mapsto> s)\<rparr>))
           | _ \<Rightarrow> Inl BadJson)
      | AggTask \<Rightarrow>
          (case pl of PTask e \<Rightarrow>
             rbind (project_row task_create task_apply (pr_tasks p i) off sq i e at)
               (\<lambda>s. Inr (p\<lparr>pr_tasks := (pr_tasks p)(task_id s \<mapsto> s)\<rparr>))
           | _ \<Rightarrow> Inl BadJson)
      | AggRun \<Rightarrow>
          (case pl of PRun e \<Rightarrow>
             rbind (project_row run_create run_apply (pr_runs p i) off sq i e at)
               (\<lambda>s. Inr (p\<lparr>pr_runs := (pr_runs p)(run_id s \<mapsto> s)\<rparr>))
           | _ \<Rightarrow> Inl BadJson)
      | AggTurn \<Rightarrow>
          (case pl of PTurn e \<Rightarrow>
             rbind (project_row turn_create turn_apply (pr_turns p i) off sq i e at)
               (\<lambda>s. Inr (p\<lparr>pr_turns := (pr_turns p)(turn_id s \<mapsto> s)\<rparr>))
           | _ \<Rightarrow> Inl BadJson)
      | AggRunStep \<Rightarrow>
          (case pl of PStep e \<Rightarrow>
             rbind (project_row step_create step_apply (pr_steps p i) off sq i e at)
               (\<lambda>s. Inr (p\<lparr>pr_steps := (pr_steps p)(step_id s \<mapsto> s)\<rparr>))
           | _ \<Rightarrow> Inl BadJson)
      | AggToolCall \<Rightarrow>
          (case pl of PToolCall e \<Rightarrow>
             rbind (project_row tool_call_create tool_call_apply (pr_tool_calls p i) off sq i e at)
               (\<lambda>s. let p' = (case e of EffectReceiptAppended r \<Rightarrow> insert_receipt p r | _ \<Rightarrow> p)
                    in Inr (p'\<lparr>pr_tool_calls := (pr_tool_calls p')(tc_tool_call_id s \<mapsto> s)\<rparr>))
           | _ \<Rightarrow> Inl BadJson)
      | AggApproval \<Rightarrow>
          (case pl of PApproval e \<Rightarrow>
             rbind (project_row approval_create approval_apply (load_approval p i) off sq i e at)
               (\<lambda>s. Inr (p\<lparr>pr_approvals :=
                    (pr_approvals p)(ap_approval_id s \<mapsto> s\<lparr>ap_consumed_at := None\<rparr>)\<rparr>))
           | _ \<Rightarrow> Inl BadJson)
      | AggCapabilityLease \<Rightarrow>
          (case pl of PLease e \<Rightarrow>
             rbind (project_row lease_create lease_apply (pr_leases p i) off sq i e at)
               (\<lambda>s. Inr (p\<lparr>pr_leases := (pr_leases p)(cl_lease_id s \<mapsto> s)\<rparr>))
           | _ \<Rightarrow> Inl BadJson)
      | AggAssistantStream \<Rightarrow>
          (case pl of PStream e \<Rightarrow>
             rbind (map_err (ProjectionStream off)
                 (check_next i sq (if sq > 1 then event_type_at log i (sq - 1) else None) e))
               (\<lambda>_. Inr p)
           | _ \<Rightarrow> Inl BadJson)
      | AggProject \<Rightarrow>
          (case pl of PProject e \<Rightarrow>
             rbind (project_project off at (pr_projects p) e) (\<lambda>t. Inr (p\<lparr>pr_projects := t\<rparr>))
           | _ \<Rightarrow> Inl BadJson)
      | _ \<Rightarrow> Inr p)"

definition project :: "codec \<Rightarrow> objects \<Rightarrow> stored_event list \<Rightarrow> projections \<Rightarrow> stored_event \<Rightarrow> store_error + projections" where
  "project c objs log p ev =
     rbind (payload_json c objs ev) (\<lambda>pl.
       rbind (project_event log p ev pl) (\<lambda>p'. Inr (p'\<lparr>pr_last_offset := se_offset ev\<rparr>)))"

definition no_projects :: project_tables where
  "no_projects = \<lparr>pt_projects = [], pt_members = []\<rparr>"

definition empty_projections :: projections where
  "empty_projections = \<lparr>
     pr_sessions = Map.empty, pr_tasks = Map.empty, pr_runs = Map.empty, pr_turns = Map.empty,
     pr_steps = Map.empty, pr_tool_calls = Map.empty, pr_approvals = Map.empty,
     pr_leases = Map.empty, pr_receipts = [], pr_projects = no_projects, pr_last_offset = 0\<rparr>"

fun project_all :: "codec \<Rightarrow> objects \<Rightarrow> stored_event list \<Rightarrow> projections \<Rightarrow> stored_event list \<Rightarrow> store_error + projections" where
  "project_all c objs log p [] = Inr p"
| "project_all c objs log p (ev # evs) =
     rbind (project c objs log p ev) (\<lambda>p'. project_all c objs log p' evs)"

text \<open>\<open>rebuild\<close>: empty the tables, then apply every event of the log in offset order.\<close>

definition rebuild :: "codec \<Rightarrow> objects \<Rightarrow> stored_event list \<Rightarrow> store_error + (projections \<times> nat)" where
  "rebuild c objs log =
     rbind (project_all c objs log empty_projections log) (\<lambda>p. Inr (p, length log))"

text \<open>\<open>read_project_rows\<close>: the columns the check compares, each table in key order.\<close>

definition read_project_rows ::
  "project_tables \<Rightarrow> (uuid \<times> string \<times> string \<times> bool \<times> nat) list \<times> (uuid \<times> uuid \<times> nat) list" where
  "read_project_rows t =
     (map (\<lambda>(i, r). (i, pj_name r, pj_workspace_root r, pj_archived r, pj_last_offset r)) (pt_projects t),
      map (\<lambda>(k, m). (k, pm_project_id m, pm_added_offset m)) (pt_members t))"

fun replay_projects :: "codec \<Rightarrow> objects \<Rightarrow> project_tables \<Rightarrow> stored_event list \<Rightarrow> store_error + project_tables" where
  "replay_projects c objs t [] = Inr t"
| "replay_projects c objs t (ev # evs) =
     (if ev_aggregate_type (se_envelope ev) = AggProject
      then rbind (payload_json c objs ev) (\<lambda>pl. case pl of
          PProject e \<Rightarrow> rbind (project_project (se_offset ev) (ev_occurred_at (se_envelope ev)) t e)
            (\<lambda>t'. replay_projects c objs t' evs)
        | _ \<Rightarrow> Inl BadJson)
      else replay_projects c objs t evs)"

definition project_tables_agree_with_log ::
  "codec \<Rightarrow> objects \<Rightarrow> stored_event list \<Rightarrow> project_tables \<Rightarrow> store_error + bool" where
  "project_tables_agree_with_log c objs log t =
     rbind (replay_projects c objs no_projects log) (\<lambda>t'. Inr (read_project_rows t' = read_project_rows t))"

section \<open>Lemmas\<close>

text \<open>No stored object has the digest of \<open>bytes\<close> but other content.\<close>

definition object_fresh :: "codec \<Rightarrow> objects \<Rightarrow> string \<Rightarrow> bool" where
  "object_fresh c objs bytes \<longleftrightarrow> objs (c_sha c bytes) \<in> {None, Some bytes}"

lemma snd_object_put [simp]: "snd (object_put c objs bytes) = c_sha c bytes"
  by (simp add: object_put_def Let_def)

lemma object_put_get:
  "object_fresh c objs bytes \<Longrightarrow>
     object_get c (fst (object_put c objs bytes)) (c_sha c bytes) = Inr bytes"
  by (cases "objs (c_sha c bytes)") (simp_all add: object_put_def object_get_def object_fresh_def Let_def)

lemma object_get_Inr: "object_get c objs k = Inr b \<longleftrightarrow> objs k = Some b \<and> c_sha c b = k"
  by (cases "objs k") (auto simp: object_get_def)

lemma object_put_keeps:
  "object_get c objs k = Inr b \<Longrightarrow> object_get c (fst (object_put c objs bytes)) k = Inr b"
  by (cases "k = c_sha c bytes") (simp_all add: object_get_Inr object_put_def Let_def)

lemma project_all_append:
  "project_all c objs log p (xs @ ys) =
     rbind (project_all c objs log p xs) (\<lambda>q. project_all c objs log q ys)"
proof (induction xs arbitrary: p)
  case (Cons x xs)
  then show ?case by (cases "project c objs log p x") simp_all
qed simp

lemma project_event_keeps_offset:
  "project_event log p ev pl = Inr p' \<Longrightarrow> pr_last_offset p' = pr_last_offset p"
  by (cases "ev_aggregate_type (se_envelope ev)"; cases pl)
    (auto simp: project_event_def Let_def rbind_eq_Inr insert_receipt_def
      split: tool_call_event.splits if_splits)

text \<open>Only \<open>Project\<close> events write the project tables, so the check replays what the projection did.\<close>

lemma project_event_projects:
  assumes "project_event log p ev pl = Inr p'"
  shows "(if ev_aggregate_type (se_envelope ev) = AggProject
     then \<exists>e. pl = PProject e \<and>
       project_project (se_offset ev) (ev_occurred_at (se_envelope ev)) (pr_projects p) e = Inr (pr_projects p')
     else pr_projects p' = pr_projects p)"
  using assms
  by (cases "ev_aggregate_type (se_envelope ev)"; cases pl)
    (auto simp: project_event_def Let_def rbind_eq_Inr insert_receipt_def
      split: tool_call_event.splits if_splits)

lemma replay_projects_agrees:
  "project_all c objs log p evs = Inr p' \<Longrightarrow> replay_projects c objs (pr_projects p) evs = Inr (pr_projects p')"
proof (induction evs arbitrary: p)
  case (Cons ev evs)
  obtain pl q where pl: "payload_json c objs ev = Inr pl" and q: "project_event log p ev pl = Inr q"
    and rest: "project_all c objs log (q\<lparr>pr_last_offset := se_offset ev\<rparr>) evs = Inr p'"
    using Cons.prems by (auto simp: project_def rbind_eq_Inr)
  have "replay_projects c objs (pr_projects q) evs = Inr (pr_projects p')"
    using Cons.IH [OF rest] by simp
  then show ?case using project_event_projects [OF q] pl by (auto split: if_splits)
qed simp

lemma project_tables_agree:
  assumes "project_all c objs log empty_projections log = Inr p"
  shows "project_tables_agree_with_log c objs log t = Inr (read_project_rows (pr_projects p) = read_project_rows t)"
  using replay_projects_agrees [OF assms]
  by (simp add: project_tables_agree_with_log_def empty_projections_def)

section \<open>Members of projects\<close>

text \<open>A row of \<open>project_members\<close> names a project that exists, and each table has its keys in order.\<close>

definition projects_ok :: "project_tables \<Rightarrow> bool" where
  "projects_ok t \<longleftrightarrow> sorted_wrt (<) (map fst (pt_projects t)) \<and> sorted_wrt (<) (map fst (pt_members t))
   \<and> (\<forall>k m. map_of (pt_members t) k = Some m \<longrightarrow> map_of (pt_projects t) (pm_project_id m) \<noteq> None)"

lemma projects_ok_empty: "projects_ok no_projects"
  by (simp add: projects_ok_def no_projects_def)

lemma update_project_members [simp]: "pt_members (update_project f i t) = pt_members t"
  by (simp add: update_project_def split: option.splits)

lemma update_project_dom: "map_of (pt_projects (update_project f i t)) j = None \<longleftrightarrow> map_of (pt_projects t) j = None"
  by (auto simp: update_project_def split: option.splits)

lemma update_project_ok: "projects_ok t \<Longrightarrow> projects_ok (update_project f i t)"
  by (simp add: projects_ok_def update_project_dom) (simp add: update_project_def sorted_bt_insert split: option.splits)

lemma touched_Inr: "touched off what i t = Inr u \<longleftrightarrow> map_of (pt_projects t) i \<noteq> None"
  by (simp add: touched_def)

lemma map_of_filter_keys:
  fixes k :: "'k::linorder"
  assumes "sorted_wrt (<) (map fst m)"
  shows "map_of (filter P m) k = Some v \<longleftrightarrow> map_of m k = Some v \<and> P (k, v)"
proof -
  have "distinct (map fst m)" using assms by (simp add: strict_sorted_iff)
  then show ?thesis by (simp add: map_of_eq_Some_iff distinct_map_filter)
qed

lemma projects_ok_add:
  assumes "projects_ok t" "map_of (pt_projects t) (pm_project_id m) \<noteq> None"
  shows "projects_ok (t\<lparr>pt_members := bt_insert k m (pt_members t)\<rparr>)"
  using assms by (auto simp: projects_ok_def sorted_bt_insert)

lemma projects_ok_remove:
  assumes "projects_ok t" "ms = pt_members t"
  shows "projects_ok (t\<lparr>pt_members := filter P ms\<rparr>)"
  using assms map_of_filter_keys [of "pt_members t" P]
  by (auto simp: projects_ok_def sorted_wrt_filter sorted_wrt_map)

lemma projects_ok_create:
  assumes "projects_ok t"
  shows "projects_ok (t\<lparr>pt_projects := bt_insert i r (pt_projects t)\<rparr>)"
  using assms by (auto simp: projects_ok_def sorted_bt_insert)

lemma project_project_ok:
  assumes "projects_ok t" "project_project off at t e = Inr t'"
  shows "projects_ok t'"
proof (cases e)
  case (ProjectMemberAdded i task)
  let ?t1 = "update_project (\<lambda>r. r\<lparr>pj_updated_at := at, pj_last_offset := off\<rparr>) i t"
  have t1: "projects_ok ?t1" "map_of (pt_projects ?t1) i \<noteq> None"
    using assms ProjectMemberAdded by (simp_all add: project_project_def rbind_eq_Inr update_project_ok
        update_project_dom touched_Inr)
  then show ?thesis using assms(2) ProjectMemberAdded projects_ok_add [OF t1(1)]
    by (auto simp: project_project_def Let_def rbind_eq_Inr split: option.splits if_splits)
qed (use assms in \<open>auto simp: project_project_def Let_def rbind_eq_Inr projects_ok_create
      update_project_ok projects_ok_remove split: if_splits\<close>)

lemma replay_projects_ok:
  "projects_ok t \<Longrightarrow> replay_projects c objs t evs = Inr t' \<Longrightarrow> projects_ok t'"
proof (induction evs arbitrary: t)
  case (Cons ev evs)
  show ?case
  proof (cases "ev_aggregate_type (se_envelope ev) = AggProject")
    case True
    with Cons.prems(2) obtain e t1 where
      "project_project (se_offset ev) (ev_occurred_at (se_envelope ev)) t e = Inr t1"
      "replay_projects c objs t1 evs = Inr t'"
      by (auto simp: rbind_eq_Inr split: payload.splits) (metis payload.exhaust)
    then show ?thesis using Cons.IH project_project_ok [OF Cons.prems(1)] by blast
  qed (use Cons in simp)
qed simp

text \<open>The \<open>Project\<close> events of a log, and the tasks an event list leaves in a project: added, and not
  removed since.\<close>

fun project_log :: "codec \<Rightarrow> objects \<Rightarrow> stored_event list \<Rightarrow> proj_event list" where
  "project_log c objs [] = []"
| "project_log c objs (ev # evs) =
     (case (ev_aggregate_type (se_envelope ev), payload_json c objs ev) of
        (AggProject, Inr (PProject e)) \<Rightarrow> e # project_log c objs evs
      | _ \<Rightarrow> project_log c objs evs)"

definition added_last :: "proj_event list \<Rightarrow> uuid \<Rightarrow> uuid \<Rightarrow> bool" where
  "added_last es i task \<longleftrightarrow>
     (\<exists>xs ys. es = xs @ ProjectMemberAdded i task # ys \<and> ProjectMemberRemoved i task \<notin> set ys)"

definition project_of_task :: "project_tables \<Rightarrow> uuid \<Rightarrow> uuid option" where
  "project_of_task t task = map_option pm_project_id (map_of (pt_members t) task)"

lemma added_last_snoc:
  "added_last (es @ [e]) i k \<longleftrightarrow>
     e = ProjectMemberAdded i k \<or> added_last es i k \<and> e \<noteq> ProjectMemberRemoved i k"
proof
  assume "added_last (es @ [e]) i k"
  then obtain xs ys where "es @ [e] = xs @ ProjectMemberAdded i k # ys" "ProjectMemberRemoved i k \<notin> set ys"
    by (auto simp: added_last_def)
  then show "e = ProjectMemberAdded i k \<or> added_last es i k \<and> e \<noteq> ProjectMemberRemoved i k"
    by (cases ys rule: rev_cases) (auto simp: added_last_def)
next
  assume "e = ProjectMemberAdded i k \<or> added_last es i k \<and> e \<noteq> ProjectMemberRemoved i k"
  then show "added_last (es @ [e]) i k"
  proof
    assume "e = ProjectMemberAdded i k"
    then show ?thesis unfolding added_last_def by (intro exI [of _ es] exI [of _ "[]"]) simp
  next
    assume "added_last es i k \<and> e \<noteq> ProjectMemberRemoved i k"
    then obtain xs ys where "es @ [e] = xs @ ProjectMemberAdded i k # (ys @ [e])"
      "ProjectMemberRemoved i k \<notin> set (ys @ [e])" by (auto simp: added_last_def)
    then show ?thesis unfolding added_last_def by blast
  qed
qed

lemma project_of_task_update [simp]: "project_of_task (update_project f i t) k = project_of_task t k"
  by (simp add: project_of_task_def)

lemma project_project_members:
  assumes "projects_ok t" "project_project off at t e = Inr t'"
  shows "project_of_task t' k = Some i \<longleftrightarrow>
     e = ProjectMemberAdded i k \<or> project_of_task t k = Some i \<and> e \<noteq> ProjectMemberRemoved i k"
proof (cases e)
  case (ProjectMemberAdded j task)
  then show ?thesis using assms(2)
    by (auto simp: project_project_def Let_def rbind_eq_Inr project_of_task_def split: option.splits if_splits)
next
  case (ProjectMemberRemoved j task)
  have "sorted_wrt (<) (map fst (pt_members t))" using assms(1) by (simp add: projects_ok_def)
  from map_of_filter_keys [OF this] show ?thesis using assms(2) ProjectMemberRemoved
    by (auto simp: project_project_def Let_def project_of_task_def)
qed (use assms(2) in \<open>auto simp: project_project_def Let_def rbind_eq_Inr project_of_task_def
      split: if_splits\<close>)

lemma replay_projects_members:
  assumes "replay_projects c objs t evs = Inr t'" "projects_ok t"
    and "\<And>k i. project_of_task t k = Some i \<longleftrightarrow> added_last acc i k"
  shows "project_of_task t' k = Some i \<longleftrightarrow> added_last (acc @ project_log c objs evs) i k"
  using assms
proof (induction evs arbitrary: t acc)
  case (Cons ev evs)
  show ?case
  proof (cases "ev_aggregate_type (se_envelope ev) = AggProject")
    case True
    with Cons.prems(1) obtain e t1 where pl: "payload_json c objs ev = Inr (PProject e)"
      and pp: "project_project (se_offset ev) (ev_occurred_at (se_envelope ev)) t e = Inr t1"
      and rest: "replay_projects c objs t1 evs = Inr t'"
      by (auto simp: rbind_eq_Inr split: payload.splits) (metis payload.exhaust)
    have "project_of_task t1 k = Some i \<longleftrightarrow> added_last (acc @ [e]) i k" for k i
      by (simp add: project_project_members [OF Cons.prems(2) pp] Cons.prems(3) added_last_snoc)
    from Cons.IH [OF rest project_project_ok [OF Cons.prems(2) pp] this] show ?thesis
      using True pl by simp
  next
    case False
    then have "project_log c objs (ev # evs) = project_log c objs evs"
      by (auto split: aggregate_type.splits)
    moreover have "replay_projects c objs t evs = Inr t'" using Cons.prems(1) False by simp
    ultimately show ?thesis using Cons.IH [OF _ Cons.prems(2,3)] by simp
  qed
qed simp

section \<open>Joining a project\<close>

definition members_of :: "project_tables \<Rightarrow> uuid \<Rightarrow> uuid list" where
  "members_of t i = map fst (filter (\<lambda>(k, m). pm_project_id m = i) (pt_members t))"

lemma length_filter_bt_insert: "length (filter P (bt_insert k v m)) \<le> Suc (length (filter P m))"
  by (induction k v m rule: bt_insert.induct) auto


definition sample_tables :: project_tables where
  "sample_tables = \<lparr>pt_projects = [(30, \<lparr>pj_name = ''Alpha'', pj_name_key = ''alpha'', pj_color = ''accent'',
     pj_icon = ''folder'', pj_workspace_root = ''/w'', pj_archived = False, pj_created_at = 1, pj_updated_at = 1,
     pj_created_offset = 1, pj_last_offset = 1\<rparr>)], pt_members = []\<rparr>"


end
