(* ===== verification/Event_Store.thy ===== *)
theory Event_Store
  imports Projections
begin

text \<open>
  \<open>crates/event-store/src/store.rs\<close>: the canonical event store. The \<open>events\<close> table is the
  list of its rows in offset order; a query is the filter and the sort it asks for. A
  transaction is a function on the store, and \<open>transact\<close> is its commit or roll back: on an
  error the database is as before, while objects already written to the content-addressed
  directory stay, as they do on disk.

  What the store gets from outside is the record \<open>world\<close>: the codec, the installed payload
  filter, and for every offset the fresh event id and the clock reading the event stored
  there got. That SQLite rolls a failed transaction back is assumed; its own failures are not
  modelled, except the unique indexes and, as arguments, whether \<open>PRAGMA synchronous\<close> could be
  set back and what \<open>PRAGMA integrity_check\<close> answered.
\<close>

section \<open>State\<close>

record new_event =
  ne_event_type :: string
  ne_payload :: payload
  ne_actor :: actor
  ne_causation_id :: "uuid option"
  ne_correlation_id :: "uuid option"
  ne_occurred_at :: "timestamp option"

record append_request =
  ar_tenant_id :: uuid
  ar_session_id :: uuid
  ar_task_id :: "uuid option"
  ar_run_id :: "uuid option"
  ar_turn_id :: "uuid option"
  ar_step_id :: "uuid option"
  ar_aggregate_type :: aggregate_type
  ar_aggregate_id :: uuid
  ar_expected_sequence :: "nat option"
  ar_events :: "new_event list"

record command_record =
  cmd_command_id :: uuid
  cmd_tenant_id :: uuid
  cmd_command_type :: string
  cmd_request_hash :: string

record command_row =
  cr_tenant_id :: uuid
  cr_command_type :: string
  cr_request_hash :: string
  cr_first_event_offset :: "nat option"
  cr_last_event_offset :: "nat option"
  cr_accepted_at :: timestamp

record event_store =
  st_log :: "stored_event list"
  st_next :: nat
  st_objects :: objects
  st_proj :: projections
  st_commands :: "uuid \<rightharpoonup> command_row"
  st_boot_generation :: "nat option"
  st_relaxed_stuck :: bool

type_synonym payload_filter = "string \<Rightarrow> payload \<Rightarrow> payload"

record world =
  w_codec :: codec
  w_filter :: "payload_filter option"
  w_event_id :: "nat \<Rightarrow> uuid"
  w_now :: "nat \<Rightarrow> timestamp"

datatype durability = Full | Relaxed

datatype command_outcome = Applied "stored_event list" | Replayed "stored_event list"

definition empty_store :: event_store where
  "empty_store = \<lparr>st_log = [], st_next = 1, st_objects = Map.empty, st_proj = empty_projections,
     st_commands = Map.empty, st_boot_generation = None, st_relaxed_stuck = False\<rparr>"

definition INLINE_PAYLOAD_CEILING :: nat where
  "INLINE_PAYLOAD_CEILING = 64 * 1024"

definition RECEIPT_EVENT :: string where
  "RECEIPT_EVENT = ''EffectReceiptAppended''"

section \<open>Reading\<close>

abbreviation se_seq :: "stored_event \<Rightarrow> nat" where
  "se_seq e \<equiv> ev_sequence (se_envelope e)"

abbreviation se_agg :: "stored_event \<Rightarrow> uuid" where
  "se_agg e \<equiv> ev_aggregate_id (se_envelope e)"

abbreviation se_hash :: "stored_event \<Rightarrow> string" where
  "se_hash e \<equiv> ev_integrity_hash (se_envelope e)"

text \<open>\<open>WHERE aggregate_id = a AND sequence > after ORDER BY sequence\<close>.\<close>

definition read_aggregate :: "event_store \<Rightarrow> uuid \<Rightarrow> nat \<Rightarrow> stored_event list" where
  "read_aggregate st a after =
     sort_key se_seq (filter (\<lambda>e. se_agg e = a \<and> after < se_seq e) (st_log st))"

definition head :: "event_store \<Rightarrow> uuid \<Rightarrow> nat \<times> string" where
  "head st a =
     (let es = sort_key se_seq (filter (\<lambda>e. se_agg e = a) (st_log st))
      in if es = [] then (0, []) else (se_seq (last es), se_hash (last es)))"

definition last_offset :: "event_store \<Rightarrow> nat" where
  "last_offset st = fold (\<lambda>e m. max m (se_offset e)) (st_log st) 0"

definition read_range :: "event_store \<Rightarrow> nat \<Rightarrow> nat \<Rightarrow> stored_event list" where
  "read_range st first lst =
     sort_key se_offset (filter (\<lambda>e. first \<le> se_offset e \<and> se_offset e \<le> lst) (st_log st))"

section \<open>Appending\<close>

definition filtered :: "world \<Rightarrow> append_request \<Rightarrow> append_request" where
  "filtered w req = (case w_filter w of
     None \<Rightarrow> req
   | Some f \<Rightarrow> req\<lparr>ar_events :=
       map (\<lambda>e. e\<lparr>ne_payload := f (ne_event_type e) (ne_payload e)\<rparr>) (ar_events req)\<rparr>)"

text \<open>\<open>ev.payload["receipt"]["previous_receipt_hash"].as_str()\<close>.\<close>

definition presented_hash :: "payload \<Rightarrow> string option" where
  "presented_hash p = (case p of
     PToolCall (EffectReceiptAppended r) \<Rightarrow> er_previous_receipt_hash r
   | _ \<Rightarrow> None)"

definition place_payload :: "codec \<Rightarrow> objects \<Rightarrow> payload \<Rightarrow> objects \<times> payload_ref" where
  "place_payload c objs p = (let txt = c_text c p in
     if length txt > INLINE_PAYLOAD_CEILING
     then (let (objs', h) = object_put c objs txt in (objs', Object h (length txt)))
     else (objs, Inline p))"

definition insert_event :: "event_store \<Rightarrow> event_envelope \<Rightarrow> store_error + event_store" where
  "insert_event st env =
     (if list_ex (\<lambda>e. ev_event_id (se_envelope e) = ev_event_id env
           \<or> se_agg e = ev_aggregate_id env \<and> se_seq e = ev_sequence env) (st_log st)
      then Inl UniqueViolation
      else Inr (st\<lparr>st_log := st_log st @ [\<lparr>se_offset = st_next st, se_envelope = env\<rparr>],
                   st_next := st_next st + 1\<rparr>))"

definition new_envelope ::
  "world \<Rightarrow> append_request \<Rightarrow> nat \<Rightarrow> nat \<Rightarrow> string \<Rightarrow> new_event \<Rightarrow> payload_ref \<Rightarrow> event_envelope" where
  "new_envelope w req offset sequence previous ev pref =
     (let env = \<lparr>
        ev_event_id = w_event_id w offset, ev_tenant_id = ar_tenant_id req,
        ev_session_id = ar_session_id req, ev_task_id = ar_task_id req, ev_run_id = ar_run_id req,
        ev_turn_id = ar_turn_id req, ev_step_id = ar_step_id req,
        ev_aggregate_type = ar_aggregate_type req, ev_aggregate_id = ar_aggregate_id req,
        ev_sequence = sequence, ev_event_type = ne_event_type ev,
        ev_schema_version = SCHEMA_VERSION,
        ev_occurred_at = (case ne_occurred_at ev of Some t \<Rightarrow> t | None \<Rightarrow> w_now w offset),
        ev_actor = ne_actor ev, ev_causation_id = ne_causation_id ev,
        ev_correlation_id = ne_correlation_id ev, ev_payload = pref, ev_integrity_hash = []\<rparr>
      in env\<lparr>ev_integrity_hash := chain_hash (w_codec w) previous env\<rparr>)"

text \<open>Insert the row and bring the projections up to it, in the same transaction.\<close>

definition insert_and_project :: "world \<Rightarrow> event_store \<Rightarrow> event_envelope \<Rightarrow> event_store \<times> (store_error + stored_event)" where
  "insert_and_project w st env = (case insert_event st env of
     Inl e \<Rightarrow> (st, Inl e)
   | Inr st1 \<Rightarrow>
       (let stored = \<lparr>se_offset = st_next st, se_envelope = env\<rparr> in
        case project (w_codec w) (st_objects st1) (st_log st1) (st_proj st1) stored of
          Inl e \<Rightarrow> (st1, Inl e)
        | Inr p \<Rightarrow> (st1\<lparr>st_proj := p\<rparr>, Inr stored)))"

definition append_event ::
  "world \<Rightarrow> append_request \<Rightarrow> event_store \<Rightarrow> nat \<Rightarrow> string \<Rightarrow> new_event \<Rightarrow> event_store \<times> (store_error + stored_event)" where
  "append_event w req st sequence previous ev =
     (let presented = presented_hash (ne_payload ev); tail = last_receipt_hash (st_proj st) in
      if ne_event_type ev = RECEIPT_EVENT \<and> presented \<noteq> tail
      then (st, Inl (ReceiptChainStale presented tail))
      else (let (objs, pref) = place_payload (w_codec w) (st_objects st) (ne_payload ev);
                st1 = st\<lparr>st_objects := objs\<rparr>
            in insert_and_project w st1 (new_envelope w req (st_next st) sequence previous ev pref)))"

fun append_events ::
  "world \<Rightarrow> append_request \<Rightarrow> event_store \<Rightarrow> nat \<Rightarrow> string \<Rightarrow> new_event list \<Rightarrow> event_store \<times> (store_error + stored_event list)" where
  "append_events w req st sequence previous [] = (st, Inr [])"
| "append_events w req st sequence previous (ev # evs) =
     (case append_event w req st sequence previous ev of
        (st1, Inl e) \<Rightarrow> (st1, Inl e)
      | (st1, Inr stored) \<Rightarrow>
          (case append_events w req st1 (Suc sequence) (se_hash stored) evs of
             (st2, Inl e) \<Rightarrow> (st2, Inl e)
           | (st2, Inr out) \<Rightarrow> (st2, Inr (stored # out))))"

definition append_in :: "world \<Rightarrow> event_store \<Rightarrow> append_request \<Rightarrow> event_store \<times> (store_error + stored_event list)" where
  "append_in w st req =
     (let (current, previous) = head st (ar_aggregate_id req) in
      case ar_expected_sequence req of
        Some expected \<Rightarrow>
          if expected \<noteq> current then (st, Inl (SequenceConflict expected current))
          else append_events w req st (current + 1) previous (ar_events req)
      | None \<Rightarrow> append_events w req st (current + 1) previous (ar_events req))"

fun append_reqs ::
  "world \<Rightarrow> (append_request \<Rightarrow> append_request) \<Rightarrow> event_store \<Rightarrow> append_request list \<Rightarrow> event_store \<times> (store_error + stored_event list)" where
  "append_reqs w pre st [] = (st, Inr [])"
| "append_reqs w pre st (req # reqs) =
     (case append_in w st (pre req) of
        (st1, Inl e) \<Rightarrow> (st1, Inl e)
      | (st1, Inr out) \<Rightarrow>
          (case append_reqs w pre st1 reqs of
             (st2, Inl e) \<Rightarrow> (st2, Inl e)
           | (st2, Inr outs) \<Rightarrow> (st2, Inr (out @ outs))))"

definition transact :: "event_store \<Rightarrow> event_store \<times> (store_error + 'a) \<Rightarrow> event_store \<times> (store_error + 'a)" where
  "transact st r = (case r of
     (st', Inl e) \<Rightarrow> (st\<lparr>st_objects := st_objects st'\<rparr>, Inl e)
   | (st', Inr x) \<Rightarrow> (st', Inr x))"

definition append_committed :: "world \<Rightarrow> event_store \<Rightarrow> append_request \<Rightarrow> event_store \<times> (store_error + stored_event list)" where
  "append_committed w st req = transact st (append_in w st req)"

definition lease_generation_of :: "event_store \<Rightarrow> uuid \<Rightarrow> nat" where
  "lease_generation_of st session =
     (case pr_sessions (st_proj st) session of None \<Rightarrow> 0 | Some s \<Rightarrow> session_lease_generation s)"

definition append_fenced_committed ::
  "world \<Rightarrow> event_store \<Rightarrow> append_request \<Rightarrow> nat \<Rightarrow> event_store \<times> (store_error + stored_event list)" where
  "append_fenced_committed w st req lease_generation =
     (let current = lease_generation_of st (ar_session_id req) in
      if current \<noteq> lease_generation then (st, Inl (StaleLease lease_generation current))
      else transact st (append_in w st (filtered w req)))"

definition enter_durability :: "event_store \<Rightarrow> append_request \<Rightarrow> durability \<Rightarrow> store_error + unit" where
  "enter_durability st req d =
     (if st_relaxed_stuck st then Inl RelaxedRefused
      else if d = Relaxed
        \<and> \<not> (ar_aggregate_type req = AggAssistantStream \<and> ar_events req \<noteq> []
              \<and> list_all (\<lambda>e. ne_event_type e = ''AssistantTextDelta'') (ar_events req))
      then Inl RelaxedRefused
      else Inr ())"

definition leave_durability ::
  "bool \<Rightarrow> durability \<Rightarrow> event_store \<times> (store_error + 'a) \<Rightarrow> event_store \<times> (store_error + 'a)" where
  "leave_durability pragma_fails d r =
     (if d = Relaxed \<and> pragma_fails
      then ((fst r)\<lparr>st_relaxed_stuck := True\<rparr>, Inl RelaxedRefused)
      else r)"

definition append_with ::
  "world \<Rightarrow> bool \<Rightarrow> event_store \<Rightarrow> append_request \<Rightarrow> durability \<Rightarrow> event_store \<times> (store_error + stored_event list)" where
  "append_with w pragma_fails st req d =
     (let req' = filtered w req in
      case enter_durability st req' d of
        Inl e \<Rightarrow> (st, Inl e)
      | Inr _ \<Rightarrow> leave_durability pragma_fails d (append_committed w st req'))"

definition append_fenced_with ::
  "world \<Rightarrow> bool \<Rightarrow> event_store \<Rightarrow> append_request \<Rightarrow> nat \<Rightarrow> durability \<Rightarrow> event_store \<times> (store_error + stored_event list)" where
  "append_fenced_with w pragma_fails st req lease_generation d =
     (case enter_durability st req d of
        Inl e \<Rightarrow> (st, Inl e)
      | Inr _ \<Rightarrow> leave_durability pragma_fails d (append_fenced_committed w st req lease_generation))"

section \<open>Batches, receipts, commands\<close>

type_synonym receipt_sealer = "effect_receipt \<Rightarrow> effect_receipt"

fun seal_events :: "receipt_sealer \<Rightarrow> string option \<Rightarrow> new_event list \<Rightarrow> store_error + (string option \<times> new_event list)" where
  "seal_events sealer tail [] = Inr (tail, [])"
| "seal_events sealer tail (ev # evs) =
     (if ne_event_type ev \<noteq> RECEIPT_EVENT
      then rbind (seal_events sealer tail evs) (\<lambda>(t, es). Inr (t, ev # es))
      else (case ne_payload ev of
          PToolCall (EffectReceiptAppended r) \<Rightarrow>
            (let sealed = sealer (r\<lparr>er_previous_receipt_hash := tail\<rparr>);
                 ev' = ev\<lparr>ne_payload := PToolCall (EffectReceiptAppended sealed)\<rparr>
             in rbind (seal_events sealer (Some (er_receipt_hash sealed)) evs)
                  (\<lambda>(t, es). Inr (t, ev' # es)))
        | PToolCall _ \<Rightarrow> rbind (seal_events sealer tail evs) (\<lambda>(t, es). Inr (t, ev # es))
        | _ \<Rightarrow> Inl BadJson))"

fun seal_requests :: "receipt_sealer \<Rightarrow> string option \<Rightarrow> append_request list \<Rightarrow> store_error + append_request list" where
  "seal_requests sealer tail [] = Inr []"
| "seal_requests sealer tail (req # reqs) =
     rbind (seal_events sealer tail (ar_events req)) (\<lambda>(t, es).
       rbind (seal_requests sealer t reqs) (\<lambda>rs. Inr (req\<lparr>ar_events := es\<rparr> # rs)))"

definition check_fence :: "event_store \<Rightarrow> append_request list \<Rightarrow> nat option \<Rightarrow> store_error + unit" where
  "check_fence st reqs lease_generation = (case (lease_generation, reqs) of
     (Some g, first # _) \<Rightarrow>
       (let current = lease_generation_of st (ar_session_id first) in
        if current \<noteq> g then Inl (StaleLease g current) else Inr ())
   | _ \<Rightarrow> Inr ())"

definition append_all_inner ::
  "world \<Rightarrow> event_store \<Rightarrow> append_request list \<Rightarrow> nat option \<Rightarrow> receipt_sealer option \<Rightarrow>
     event_store \<times> (store_error + stored_event list)" where
  "append_all_inner w st reqs lease_generation sealer =
     (case check_fence st reqs lease_generation of
        Inl e \<Rightarrow> (st, Inl e)
      | Inr _ \<Rightarrow>
          (case (case sealer of None \<Rightarrow> Inr reqs
                 | Some s \<Rightarrow> seal_requests s (last_receipt_hash (st_proj st)) reqs) of
             Inl e \<Rightarrow> (st, Inl e)
           | Inr reqs' \<Rightarrow> transact st (append_reqs w (filtered w) st reqs')))"

definition append_all ::
  "world \<Rightarrow> event_store \<Rightarrow> append_request list \<Rightarrow> nat option \<Rightarrow> event_store \<times> (store_error + stored_event list)" where
  "append_all w st reqs lease_generation = append_all_inner w st reqs lease_generation None"

definition append_all_chained ::
  "world \<Rightarrow> event_store \<Rightarrow> append_request list \<Rightarrow> nat option \<Rightarrow> receipt_sealer \<Rightarrow>
     event_store \<times> (store_error + stored_event list)" where
  "append_all_chained w st reqs lease_generation sealer =
     append_all_inner w st reqs lease_generation (Some sealer)"

definition prior_outcome :: "event_store \<Rightarrow> command_record \<Rightarrow> store_error + command_outcome option" where
  "prior_outcome st cmd = (case st_commands st (cmd_command_id cmd) of
     None \<Rightarrow> Inr None
   | Some row \<Rightarrow>
       if cr_request_hash row \<noteq> cmd_request_hash cmd
       then Inl (IdempotencyConflict (cmd_command_id cmd))
       else Inr (Some (Replayed
              (case (cr_first_event_offset row, cr_last_event_offset row) of
                 (Some f, Some l) \<Rightarrow> read_range st f l
               | _ \<Rightarrow> []))))"

definition execute_command_all ::
  "world \<Rightarrow> timestamp \<Rightarrow> event_store \<Rightarrow> command_record \<Rightarrow> append_request list \<Rightarrow> event_store \<times> (store_error + command_outcome)" where
  "execute_command_all w now st cmd reqs = (case prior_outcome st cmd of
     Inl e \<Rightarrow> (st, Inl e)
   | Inr (Some replayed) \<Rightarrow> (st, Inr replayed)
   | Inr None \<Rightarrow> transact st
       (case append_reqs w id st reqs of
          (st1, Inl e) \<Rightarrow> (st1, Inl e)
        | (st1, Inr events) \<Rightarrow>
            (st1\<lparr>st_commands := (st_commands st1)(cmd_command_id cmd \<mapsto> \<lparr>
                 cr_tenant_id = cmd_tenant_id cmd, cr_command_type = cmd_command_type cmd,
                 cr_request_hash = cmd_request_hash cmd,
                 cr_first_event_offset = (if events = [] then None else Some (se_offset (hd events))),
                 cr_last_event_offset = (if events = [] then None else Some (se_offset (last events))),
                 cr_accepted_at = now\<rparr>)\<rparr>,
             Inr (Applied events))))"

definition execute_command ::
  "world \<Rightarrow> timestamp \<Rightarrow> event_store \<Rightarrow> command_record \<Rightarrow> append_request \<Rightarrow> event_store \<times> (store_error + command_outcome)" where
  "execute_command w now st cmd req = execute_command_all w now st cmd [req]"

section \<open>Importing, verifying, recovering\<close>

definition import_payload ::
  "codec \<Rightarrow> objects \<Rightarrow> event_envelope \<Rightarrow> payload \<Rightarrow> objects \<times> (store_error + unit)" where
  "import_payload c objs env pl = (case ev_payload env of
     Inline _ \<Rightarrow> (objs, Inr ())
   | Object h _ \<Rightarrow>
       (let (objs', h') = object_put c objs (c_text c pl)
        in (objs', if h' \<noteq> h then Inl (Integrity (ev_sequence env)) else Inr ())))"

fun import_loop ::
  "world \<Rightarrow> event_store \<Rightarrow> nat \<Rightarrow> nat \<Rightarrow> nat \<Rightarrow> (event_envelope \<times> payload) list \<Rightarrow>
     event_store \<times> (store_error + nat \<times> nat \<times> nat)" where
  "import_loop w st imported present lst [] = (st, Inr (imported, present, lst))"
| "import_loop w st imported present lst ((env, pl) # evs) =
     (if list_ex (\<lambda>e. ev_event_id (se_envelope e) = ev_event_id env) (st_log st)
      then import_loop w st imported (present + 1) lst evs
      else (let (current, previous) = head st (ev_aggregate_id env) in
        if ev_sequence env \<noteq> current + 1
        then (st, Inl (SequenceConflict (current + 1) (ev_sequence env)))
        else if chain_hash (w_codec w) previous env \<noteq> ev_integrity_hash env
        then (st, Inl (Integrity (ev_sequence env)))
        else (let (objs, r) = import_payload (w_codec w) (st_objects st) env pl;
                  st1 = st\<lparr>st_objects := objs\<rparr>
              in case r of
                   Inl e \<Rightarrow> (st1, Inl e)
                 | Inr _ \<Rightarrow>
                     (case insert_and_project w st1 env of
                        (st2, Inl e) \<Rightarrow> (st2, Inl e)
                      | (st2, Inr stored) \<Rightarrow>
                          import_loop w st2 (imported + 1) present (se_offset stored) evs))))"

definition import_envelopes ::
  "world \<Rightarrow> event_store \<Rightarrow> (event_envelope \<times> payload) list \<Rightarrow> event_store \<times> (store_error + nat \<times> nat \<times> nat)" where
  "import_envelopes w st evs = transact st (import_loop w st 0 0 (last_offset st) evs)"

fun verify_events :: "codec \<Rightarrow> objects \<Rightarrow> nat \<Rightarrow> string \<Rightarrow> stored_event list \<Rightarrow> store_error + unit" where
  "verify_events c objs expected previous [] = Inr ()"
| "verify_events c objs expected previous (e # es) =
     (if se_seq e \<noteq> expected then Inl (Integrity (se_seq e))
      else if chain_hash c previous (se_envelope e) \<noteq> se_hash e then Inl (Integrity (se_seq e))
      else rbind (case ev_payload (se_envelope e) of
                    Object h _ \<Rightarrow> rbind (object_get c objs h) (\<lambda>_. Inr ())
                  | Inline _ \<Rightarrow> Inr ())
             (\<lambda>_. verify_events c objs (Suc expected) (se_hash e) es))"

definition verify_aggregate :: "world \<Rightarrow> event_store \<Rightarrow> uuid \<Rightarrow> store_error + nat" where
  "verify_aggregate w st a =
     (let es = read_aggregate st a 0 in
      rbind (verify_events (w_codec w) (st_objects st) 1 [] es) (\<lambda>_. Inr (length es)))"

definition rebuild_projections :: "world \<Rightarrow> event_store \<Rightarrow> event_store \<times> (store_error + nat)" where
  "rebuild_projections w st = (case rebuild (w_codec w) (st_objects st) (st_log st) of
     Inl e \<Rightarrow> (st, Inl e)
   | Inr (p, n) \<Rightarrow> (st\<lparr>st_proj := p\<rparr>, Inr n))"

fun verify_aggregates :: "world \<Rightarrow> event_store \<Rightarrow> uuid list \<Rightarrow> store_error + nat" where
  "verify_aggregates w st [] = Inr 0"
| "verify_aggregates w st (a # as) =
     rbind (verify_aggregate w st a) (\<lambda>n. rbind (verify_aggregates w st as) (\<lambda>m. Inr (n + m)))"

text \<open>A note of recovery, with the values its text prints.\<close>

datatype recovery_note = CursorLagged nat nat | ProjectsDisagreed

record recovery_outcome =
  ro_boot_generation :: nat
  ro_last_offset :: nat
  ro_events_verified :: nat
  ro_aggregates_verified :: nat
  ro_projections_rebuilt :: bool
  ro_sessions :: nat
  ro_tasks :: nat
  ro_notes :: "recovery_note list"

text \<open>The two checks of recovery on the projections: the cursor, then the project tables.\<close>

definition repair_projections :: "world \<Rightarrow> event_store \<Rightarrow> event_store \<times> (store_error + recovery_note list)" where
  "repair_projections w st =
     (if pr_last_offset (st_proj st) \<noteq> last_offset st
      then (case rebuild_projections w st of
          (st1, Inl e) \<Rightarrow> (st1, Inl e)
        | (st1, Inr _) \<Rightarrow> (st1, Inr [CursorLagged (pr_last_offset (st_proj st)) (last_offset st)]))
      else (case project_tables_agree_with_log (w_codec w) (st_objects st) (st_log st) (pr_projects (st_proj st)) of
          Inl e \<Rightarrow> (st, Inl e)
        | Inr agree \<Rightarrow>
            if agree then (st, Inr [])
            else (case rebuild_projections w st of
                (st1, Inl e) \<Rightarrow> (st1, Inl e)
              | (st1, Inr _) \<Rightarrow> (st1, Inr [ProjectsDisagreed]))))"

text \<open>\<open>db_check\<close> is the answer of SQLite's own \<open>PRAGMA integrity_check\<close>. The time recovery took is left out.\<close>

definition recover_on_start ::
  "world \<Rightarrow> string \<Rightarrow> event_store \<Rightarrow> event_store \<times> (store_error + recovery_outcome)" where
  "recover_on_start w db_check st =
     (if db_check \<noteq> ''ok'' then (st, Inl (Integrity 0))
      else (let aggs = remdups (map se_agg (st_log st)) in
        case verify_aggregates w st aggs of
          Inl e \<Rightarrow> (st, Inl e)
        | Inr verified \<Rightarrow>
            (case repair_projections w st of
               (st1, Inl e) \<Rightarrow> (st1, Inl e)
             | (st1, Inr notes) \<Rightarrow>
                 (let boot = (case st_boot_generation st1 of None \<Rightarrow> 0 | Some n \<Rightarrow> n) + 1
                  in (st1\<lparr>st_boot_generation := Some boot\<rparr>,
                      Inr \<lparr>ro_boot_generation = boot, ro_last_offset = last_offset st,
                        ro_events_verified = verified, ro_aggregates_verified = length aggs,
                        ro_projections_rebuilt = (notes \<noteq> []),
                        ro_sessions = card (dom (pr_sessions (st_proj st1))),
                        ro_tasks = card (dom (pr_tasks (st_proj st1))), ro_notes = notes\<rparr>)))))"

end
