(* ===== verification/Store_Invariant.thy ===== *)
theory Store_Invariant
  imports Event_Store
begin

text \<open>
  The invariant of the event store and that every operation keeps it. \<open>store_ok\<close> says: the
  offsets are 1, 2, 3 without a gap; event ids are unique; the log of every aggregate passes
  \<open>verify_aggregate\<close>; every object has the digest it is filed under; and the projection
  tables are exactly what \<open>rebuild\<close> would compute from the log. No assumption on the hash is
  needed for any of it.
\<close>

section \<open>The invariant\<close>

definition agg_log :: "stored_event list \<Rightarrow> uuid \<Rightarrow> stored_event list" where
  "agg_log log a = filter (\<lambda>e. se_agg e = a) log"

definition objects_ok :: "codec \<Rightarrow> objects \<Rightarrow> bool" where
  "objects_ok c objs \<longleftrightarrow> (\<forall>h b. objs h = Some b \<longrightarrow> c_sha c b = h)"

definition store_ok :: "world \<Rightarrow> event_store \<Rightarrow> bool" where
  "store_ok w st \<longleftrightarrow>
     map se_offset (st_log st) = [1..<Suc (length (st_log st))]
   \<and> st_next st = Suc (length (st_log st))
   \<and> distinct (map (\<lambda>e. ev_event_id (se_envelope e)) (st_log st))
   \<and> (\<forall>a. verify_events (w_codec w) (st_objects st) 1 [] (agg_log (st_log st) a) = Inr ())
   \<and> objects_ok (w_codec w) (st_objects st)
   \<and> project_all (w_codec w) (st_objects st) (st_log st) empty_projections (st_log st)
       = Inr (st_proj st)"

lemma store_ok_empty: "store_ok w empty_store"
  by (simp add: store_ok_def empty_store_def objects_ok_def agg_log_def)

section \<open>Objects only grow\<close>

definition objects_le :: "codec \<Rightarrow> objects \<Rightarrow> objects \<Rightarrow> bool" where
  "objects_le c o1 o2 \<longleftrightarrow>
     (\<forall>h b. object_get c o1 h = Inr b \<longrightarrow> object_get c o2 h = Inr b) \<and> (objects_ok c o1 \<longrightarrow> objects_ok c o2)"

lemma objects_le_refl [simp]: "objects_le c o1 o1"
  by (simp add: objects_le_def)

lemma objects_le_trans: "objects_le c o1 o2 \<Longrightarrow> objects_le c o2 o3 \<Longrightarrow> objects_le c o1 o3"
  by (simp add: objects_le_def)

lemma objects_le_put: "objects_le c objs (fst (object_put c objs bytes))"
proof -
  have "objects_ok c (fst (object_put c objs bytes))" if "objects_ok c objs"
    using that by (auto simp: objects_ok_def object_put_def Let_def)
  then show ?thesis by (simp add: objects_le_def object_put_keeps)
qed

lemma objects_le_place: "objects_le c objs (fst (place_payload c objs p))"
  using objects_le_put [of c objs "c_text c p"]
  by (cases "object_put c objs (c_text c p)") (simp add: place_payload_def Let_def)

lemma object_get_after_put:
  assumes "objects_ok c objs"
  obtains b where "object_get c (fst (object_put c objs bytes)) (c_sha c bytes) = Inr b"
  using assms
  by (cases "objs (c_sha c bytes)") (auto simp: object_get_Inr object_put_def Let_def objects_ok_def)

lemma verify_events_objects:
  assumes "objects_le c o1 o2" "verify_events c o1 n prev es = Inr ()"
  shows "verify_events c o2 n prev es = Inr ()"
  using assms(2)
proof (induction es arbitrary: n prev)
  case (Cons e es)
  then show ?case
    using assms(1) by (auto simp: rbind_eq_Inr objects_le_def split: if_splits payload_ref.splits)
qed simp

lemma payload_json_objects:
  assumes "objects_le c o1 o2" "payload_json c o1 ev = Inr p"
  shows "payload_json c o2 ev = Inr p"
  using assms
  by (auto simp: payload_json_def rbind_eq_Inr objects_le_def split: payload_ref.splits)

lemma project_objects:
  assumes "objects_le c o1 o2" "project c o1 log p ev = Inr q"
  shows "project c o2 log p ev = Inr q"
  using assms by (auto simp: project_def rbind_eq_Inr dest: payload_json_objects)

lemma project_all_objects:
  assumes "objects_le c o1 o2" "project_all c o1 log p es = Inr q"
  shows "project_all c o2 log p es = Inr q"
  using assms(2)
proof (induction es arbitrary: p)
  case (Cons e es)
  then show ?case using assms(1) by (auto simp: rbind_eq_Inr dest: project_objects)
qed simp

section \<open>The log of one aggregate\<close>

definition tip_hash :: "string \<Rightarrow> stored_event list \<Rightarrow> string" where
  "tip_hash prev es = (if es = [] then prev else se_hash (last es))"

lemma verify_events_append:
  "verify_events c objs n prev (xs @ ys) = Inr () \<longleftrightarrow>
     verify_events c objs n prev xs = Inr ()
   \<and> verify_events c objs (n + length xs) (tip_hash prev xs) ys = Inr ()"
  by (induction xs arbitrary: n prev) (auto simp: rbind_eq_Inr tip_hash_def)

lemma verify_events_seqs:
  "verify_events c objs n prev es = Inr () \<Longrightarrow> map se_seq es = [n..<n + length es]"
proof (induction es arbitrary: n prev)
  case (Cons e es)
  have e: "se_seq e = n" and rest: "verify_events c objs (Suc n) (se_hash e) es = Inr ()"
    using Cons.prems by (auto simp: rbind_eq_Inr split: if_splits)
  have "map se_seq es = [Suc n..<Suc n + length es]" by (rule Cons.IH [OF rest])
  moreover have "[n..<n + length (e # es)] = n # [Suc n..<Suc n + length es]"
    by (simp add: upt_conv_Cons del: upt_Suc)
  ultimately show ?case using e by (simp del: upt_Suc)
qed simp

lemma sort_key_contiguous: "map f es = [n..<n + length es] \<Longrightarrow> sort_key f es = es"
  by (intro sort_key_id_if_sorted) simp

lemma verified_head:
  assumes "verify_events c objs 1 [] (agg_log (st_log st) a) = Inr ()"
  shows "head st a = (length (agg_log (st_log st) a), tip_hash [] (agg_log (st_log st) a))"
proof -
  let ?es = "agg_log (st_log st) a"
  have seqs: "map se_seq ?es = [1..<1 + length ?es]" by (rule verify_events_seqs [OF assms])
  have sorted: "sort_key se_seq ?es = ?es" by (rule sort_key_contiguous [OF seqs])
  have "se_seq (last ?es) = length ?es" if "?es \<noteq> []"
  proof -
    have "se_seq (last ?es) = last (map se_seq ?es)" using that by (simp add: last_map)
    also have "\<dots> = length ?es" using that by (simp add: seqs del: upt_Suc)
    finally show ?thesis .
  qed
  then show ?thesis using sorted by (simp add: head_def agg_log_def [symmetric] Let_def tip_hash_def)
qed

lemma read_aggregate_agg_log:
  assumes "verify_events c objs 1 [] (agg_log (st_log st) a) = Inr ()"
  shows "read_aggregate st a 0 = agg_log (st_log st) a"
proof -
  let ?es = "agg_log (st_log st) a"
  have seqs: "map se_seq ?es = [1..<1 + length ?es]" by (rule verify_events_seqs [OF assms])
  have "\<forall>e \<in> set ?es. 0 < se_seq e"
  proof
    fix e assume "e \<in> set ?es"
    then have "se_seq e \<in> set (map se_seq ?es)" by simp
    then show "0 < se_seq e" unfolding seqs by auto
  qed
  then have "filter (\<lambda>e. se_agg e = a \<and> 0 < se_seq e) (st_log st) = ?es"
    unfolding agg_log_def by (intro filter_cong) (auto simp: agg_log_def)
  then show ?thesis
    using sort_key_contiguous [OF seqs] by (simp add: read_aggregate_def)
qed

lemma agg_log_append [simp]: "agg_log (xs @ ys) a = agg_log xs a @ agg_log ys a"
  by (simp add: agg_log_def)

section \<open>Extending the log leaves earlier projections alone\<close>

definition has_event_at :: "stored_event list \<Rightarrow> uuid \<Rightarrow> nat \<Rightarrow> bool" where
  "has_event_at log a n \<longleftrightarrow> (\<exists>e \<in> set log. se_agg e = a \<and> se_seq e = n)"

lemma find_append: "find P (xs @ ys) = (case find P xs of None \<Rightarrow> find P ys | Some x \<Rightarrow> Some x)"
  by (induction xs) auto

lemma event_type_at_extend:
  "has_event_at log a n \<Longrightarrow> event_type_at (log @ ys) a n = event_type_at log a n"
  by (auto simp: event_type_at_def find_append has_event_at_def find_None_iff_ball split: option.splits)

lemma project_extend:
  assumes "se_seq ev > 1 \<longrightarrow> has_event_at log (se_agg ev) (se_seq ev - 1)"
  shows "project c objs (log @ ys) p ev = project c objs log p ev"
proof -
  have "(if se_seq ev > 1 then event_type_at (log @ ys) (se_agg ev) (se_seq ev - 1) else None)
      = (if se_seq ev > 1 then event_type_at log (se_agg ev) (se_seq ev - 1) else None)"
    using assms event_type_at_extend by auto
  then have "project_event (log @ ys) p ev pl = project_event log p ev pl" for pl
    by (simp add: project_event_def Let_def cong: aggregate_type.case_cong payload.case_cong)
  then show ?thesis by (simp add: project_def)
qed

lemma project_all_extend:
  assumes "\<forall>ev \<in> set es. se_seq ev > 1 \<longrightarrow> has_event_at log (se_agg ev) (se_seq ev - 1)"
  shows "project_all c objs (log @ ys) p es = project_all c objs log p es"
  using assms
proof (induction es arbitrary: p)
  case (Cons e es)
  then show ?case using project_extend [of e log c objs ys] by simp
qed simp

lemma verified_has_predecessor:
  assumes "verify_events c objs 1 [] (agg_log log (se_agg ev)) = Inr ()"
    and "ev \<in> set log" "se_seq ev > 1"
  shows "has_event_at log (se_agg ev) (se_seq ev - 1)"
proof -
  let ?es = "agg_log log (se_agg ev)"
  have seqs: "map se_seq ?es = [1..<1 + length ?es]" by (rule verify_events_seqs [OF assms(1)])
  have "ev \<in> set ?es" using assms(2) by (simp add: agg_log_def)
  then have "se_seq ev \<in> set (map se_seq ?es)" by simp
  then have "se_seq ev - 1 \<in> set (map se_seq ?es)" using assms(3) unfolding seqs by auto
  then show ?thesis by (auto simp: has_event_at_def agg_log_def)
qed

lemma store_ok_project_all_extend:
  assumes "store_ok w st"
  shows "project_all c objs (st_log st @ ys) p (st_log st) = project_all c objs (st_log st) p (st_log st)"
proof (rule project_all_extend, intro ballI impI)
  fix ev assume "ev \<in> set (st_log st)" "se_seq ev > 1"
  moreover have "verify_events (w_codec w) (st_objects st) 1 [] (agg_log (st_log st) (se_agg ev)) = Inr ()"
    using assms by (simp add: store_ok_def)
  ultimately show "has_event_at (st_log st) (se_agg ev) (se_seq ev - 1)"
    by (intro verified_has_predecessor)
qed

section \<open>One more event\<close>

text \<open>The envelope continues its aggregate and its payload is readable.\<close>

definition continues :: "world \<Rightarrow> event_store \<Rightarrow> event_envelope \<Rightarrow> bool" where
  "continues w st env \<longleftrightarrow>
     ev_sequence env = Suc (fst (head st (ev_aggregate_id env)))
   \<and> ev_integrity_hash env = chain_hash (w_codec w) (snd (head st (ev_aggregate_id env))) env
   \<and> (\<forall>h n. ev_payload env = Object h n \<longrightarrow> (\<exists>b. object_get (w_codec w) (st_objects st) h = Inr b))"

lemma insert_and_project_ok:
  assumes ok: "store_ok w st" and cont: "continues w st env"
    and ins: "insert_and_project w st env = (st', Inr stored)"
  shows "store_ok w st'" and "st_log st' = st_log st @ [stored]" and "st_objects st' = st_objects st"
    and "se_envelope stored = env" and "se_offset stored = Suc (length (st_log st))"
    and "st_commands st' = st_commands st"
proof -
  let ?c = "w_codec w"
  let ?new = "\<lparr>se_offset = st_next st, se_envelope = env\<rparr>"
  obtain p where fresh: "\<not> list_ex (\<lambda>e. ev_event_id (se_envelope e) = ev_event_id env
        \<or> se_agg e = ev_aggregate_id env \<and> se_seq e = ev_sequence env) (st_log st)"
    and p: "project ?c (st_objects st) (st_log st @ [?new]) (st_proj st) ?new = Inr p"
    and stored: "stored = ?new"
    and st': "st' = st\<lparr>st_log := st_log st @ [?new], st_next := st_next st + 1, st_proj := p\<rparr>"
    using ins
    by (auto simp: insert_and_project_def insert_event_def Let_def split: if_splits sum.splits)
  have logs: "verify_events ?c (st_objects st) 1 [] (agg_log (st_log st) a) = Inr ()" for a
    using ok by (simp add: store_ok_def)
  have new_log: "verify_events ?c (st_objects st) 1 [] (agg_log (st_log st @ [?new]) a) = Inr ()" for a
  proof (cases "a = ev_aggregate_id env")
    case False
    then show ?thesis using logs by (simp add: agg_log_def)
  next
    case True
    have one: "agg_log [?new] (ev_aggregate_id env) = [?new]" by (simp add: agg_log_def)
    show ?thesis
      using logs [of a] cont True verified_head [OF logs [of a]]
      by (auto simp: verify_events_append one continues_def rbind_eq_Inr split: payload_ref.split)
  qed
  have pa: "project_all ?c (st_objects st) (st_log st @ [?new]) empty_projections (st_log st @ [?new]) = Inr p"
    using ok p by (simp add: project_all_append store_ok_project_all_extend [OF ok] store_ok_def)
  show "store_ok w st'"
    using ok new_log pa fresh
    by (auto simp: store_ok_def st' list_ex_iff simp del: agg_log_append)
  show "st_log st' = st_log st @ [stored]" "st_objects st' = st_objects st"
    "se_envelope stored = env" "st_commands st' = st_commands st"
    by (simp_all add: st' stored)
  show "se_offset stored = Suc (length (st_log st))"
    using ok by (simp add: stored store_ok_def)
qed

lemma insert_and_project_objects: "st_objects (fst (insert_and_project w st env)) = st_objects st"
  by (auto simp: insert_and_project_def insert_event_def Let_def split: sum.splits)

lemma store_ok_objects:
  assumes "store_ok w st" "objects_le (w_codec w) (st_objects st) objs"
  shows "store_ok w (st\<lparr>st_objects := objs\<rparr>)"
  using assms verify_events_objects [OF assms(2)] project_all_objects [OF assms(2)]
  by (simp add: store_ok_def objects_le_def)

lemma head_objects [simp]: "head (st\<lparr>st_objects := objs\<rparr>) a = head st a"
  by (simp add: head_def)

end
