(* ===== verification/Store_Operations.thy ===== *)
theory Store_Operations
  imports Store_Invariant
begin

text \<open>
  Every public operation of the store keeps \<open>store_ok\<close>: one lemma per operation, from the
  single row to the batch, then \<open>store_step\<close>, the interleavings of the operations as a step
  relation, and the invariant by rule induction. An operation that fails leaves the log, the
  tables and the command ledger as they were.
\<close>

section \<open>Rows and requests\<close>

lemma chain_hash_ignores_hash [simp]:
  "chain_hash c prev (env\<lparr>ev_integrity_hash := h\<rparr>) = chain_hash c prev env"
  by (simp add: chain_hash_def canonical_content_def lineage_bytes_def position_bytes_def
      version_bytes_def cause_bytes_def)

text \<open>What a transaction body leaves behind: objects only grew, and a result is a good store.\<close>

definition body_ok :: "world \<Rightarrow> event_store \<Rightarrow> event_store \<times> (store_error + 'a) \<Rightarrow> bool" where
  "body_ok w st r \<longleftrightarrow>
     objects_le (w_codec w) (st_objects st) (st_objects (fst r))
   \<and> (is_ok (snd r) \<longrightarrow> store_ok w (fst r))"

lemma body_ok_Inl [simp]:
  "body_ok w st (st', Inl e) \<longleftrightarrow> objects_le (w_codec w) (st_objects st) (st_objects st')"
  by (simp add: body_ok_def)

lemma body_ok_Inr [simp]:
  "body_ok w st (st', Inr x) \<longleftrightarrow>
     objects_le (w_codec w) (st_objects st) (st_objects st') \<and> store_ok w st'"
  by (simp add: body_ok_def)

lemma head_after:
  assumes "store_ok w st'" "st_log st' = st_log st @ [stored]" "store_ok w st"
    and "a = se_agg stored"
  shows "head st' a = (Suc (fst (head st a)), se_hash stored)"
proof -
  have v: "verify_events (w_codec w) (st_objects st) 1 [] (agg_log (st_log st) a) = Inr ()"
    "verify_events (w_codec w) (st_objects st') 1 [] (agg_log (st_log st') a) = Inr ()"
    using assms(1,3) by (simp_all add: store_ok_def)
  have "agg_log (st_log st') a = agg_log (st_log st) a @ [stored]"
    using assms(2,4) by (simp add: agg_log_def)
  then show ?thesis
    using verified_head [OF v(1)] verified_head [OF v(2)] by (simp add: tip_hash_def)
qed

lemma append_event_objects:
  "objects_le (w_codec w) (st_objects st) (st_objects (fst (append_event w req st n prev ev)))"
  using objects_le_place [of "w_codec w" "st_objects st" "ne_payload ev"]
  by (cases "place_payload (w_codec w) (st_objects st) (ne_payload ev)")
    (simp add: append_event_def Let_def insert_and_project_objects)

lemma place_payload_readable:
  assumes "objects_ok c objs" "place_payload c objs p = (objs', Object h n)"
  obtains b where "object_get c objs' h = Inr b"
proof -
  have h: "h = c_sha c (c_text c p)" and objs': "objs' = fst (object_put c objs (c_text c p))"
    using assms(2) by (auto simp: place_payload_def object_put_def Let_def split: if_splits)
  show ?thesis
    using object_get_after_put [OF assms(1), of "c_text c p"] that h objs' by blast
qed

lemma new_envelope_simps [simp]:
  "ev_aggregate_id (new_envelope w req off n prev ev pref) = ar_aggregate_id req"
  "ev_sequence (new_envelope w req off n prev ev pref) = n"
  "ev_payload (new_envelope w req off n prev ev pref) = pref"
  "ev_event_type (new_envelope w req off n prev ev pref) = ne_event_type ev"
  "ev_aggregate_type (new_envelope w req off n prev ev pref) = ar_aggregate_type req"
  "ev_session_id (new_envelope w req off n prev ev pref) = ar_session_id req"
  by (simp_all add: new_envelope_def Let_def)

lemma integrity_hash_update: "ev_integrity_hash (e\<lparr>ev_integrity_hash := h\<rparr>) = h"
  by simp

lemma new_envelope_hash:
  "ev_integrity_hash (new_envelope w req off n prev ev pref)
     = chain_hash (w_codec w) prev (new_envelope w req off n prev ev pref)"
  unfolding new_envelope_def Let_def by (simp only: chain_hash_ignores_hash integrity_hash_update)

lemma append_event_ok:
  assumes ok: "store_ok w st" and hd: "head st (ar_aggregate_id req) = (n, prev)"
    and ap: "append_event w req st (Suc n) prev ev = (st', Inr stored)"
  shows "store_ok w st'" "st_log st' = st_log st @ [stored]"
    "head st' (ar_aggregate_id req) = (Suc n, se_hash stored)"
    "st_commands st' = st_commands st" "se_offset stored = Suc (length (st_log st))"
    "se_agg stored = ar_aggregate_id req"
proof -
  let ?c = "w_codec w"
  obtain objs pref where pl: "place_payload ?c (st_objects st) (ne_payload ev) = (objs, pref)"
    by (cases "place_payload ?c (st_objects st) (ne_payload ev)")
  let ?st1 = "st\<lparr>st_objects := objs\<rparr>"
  let ?env = "new_envelope w req (st_next st) (Suc n) prev ev pref"
  have ins: "insert_and_project w ?st1 ?env = (st', Inr stored)"
    using ap pl by (auto simp: append_event_def Let_def split: if_splits)
  have le: "objects_le ?c (st_objects st) objs"
    using objects_le_place [of ?c "st_objects st" "ne_payload ev"] pl by simp
  have ok1: "store_ok w ?st1" by (rule store_ok_objects [OF ok le])
  have "\<exists>b. object_get ?c objs h = Inr b" if "pref = Object h k" for h k
    using place_payload_readable [of ?c "st_objects st" "ne_payload ev" objs h k] ok pl that
    by (auto simp: store_ok_def)
  then have cont: "continues w ?st1 ?env"
    by (simp add: continues_def hd new_envelope_hash)
  note ins' = insert_and_project_ok [OF ok1 cont ins]
  show "store_ok w st'" "st_log st' = st_log st @ [stored]" "st_commands st' = st_commands st"
    "se_offset stored = Suc (length (st_log st))"
    using ins' by simp_all
  show "head st' (ar_aggregate_id req) = (Suc n, se_hash stored)"
    using head_after [OF ins'(1) _ ok1, of stored "ar_aggregate_id req"] ins' hd by simp
  show "se_agg stored = ar_aggregate_id req" using ins' by simp
qed

lemma append_events_ok:
  assumes "store_ok w st" "head st (ar_aggregate_id req) = (n, prev)"
    and "append_events w req st (Suc n) prev evs = (st', Inr out)"
  shows "store_ok w st' \<and> st_log st' = st_log st @ out \<and> length out = length evs
    \<and> st_commands st' = st_commands st"
  using assms
proof (induction evs arbitrary: st n prev out)
  case (Cons ev evs)
  obtain st1 stored where one: "append_event w req st (Suc n) prev ev = (st1, Inr stored)"
    using Cons.prems(3) by (auto split: prod.splits sum.splits)
  obtain out' where out: "out = stored # out'"
    and rest: "append_events w req st1 (Suc (Suc n)) (se_hash stored) evs = (st', Inr out')"
    using Cons.prems(3) one by (auto split: prod.splits sum.splits)
  note ae = append_event_ok [OF Cons.prems(1,2) one]
  show ?case using Cons.IH [OF ae(1,3) rest] ae(2,4) out by simp
qed simp

lemma append_events_objects:
  "objects_le (w_codec w) (st_objects st) (st_objects (fst (append_events w req st n prev evs)))"
proof (induction evs arbitrary: st n prev)
  case (Cons ev evs)
  obtain st1 r where one: "append_event w req st n prev ev = (st1, r)"
    by (cases "append_event w req st n prev ev")
  have le: "objects_le (w_codec w) (st_objects st) (st_objects st1)"
    using append_event_objects [of w st req n prev ev] one by simp
  show ?case
  proof (cases r)
    case (Inl e)
    then show ?thesis using one le by simp
  next
    case (Inr stored)
    have "objects_le (w_codec w) (st_objects st1)
        (st_objects (fst (append_events w req st1 (Suc n) (se_hash stored) evs)))"
      by (rule Cons.IH)
    then show ?thesis using one Inr objects_le_trans [OF le]
      by (auto split: prod.splits sum.splits)
  qed
qed simp

lemma append_in_ok:
  assumes "store_ok w st" "append_in w st req = (st', Inr out)"
  shows "store_ok w st'" "st_log st' = st_log st @ out" "length out = length (ar_events req)"
    "st_commands st' = st_commands st"
proof -
  obtain n prev where hd: "head st (ar_aggregate_id req) = (n, prev)"
    by (cases "head st (ar_aggregate_id req)")
  have "append_events w req st (Suc n) prev (ar_events req) = (st', Inr out)"
    using assms(2) hd by (auto simp: append_in_def split: option.splits if_splits)
  note ae = append_events_ok [OF assms(1) hd this]
  then show "store_ok w st'" "st_log st' = st_log st @ out" "length out = length (ar_events req)"
    "st_commands st' = st_commands st" by simp_all
qed

lemma append_reqs_ok:
  assumes "store_ok w st" "append_reqs w pre st reqs = (st', Inr out)"
  shows "store_ok w st' \<and> st_log st' = st_log st @ out \<and> st_commands st' = st_commands st"
  using assms
proof (induction reqs arbitrary: st out)
  case (Cons req reqs)
  obtain st1 o1 where one: "append_in w st (pre req) = (st1, Inr o1)"
    using Cons.prems(2) by (auto split: prod.splits sum.splits)
  obtain o2 where out: "out = o1 @ o2" and rest: "append_reqs w pre st1 reqs = (st', Inr o2)"
    using Cons.prems(2) one by (auto split: prod.splits sum.splits)
  note ai = append_in_ok [OF Cons.prems(1) one]
  show ?case using Cons.IH [OF ai(1) rest] ai(2,4) out by simp
qed simp

lemma append_in_objects:
  "objects_le (w_codec w) (st_objects st) (st_objects (fst (append_in w st req)))"
  using append_events_objects
  by (simp add: append_in_def split: prod.split option.split)

lemma append_reqs_objects:
  "objects_le (w_codec w) (st_objects st) (st_objects (fst (append_reqs w pre st reqs)))"
proof (induction reqs arbitrary: st)
  case (Cons req reqs)
  obtain st1 r where one: "append_in w st (pre req) = (st1, r)" by (cases "append_in w st (pre req)")
  have le: "objects_le (w_codec w) (st_objects st) (st_objects st1)"
    using append_in_objects [of w st "pre req"] one by simp
  show ?case
  proof (cases r)
    case (Inl e)
    then show ?thesis using one le by simp
  next
    case (Inr o1)
    have "objects_le (w_codec w) (st_objects st1) (st_objects (fst (append_reqs w pre st1 reqs)))"
      by (rule Cons.IH)
    then show ?thesis using one Inr objects_le_trans [OF le] by (auto split: prod.splits sum.splits)
  qed
qed simp

lemma body_okI:
  assumes "objects_le (w_codec w) (st_objects st) (st_objects (fst r))"
    and "\<And>st' x. r = (st', Inr x) \<Longrightarrow> store_ok w st'"
  shows "body_ok w st r"
  using assms by (cases r; cases "snd r") (auto simp: body_ok_def)

lemma append_in_body:
  assumes "store_ok w st"
  shows "body_ok w st (append_in w st req)"
  using append_in_objects append_in_ok(1) [OF assms] by (rule body_okI)

lemma append_reqs_body:
  assumes "store_ok w st"
  shows "body_ok w st (append_reqs w pre st reqs)"
  using append_reqs_objects append_reqs_ok [OF assms] by (intro body_okI) blast+

section \<open>Transactions\<close>

lemma transact_ok: "store_ok w st \<Longrightarrow> body_ok w st r \<Longrightarrow> store_ok w (fst (transact st r))"
  by (auto simp: transact_def body_ok_def store_ok_objects split: prod.splits sum.splits)

text \<open>A failed transaction changes nothing but the object directory.\<close>

definition same_database :: "event_store \<Rightarrow> event_store \<Rightarrow> bool" where
  "same_database st st' \<longleftrightarrow>
     st_log st' = st_log st \<and> st_next st' = st_next st \<and> st_proj st' = st_proj st
   \<and> st_commands st' = st_commands st \<and> st_boot_generation st' = st_boot_generation st"

lemma same_database_refl [simp]: "same_database st st"
  by (simp add: same_database_def)

lemma transact_err: "transact st r = (st', Inl e) \<Longrightarrow> same_database st st'"
  by (auto simp: transact_def same_database_def split: prod.splits sum.splits)

lemma append_committed_ok: "store_ok w st \<Longrightarrow> store_ok w (fst (append_committed w st req))"
  by (simp add: append_committed_def transact_ok append_in_body)

lemma append_fenced_committed_ok:
  "store_ok w st \<Longrightarrow> store_ok w (fst (append_fenced_committed w st req g))"
  by (simp add: append_fenced_committed_def Let_def transact_ok append_in_body)

lemma store_ok_stuck [simp]: "store_ok w (st\<lparr>st_relaxed_stuck := b\<rparr>) = store_ok w st"
  by (simp add: store_ok_def)

lemma leave_durability_ok:
  "store_ok w (fst r) \<Longrightarrow> store_ok w (fst (leave_durability pragma_fails d r))"
  by (simp add: leave_durability_def)

lemma append_with_ok: "store_ok w st \<Longrightarrow> store_ok w (fst (append_with w pf st req d))"
  by (auto simp: append_with_def Let_def leave_durability_ok append_committed_ok split: sum.split)

lemma append_fenced_with_ok: "store_ok w st \<Longrightarrow> store_ok w (fst (append_fenced_with w pf st req g d))"
  by (auto simp: append_fenced_with_def leave_durability_ok append_fenced_committed_ok split: sum.split)

lemma append_all_inner_ok: "store_ok w st \<Longrightarrow> store_ok w (fst (append_all_inner w st reqs g sealer))"
  by (auto simp: append_all_inner_def transact_ok append_reqs_body split: sum.split)

lemma store_ok_commands [simp]: "store_ok w (st\<lparr>st_commands := m\<rparr>) = store_ok w st"
  by (simp add: store_ok_def)

lemma execute_command_all_ok:
  assumes "store_ok w st"
  shows "store_ok w (fst (execute_command_all w now st cmd reqs))"
proof -
  have "body_ok w st (append_reqs w id st reqs)" by (rule append_reqs_body [OF assms])
  then show ?thesis
    using assms
    by (auto simp: execute_command_all_def body_ok_def split: sum.split option.split prod.split
        intro!: transact_ok)
qed

lemma rebuild_projections_ok:
  assumes "store_ok w st"
  shows "rebuild_projections w st = (st, Inr (length (st_log st)))"
  using assms by (simp add: rebuild_projections_def rebuild_def store_ok_def)

section \<open>Import\<close>

lemma import_payload_objects:
  "objects_le c objs (fst (import_payload c objs env pl))"
  using objects_le_put [of c objs "c_text c pl"]
  by (cases "object_put c objs (c_text c pl)")
    (simp add: import_payload_def Let_def split: payload_ref.split)

lemma import_payload_readable:
  assumes "objects_ok c objs" "import_payload c objs env pl = (objs', Inr ())"
    and "ev_payload env = Object h n"
  obtains b where "object_get c objs' h = Inr b"
proof -
  have h: "h = c_sha c (c_text c pl)" and objs': "objs' = fst (object_put c objs (c_text c pl))"
    using assms(2,3) by (auto simp: import_payload_def object_put_def Let_def split: if_splits)
  show ?thesis
    using object_get_after_put [OF assms(1), of "c_text c pl"] that h objs' by blast
qed

text \<open>One envelope of the batch that is not yet there: the four ways it can go.\<close>

lemma import_loop_Cons:
  assumes new: "\<not> list_ex (\<lambda>e. ev_event_id (se_envelope e) = ev_event_id env) (st_log st)"
    and ok: "store_ok w st"
  obtains (refused) st1 e where
      "import_loop w st im pr lst ((env, pl) # evs) = (st1, Inl e)"
      "objects_le (w_codec w) (st_objects st) (st_objects st1)"
    | (taken) st2 stored where
      "import_loop w st im pr lst ((env, pl) # evs) = import_loop w st2 (im + 1) pr (se_offset stored) evs"
      "store_ok w st2" "objects_le (w_codec w) (st_objects st) (st_objects st2)"
      "st_log st2 = st_log st @ [stored]" "se_envelope stored = env"
      "st_commands st2 = st_commands st"
proof -
  let ?c = "w_codec w"
  let ?loop = "import_loop w st im pr lst ((env, pl) # evs)"
  obtain n prev where hd: "head st (ev_aggregate_id env) = (n, prev)"
    by (cases "head st (ev_aggregate_id env)")
  obtain objs r where ip: "import_payload ?c (st_objects st) env pl = (objs, r)"
    by (cases "import_payload ?c (st_objects st) env pl")
  let ?st1 = "st\<lparr>st_objects := objs\<rparr>"
  have le: "objects_le ?c (st_objects st) objs"
    using import_payload_objects [of ?c "st_objects st" env pl] ip by simp
  have ok1: "store_ok w ?st1" by (rule store_ok_objects [OF ok le])
  obtain st2 q where ins: "insert_and_project w ?st1 env = (st2, q)"
    by (cases "insert_and_project w ?st1 env")
  have le2: "objects_le ?c (st_objects st) (st_objects st2)"
    using insert_and_project_objects [of w ?st1 env] ins le by simp
  consider "ev_sequence env \<noteq> n + 1 \<or> chain_hash ?c prev env \<noteq> ev_integrity_hash env"
    | e where "ev_sequence env = n + 1" "chain_hash ?c prev env = ev_integrity_hash env" "r = Inl e"
    | e where "ev_sequence env = n + 1" "chain_hash ?c prev env = ev_integrity_hash env" "r = Inr ()" "q = Inl e"
    | stored where "ev_sequence env = n + 1" "chain_hash ?c prev env = ev_integrity_hash env"
        "r = Inr ()" "q = Inr stored"
    by (cases r; cases q) auto
  then show thesis
  proof cases
    case 1
    then have "import_loop w st im pr lst ((env, pl) # evs) =
        (st, Inl (if ev_sequence env \<noteq> n + 1 then SequenceConflict (n + 1) (ev_sequence env)
                  else Integrity (ev_sequence env)))"
      using new hd by auto
    then show ?thesis by (rule refused) simp
  next
    case (2 e)
    then show ?thesis using new hd ip le by (intro refused [of ?st1 e]) auto
  next
    case (3 e)
    then show ?thesis using new hd ip ins le2 by (intro refused [of st2 e]) auto
  next
    case (4 stored)
    have "\<exists>b. object_get ?c objs h = Inr b" if "ev_payload env = Object h k" for h k
      using import_payload_readable [of ?c "st_objects st" env pl objs h k] ok ip 4 that
      by (auto simp: store_ok_def)
    then have cont: "continues w ?st1 env" using 4 hd by (simp add: continues_def)
    note inserted = insert_and_project_ok [OF ok1 cont ins [unfolded 4(4)]]
    show ?thesis using new hd ip ins 4 inserted le2
      by (intro taken [of st2 stored]) auto
  qed
qed

lemma import_loop_body:
  "store_ok w st \<Longrightarrow> body_ok w st (import_loop w st im pr lst evs)"
proof (induction evs arbitrary: st im pr lst)
  case (Cons x evs)
  obtain env pl where x: "x = (env, pl)" by (cases x)
  show ?case
  proof (cases "list_ex (\<lambda>e. ev_event_id (se_envelope e) = ev_event_id env) (st_log st)")
    case True
    then show ?thesis using Cons x by simp
  next
    case False
    then show ?thesis
    proof (cases rule: import_loop_Cons [OF False Cons.prems, of im pr lst pl evs,
          case_names refused taken])
      case (refused st1 e)
      then show ?thesis using x by simp
    next
      case (taken st2 stored)
      have "body_ok w st2 (import_loop w st2 (im + 1) pr (se_offset stored) evs)"
        using taken(2) by (rule Cons.IH)
      then show ?thesis using taken(1,3) x objects_le_trans unfolding body_ok_def by metis
    qed
  qed
qed simp

lemma import_envelopes_ok: "store_ok w st \<Longrightarrow> store_ok w (fst (import_envelopes w st evs))"
  by (simp add: import_envelopes_def transact_ok import_loop_body)

section \<open>Verification and recovery\<close>

lemma verify_aggregate_ok:
  assumes "store_ok w st"
  shows "verify_aggregate w st a = Inr (length (agg_log (st_log st) a))"
proof -
  have v: "verify_events (w_codec w) (st_objects st) 1 [] (agg_log (st_log st) a) = Inr ()"
    using assms by (simp add: store_ok_def)
  then show ?thesis
    by (simp add: verify_aggregate_def Let_def read_aggregate_agg_log [OF v])
qed

lemma project_all_offset:
  "project_all c objs log p es = Inr q \<Longrightarrow>
     pr_last_offset q = (if es = [] then pr_last_offset p else se_offset (last es))"
proof (induction es arbitrary: p)
  case (Cons e es)
  then obtain r where r: "project c objs log p e = Inr r" "project_all c objs log r es = Inr q"
    by (auto simp: rbind_eq_Inr)
  have "pr_last_offset r = se_offset e"
    using r(1) by (auto simp: project_def rbind_eq_Inr)
  then show ?case using Cons.IH [OF r(2)] by auto
qed simp

lemma fold_max_offsets:
  "fold (\<lambda>e m. max m (se_offset e)) es m = fold (\<lambda>k m. max m k) (map se_offset es) m"
  by (induction es arbitrary: m) auto

lemma fold_max_upt: "fold (\<lambda>k m. max m k) [1..<Suc n] 0 = (n :: nat)"
  by (induction n) simp_all

lemma last_offset_contiguous:
  assumes "map se_offset (st_log st) = [1..<Suc (length (st_log st))]"
  shows "last_offset st = length (st_log st)"
  by (simp only: last_offset_def fold_max_offsets assms fold_max_upt)

lemma store_ok_cursor:
  assumes "store_ok w st"
  shows "pr_last_offset (st_proj st) = last_offset st"
proof -
  have pa: "project_all (w_codec w) (st_objects st) (st_log st) empty_projections (st_log st) = Inr (st_proj st)"
    and off: "map se_offset (st_log st) = [1..<Suc (length (st_log st))]"
    using assms by (simp_all add: store_ok_def)
  have "se_offset (last (st_log st)) = length (st_log st)" if "st_log st \<noteq> []"
    using that off last_map [of "st_log st" se_offset] by (cases "st_log st" rule: rev_cases) simp_all
  then show ?thesis
    using project_all_offset [OF pa] last_offset_contiguous [OF off]
    by (simp add: empty_projections_def)
qed

end
