(* ===== verification/Store_Correct.thy ===== *)
theory Store_Correct
  imports Store_Operations
begin

text \<open>
  The properties of the event store over whole histories. \<open>store_step\<close> is one call of a
  public operation, with any arguments and whether or not it succeeds; \<open>store_step\<^sup>*\<^sup>*\<close> is a
  history. The locale \<open>append_only\<close> is what the operations promise a reader: a step keeps the
  invariant, extends the log and never rewrites a command record. The properties are about
  histories through its interpretation.
\<close>

section \<open>What every operation promises\<close>

locale append_only =
  fixes ok :: "'st \<Rightarrow> bool" and log :: "'st \<Rightarrow> 'ev list" and ledger :: "'st \<Rightarrow> 'id \<rightharpoonup> 'row"
    and step :: "'st \<Rightarrow> 'st \<Rightarrow> bool"
  assumes step_ok: "ok st \<Longrightarrow> step st st' \<Longrightarrow> ok st'"
    and step_log: "ok st \<Longrightarrow> step st st' \<Longrightarrow> \<exists>out. log st' = log st @ out"
    and step_ledger: "ok st \<Longrightarrow> step st st' \<Longrightarrow> ledger st i = Some r \<Longrightarrow> ledger st' i = Some r"
begin

lemma steps_ok: "step\<^sup>*\<^sup>* st st' \<Longrightarrow> ok st \<Longrightarrow> ok st'"
  by (induction rule: rtranclp_induct) (auto intro: step_ok)

lemma steps_log: "step\<^sup>*\<^sup>* st st' \<Longrightarrow> ok st \<Longrightarrow> \<exists>out. log st' = log st @ out"
proof (induction rule: rtranclp_induct)
  case (step y z)
  then obtain a b where "log y = log st @ a" "log z = log y @ b"
    using step_log [of y z] steps_ok [of st y] by blast
  then show ?case by auto
qed simp

lemma steps_ledger: "step\<^sup>*\<^sup>* st st' \<Longrightarrow> ok st \<Longrightarrow> ledger st i = Some r \<Longrightarrow> ledger st' i = Some r"
proof (induction rule: rtranclp_induct)
  case (step y z)
  then show ?case using step_ledger [of y z] steps_ok [of st y] by blast
qed simp

end

inductive store_step :: "world \<Rightarrow> event_store \<Rightarrow> event_store \<Rightarrow> bool" for w where
  step_append: "store_step w st (fst (append_with w pf st req d))"
| step_fenced: "store_step w st (fst (append_fenced_with w pf st req g d))"
| step_all: "store_step w st (fst (append_all_inner w st reqs g sealer))"
| step_command: "store_step w st (fst (execute_command_all w now st cmd reqs))"
| step_import: "store_step w st (fst (import_envelopes w st evs))"
| step_rebuild: "store_step w st (fst (rebuild_projections w st))"
| step_recover: "store_step w st (fst (recover_on_start w db_check st))"

inductive_cases store_stepE: "store_step w st st'"

text \<open>What a transaction body does to log and ledger when it succeeds.\<close>

definition extends :: "event_store \<Rightarrow> event_store \<Rightarrow> bool" where
  "extends st st' \<longleftrightarrow>
     (\<exists>out. st_log st' = st_log st @ out)
   \<and> (\<forall>i r. st_commands st i = Some r \<longrightarrow> st_commands st' i = Some r)"

lemma extends_refl [simp]: "extends st st"
  by (simp add: extends_def)

lemma extends_same_database: "same_database st st' \<Longrightarrow> extends st st'"
  by (simp add: extends_def same_database_def)

lemma extends_stuck [simp]: "extends st (st'\<lparr>st_relaxed_stuck := b\<rparr>) = extends st st'"
  by (simp add: extends_def)

lemma transact_extends:
  assumes "\<And>st' x. r = (st', Inr x) \<Longrightarrow> extends st st'"
  shows "extends st (fst (transact st r))"
  using assms
  by (cases r; cases "snd r") (auto simp: transact_def extends_def)

lemma append_in_extends:
  "store_ok w st \<Longrightarrow> append_in w st req = (st', Inr out) \<Longrightarrow> extends st st'"
  using append_in_ok [of w st req st' out] by (simp add: extends_def)

lemma append_reqs_extends:
  "store_ok w st \<Longrightarrow> append_reqs w pre st reqs = (st', Inr out) \<Longrightarrow> extends st st'"
  using append_reqs_ok [of w st pre reqs st' out] by (simp add: extends_def)

lemma append_with_extends: "store_ok w st \<Longrightarrow> extends st (fst (append_with w pf st req d))"
  by (auto simp: append_with_def Let_def leave_durability_def append_committed_def
      intro: transact_extends append_in_extends split: sum.split)

lemma append_fenced_extends: "store_ok w st \<Longrightarrow> extends st (fst (append_fenced_with w pf st req g d))"
  by (auto simp: append_fenced_with_def Let_def leave_durability_def append_fenced_committed_def
      intro: transact_extends append_in_extends split: sum.split)

lemma append_all_extends: "store_ok w st \<Longrightarrow> extends st (fst (append_all_inner w st reqs g sealer))"
  by (auto simp: append_all_inner_def intro: transact_extends append_reqs_extends split: sum.split)

lemma execute_command_all_cases:
  assumes "execute_command_all w now st cmd reqs = (st', r)"
  obtains (unchanged) "st' = st"
    | (failed) "same_database st st'" "\<exists>e. r = Inl e"
    | (applied) st1 events where "st_commands st (cmd_command_id cmd) = None"
      "append_reqs w id st reqs = (st1, Inr events)" "r = Inr (Applied events)"
      "st' = st1\<lparr>st_commands := (st_commands st1)(cmd_command_id cmd \<mapsto> \<lparr>
                 cr_tenant_id = cmd_tenant_id cmd, cr_command_type = cmd_command_type cmd,
                 cr_request_hash = cmd_request_hash cmd,
                 cr_first_event_offset = (if events = [] then None else Some (se_offset (hd events))),
                 cr_last_event_offset = (if events = [] then None else Some (se_offset (last events))),
                 cr_accepted_at = now\<rparr>)\<rparr>"
proof (cases "prior_outcome st cmd")
  case (Inl e)
  then show ?thesis using assms unchanged by (simp add: execute_command_all_def)
next
  case (Inr o1)
  show ?thesis
  proof (cases o1)
    case (Some x)
    then show ?thesis using assms unchanged Inr by (simp add: execute_command_all_def)
  next
    case None
    then have fresh: "st_commands st (cmd_command_id cmd) = None"
      using Inr by (auto simp: prior_outcome_def split: option.splits if_splits)
    obtain st1 q where app: "append_reqs w id st reqs = (st1, q)" by (cases "append_reqs w id st reqs")
    show ?thesis
    proof (cases q)
      case (Inl e)
      then have "same_database st st'" "r = Inl e"
        using assms Inr None app
        by (auto simp: execute_command_all_def transact_def same_database_def)
      then show ?thesis using failed by blast
    next
      case (Inr events)
      then show ?thesis using assms \<open>prior_outcome st cmd = Inr o1\<close> None app fresh
        by (intro applied [of st1 events]) (auto simp: execute_command_all_def transact_def)
    qed
  qed
qed

lemma execute_command_extends:
  assumes "store_ok w st"
  shows "extends st (fst (execute_command_all w now st cmd reqs))"
proof -
  obtain st' r where ex: "execute_command_all w now st cmd reqs = (st', r)"
    by (cases "execute_command_all w now st cmd reqs")
  from ex have "extends st st'"
  proof (cases rule: execute_command_all_cases)
    case unchanged
    then show ?thesis by simp
  next
    case failed
    then show ?thesis by (simp add: extends_same_database)
  next
    case (applied st1 events)
    have "extends st st1" using append_reqs_extends [OF assms applied(2)] .
    then show ?thesis using applied(1,4) by (auto simp: extends_def)
  qed
  then show ?thesis by (simp add: ex)
qed

lemma import_loop_extends:
  "store_ok w st \<Longrightarrow> import_loop w st im pr lst evs = (st', Inr x) \<Longrightarrow> extends st st'"
proof (induction evs arbitrary: st im pr lst)
  case (Cons y evs)
  obtain env pl where y: "y = (env, pl)" by (cases y)
  show ?case
  proof (cases "list_ex (\<lambda>e. ev_event_id (se_envelope e) = ev_event_id env) (st_log st)")
    case True
    then show ?thesis using Cons y by simp
  next
    case False
    then show ?thesis
    proof (cases rule: import_loop_Cons [OF False Cons.prems(1), of im pr lst pl evs,
          case_names refused taken])
      case (refused st1 e)
      then show ?thesis using y Cons.prems(2) by simp
    next
      case (taken st2 stored)
      have "extends st2 st'" using Cons.IH [OF taken(2)] taken(1) Cons.prems(2) y by simp
      then show ?thesis using taken(4,6) by (auto simp: extends_def)
    qed
  qed
qed simp

lemma import_extends: "store_ok w st \<Longrightarrow> extends st (fst (import_envelopes w st evs))"
  by (auto simp: import_envelopes_def intro: transact_extends import_loop_extends)

lemma store_ok_boot [simp]: "store_ok w (st\<lparr>st_boot_generation := b\<rparr>) = store_ok w st"
  by (simp add: store_ok_def)

lemma repair_projections_ok:
  assumes "store_ok w st"
  shows "repair_projections w (st\<lparr>st_proj := p\<rparr>) =
    (if pr_last_offset p \<noteq> last_offset st then (st, Inr [CursorLagged (pr_last_offset p) (last_offset st)])
     else if read_project_rows (pr_projects (st_proj st)) \<noteq> read_project_rows (pr_projects p)
     then (st, Inr [ProjectsDisagreed])
     else (st\<lparr>st_proj := p\<rparr>, Inr []))"
proof -
  have all: "project_all (w_codec w) (st_objects st) (st_log st) empty_projections (st_log st) = Inr (st_proj st)"
    using assms by (simp add: store_ok_def)
  have "rebuild_projections w (st\<lparr>st_proj := p\<rparr>) = (st, Inr (length (st_log st)))"
    by (simp add: rebuild_projections_def rebuild_def all)
  then show ?thesis
    by (simp add: repair_projections_def project_tables_agree [OF all] last_offset_def)
qed

lemma repair_projections_id: "store_ok w st \<Longrightarrow> repair_projections w st = (st, Inr [])"
  using repair_projections_ok [of w st "st_proj st"] store_ok_cursor [of w st] by simp

lemma recover_cases:
  assumes "store_ok w st"
  shows "fst (recover_on_start w db_check st) = st
    \<or> (\<exists>b. fst (recover_on_start w db_check st) = st\<lparr>st_boot_generation := b\<rparr>)"
  by (auto simp: recover_on_start_def Let_def repair_projections_id [OF assms] split: sum.split)

lemma recover_extends:
  assumes "store_ok w st"
  shows "store_ok w (fst (recover_on_start w db_check st)) \<and> extends st (fst (recover_on_start w db_check st))"
  using recover_cases [OF assms, of db_check] assms by (auto simp: extends_def)

lemma store_step_ok:
  assumes "store_ok w st" "store_step w st st'"
  shows "store_ok w st' \<and> extends st st'"
  using assms(2)
  by (cases rule: store_stepE)
    (use assms(1) in \<open>auto simp: append_with_ok append_fenced_with_ok append_all_inner_ok
      execute_command_all_ok import_envelopes_ok rebuild_projections_ok recover_extends
      append_with_extends append_fenced_extends append_all_extends execute_command_extends
      import_extends\<close>)

interpretation es: append_only "store_ok w" st_log st_commands "store_step w" for w
  using store_step_ok by unfold_locales (auto simp: extends_def)

section \<open>The fence: lease generations only move forward\<close>

definition lease_generation_in :: "projections \<Rightarrow> uuid \<Rightarrow> nat" where
  "lease_generation_in p i = (case pr_sessions p i of None \<Rightarrow> 0 | Some s \<Rightarrow> session_lease_generation s)"

definition sessions_keyed :: "projections \<Rightarrow> bool" where
  "sessions_keyed p \<longleftrightarrow> (\<forall>i s. pr_sessions p i = Some s \<longrightarrow> session_id s = i)"

lemma session_row_grows:
  assumes "project_row session_create session_apply row off sq i ev at = Inr s"
    and "\<And>r. row = Some r \<Longrightarrow> session_id r = i"
  shows "session_id s = i"
    and "(case row of None \<Rightarrow> 0 | Some r \<Rightarrow> session_lease_generation r) \<le> session_lease_generation s"
proof -
  obtain r where r: "(case row of Some s \<Rightarrow> Inr s
      | None \<Rightarrow> map_err (ProjectionInvalid off) (session_create i ev at)) = Inr r"
    and s: "s = r \<or> (sq > 1 \<and> session_apply r ev at = (s, Inr ()))"
    using assms(1)
    by (auto simp: project_row_def rbind_eq_Inr split: if_splits prod.splits sum.splits)
  have ri: "session_id r = i" using r assms(2) session_create_id
    by (auto split: option.splits)
  then show "session_id s = i" using s session_apply_id [of r ev at] by auto
  have "session_lease_generation r \<le> session_lease_generation s"
    using s session_apply_fences [of r ev at s] by auto
  then show "(case row of None \<Rightarrow> 0 | Some r \<Rightarrow> session_lease_generation r) \<le> session_lease_generation s"
    using r by (auto split: option.splits)
qed

lemma project_event_sessions:
  assumes "project_event lg p ev pl = Inr p'"
  shows "pr_sessions p' = pr_sessions p \<or>
    (\<exists>e s. pl = PSession e \<and> pr_sessions p' = (pr_sessions p)(session_id s \<mapsto> s) \<and>
       project_row session_create session_apply (pr_sessions p (se_agg ev)) (se_offset ev)
         (se_seq ev) (se_agg ev) e (ev_occurred_at (se_envelope ev)) = Inr s)"
  using assms
  by (cases "ev_aggregate_type (se_envelope ev)"; cases pl)
    (auto simp: project_event_def Let_def rbind_eq_Inr insert_receipt_def
      split: tool_call_event.splits if_splits)

lemma project_lease_mono:
  assumes "project c objs lg p ev = Inr p'" "sessions_keyed p"
  shows "sessions_keyed p' \<and> lease_generation_in p i \<le> lease_generation_in p' i"
proof -
  obtain pl q where q: "project_event lg p ev pl = Inr q" and p': "p' = q\<lparr>pr_last_offset := se_offset ev\<rparr>"
    using assms(1) by (auto simp: project_def rbind_eq_Inr)
  from project_event_sessions [OF q] show ?thesis
  proof
    assume "pr_sessions q = pr_sessions p"
    then show ?thesis using assms(2) p' by (simp add: sessions_keyed_def lease_generation_in_def)
  next
    assume "\<exists>e s. pl = PSession e \<and> pr_sessions q = (pr_sessions p)(session_id s \<mapsto> s) \<and>
       project_row session_create session_apply (pr_sessions p (se_agg ev)) (se_offset ev)
         (se_seq ev) (se_agg ev) e (ev_occurred_at (se_envelope ev)) = Inr s"
    then obtain e s where upd: "pr_sessions q = (pr_sessions p)(session_id s \<mapsto> s)"
      and row: "project_row session_create session_apply (pr_sessions p (se_agg ev)) (se_offset ev)
         (se_seq ev) (se_agg ev) e (ev_occurred_at (se_envelope ev)) = Inr s" by blast
    have "session_id s = se_agg ev"
      "lease_generation_in p (se_agg ev) \<le> session_lease_generation s"
      using session_row_grows [OF row] assms(2) by (auto simp: sessions_keyed_def lease_generation_in_def)
    then show ?thesis using upd p' assms(2)
      by (auto simp: sessions_keyed_def lease_generation_in_def)
  qed
qed

lemma project_all_lease_mono:
  "project_all c objs lg p es = Inr p' \<Longrightarrow> sessions_keyed p \<Longrightarrow>
     sessions_keyed p' \<and> lease_generation_in p i \<le> lease_generation_in p' i"
proof (induction es arbitrary: p)
  case (Cons e es)
  then obtain q where q: "project c objs lg p e = Inr q" "project_all c objs lg q es = Inr p'"
    by (auto simp: rbind_eq_Inr)
  have "sessions_keyed q \<and> lease_generation_in p i \<le> lease_generation_in q i"
    by (rule project_lease_mono [OF q(1) Cons.prems(2)])
  then show ?case using Cons.IH [OF q(2)] by auto
qed simp

text \<open>Objects are never lost, so earlier events project as they did.\<close>

lemma transact_objects [simp]: "st_objects (fst (transact st r)) = st_objects (fst r)"
  by (auto simp: transact_def split: prod.splits sum.splits)

lemma leave_durability_objects [simp]:
  "st_objects (fst (leave_durability pf d r)) = st_objects (fst r)"
  by (simp add: leave_durability_def)

lemma import_loop_objects:
  "store_ok w st \<Longrightarrow> objects_le (w_codec w) (st_objects st) (st_objects (fst (import_loop w st im pr lst evs)))"
  using import_loop_body [of w st im pr lst evs] by (simp add: body_ok_def)

lemma execute_command_objects:
  "objects_le (w_codec w) (st_objects st) (st_objects (fst (execute_command_all w now st cmd reqs)))"
  using append_reqs_objects [of w st id reqs]
  by (auto simp: execute_command_all_def split: sum.split option.split prod.split)

lemma store_step_objects:
  assumes "store_ok w st" "store_step w st st'"
  shows "objects_le (w_codec w) (st_objects st) (st_objects st')"
  using assms(2)
proof (cases rule: store_step.cases)
  case step_append
  then show ?thesis
    by (auto simp: append_with_def Let_def append_committed_def append_in_objects split: sum.split)
next
  case step_fenced
  then show ?thesis
    by (auto simp: append_fenced_with_def append_fenced_committed_def Let_def append_in_objects
        split: sum.split)
next
  case step_all
  then show ?thesis by (auto simp: append_all_inner_def append_reqs_objects split: sum.split)
next
  case step_command
  then show ?thesis by (simp add: execute_command_objects)
next
  case step_import
  then show ?thesis using assms(1) by (simp add: import_envelopes_def import_loop_objects)
next
  case step_rebuild
  then show ?thesis using assms(1) by (simp add: rebuild_projections_ok)
next
  case step_recover
  then show ?thesis using recover_cases [OF assms(1)]
    by (metis event_store.select_convs(3) event_store.update_convs(6) event_store.surjective objects_le_refl)
qed

lemma store_ok_keyed:
  assumes "store_ok w st"
  shows "sessions_keyed (st_proj st)"
proof -
  have "project_all (w_codec w) (st_objects st) (st_log st) empty_projections (st_log st) = Inr (st_proj st)"
    using assms by (simp add: store_ok_def)
  moreover have "sessions_keyed empty_projections"
    by (simp add: sessions_keyed_def empty_projections_def)
  ultimately show ?thesis using project_all_lease_mono by blast
qed

lemma store_step_lease_mono:
  assumes "store_ok w st" "store_step w st st'"
  shows "lease_generation_of st i \<le> lease_generation_of st' i"
proof -
  obtain out where out: "st_log st' = st_log st @ out" and ok': "store_ok w st'"
    using store_step_ok [OF assms] by (auto simp: extends_def)
  have "project_all (w_codec w) (st_objects st') (st_log st') empty_projections (st_log st) = Inr (st_proj st)"
    using project_all_objects [OF store_step_objects [OF assms]] assms(1)
    by (simp add: out store_ok_project_all_extend [OF assms(1)] store_ok_def)
  then have "project_all (w_codec w) (st_objects st') (st_log st') (st_proj st) out = Inr (st_proj st')"
    using ok' by (simp add: store_ok_def out project_all_append)
  from project_all_lease_mono [OF this store_ok_keyed [OF assms(1)], of i] show ?thesis
    by (simp add: lease_generation_in_def lease_generation_of_def)
qed

lemma store_steps_lease_mono:
  "(store_step w)\<^sup>*\<^sup>* st st' \<Longrightarrow> store_ok w st \<Longrightarrow> lease_generation_of st i \<le> lease_generation_of st' i"
proof (induction rule: rtranclp_induct)
  case (step y z)
  then show ?case using store_step_lease_mono [of w y z i] es.steps_ok [of w st y] by fastforce
qed simp

section \<open>Contiguous ranges\<close>

text \<open>A command's first and last offset give back exactly the events it appended.\<close>

lemma filter_offsets:
  assumes "map se_offset (xs @ ys @ zs) = [1..<Suc (length (xs @ ys @ zs))]"
  shows "filter (\<lambda>e. Suc (length xs) \<le> se_offset e \<and> se_offset e \<le> length xs + length ys) (xs @ ys @ zs) = ys"
proof -
  have nth: "se_offset ((xs @ ys @ zs) ! k) = Suc k" if "k < length (xs @ ys @ zs)" for k
  proof -
    have "se_offset ((xs @ ys @ zs) ! k) = map se_offset (xs @ ys @ zs) ! k"
      by (rule nth_map [symmetric, OF that])
    also have "\<dots> = Suc k" using that unfolding assms by (simp del: upt_Suc)
    finally show ?thesis .
  qed
  let ?P = "\<lambda>e. Suc (length xs) \<le> se_offset e \<and> se_offset e \<le> length xs + length ys"
  have hx: "se_offset e \<le> length xs" if "e \<in> set xs" for e using that
    using nth by (metis Suc_leI in_set_conv_nth length_append nth_append trans_less_add1)
  have hy: "length xs < se_offset e \<and> se_offset e \<le> length xs + length ys" if "e \<in> set ys" for e
  proof -
    from that obtain k where "k < length ys" "e = ys ! k" by (metis in_set_conv_nth)
    then show "length xs < se_offset e \<and> se_offset e \<le> length xs + length ys"
      using nth [of "length xs + k"] by (simp add: nth_append)
  qed
  have hz: "length xs + length ys < se_offset e" if "e \<in> set zs" for e
  proof -
    from that obtain k where "k < length zs" "e = zs ! k" by (metis in_set_conv_nth)
    then show "length xs + length ys < se_offset e"
      using nth [of "length xs + length ys + k"] by (simp add: nth_append)
  qed
  have "filter ?P xs = []" using hx by (intro filter_False) fastforce
  moreover have "filter ?P ys = ys" using hy by (intro filter_True) (simp add: Suc_le_eq)
  moreover have "filter ?P zs = []" using hz by (intro filter_False) fastforce
  ultimately show ?thesis by simp
qed

end
