(* ===== verification/Store_Theorems.thy ===== *)
theory Store_Theorems
  imports Store_Correct "HOL-Library.Code_Target_Nat"
begin

text \<open>
  The properties of the event store, over every history of calls from an empty store, with a
  small concrete world on which each of them is evaluated.
\<close>

section \<open>Counting the events that recovery verifies\<close>

lemma sum_filter_lengths:
  "distinct ks \<Longrightarrow> f ` set xs \<subseteq> set ks \<Longrightarrow>
     sum_list (map (\<lambda>k. length (filter (\<lambda>x. f x = k) xs)) ks) = length xs"
proof (induction xs)
  case (Cons x xs)
  have step: "length (filter (\<lambda>y. f y = k) (x # xs))
      = (if k = f x then 1 else 0) + length (filter (\<lambda>y. f y = k) xs)" for k by simp
  have "sum_list (map (\<lambda>k. if k = f x then 1 else 0 :: nat) ks) = 1"
    using Cons.prems by (simp add: sum_list_distinct_conv_sum_set sum.delta)
  then show ?case unfolding step using Cons by (simp add: sum_list_addf)
qed simp

lemma verify_aggregates_ok:
  assumes "store_ok w st"
  shows "verify_aggregates w st as = Inr (sum_list (map (\<lambda>a. length (agg_log (st_log st) a)) as))"
  by (induction as) (simp_all add: verify_aggregate_ok [OF assms])

lemma verify_aggregates_proj: "verify_aggregates w (st\<lparr>st_proj := p\<rparr>) as = verify_aggregates w st as"
  by (induction as) (simp_all add: verify_aggregate_def read_aggregate_def Let_def)

lemma recover_counts:
  assumes "store_ok w st"
  shows "verify_aggregates w st (remdups (map se_agg (st_log st))) = Inr (length (st_log st))"
  using sum_filter_lengths [of "remdups (map se_agg (st_log st))" se_agg "st_log st"]
  by (simp add: verify_aggregates_ok [OF assms] agg_log_def)

lemma reachable_ok: "(store_step w)\<^sup>*\<^sup>* empty_store st \<Longrightarrow> store_ok w st"
  using es.steps_ok store_ok_empty by blast

section \<open>Replaying a command\<close>

lemma append_reqs_offsets:
  assumes "store_ok w st" "append_reqs w pre st reqs = (st', Inr out)" "out \<noteq> []"
  shows "se_offset (hd out) = Suc (length (st_log st))"
    and "se_offset (last out) = length (st_log st) + length out"
proof -
  have ok: "store_ok w st'" and log: "st_log st' = st_log st @ out"
    using append_reqs_ok [OF assms(1,2)] by simp_all
  have offs: "map se_offset (st_log st @ out) = [1..<Suc (length (st_log st @ out))]"
    using ok by (simp add: store_ok_def log del: upt_Suc)
  have nth: "se_offset ((st_log st @ out) ! k) = Suc k" if "k < length (st_log st @ out)" for k
    using arg_cong [OF offs, of "\<lambda>xs. xs ! k"] that by (simp del: upt_Suc map_append)
  show "se_offset (hd out) = Suc (length (st_log st))"
    using nth [of "length (st_log st)"] assms(3) by (simp add: hd_conv_nth nth_append)
  show "se_offset (last out) = length (st_log st) + length out"
    using nth [of "length (st_log st) + length out - 1"] assms(3)
    by (cases out rule: rev_cases) (simp_all add: nth_append)
qed

lemma read_range_recorded:
  assumes "store_ok w st" "st_log st = xs @ ys @ zs"
  shows "read_range st (Suc (length xs)) (length xs + length ys) = ys"
proof -
  have offs: "map se_offset (xs @ ys @ zs) = [1..<Suc (length (xs @ ys @ zs))]"
    using assms by (simp add: store_ok_def del: upt_Suc)
  have "filter (\<lambda>e. Suc (length xs) \<le> se_offset e \<and> se_offset e \<le> length xs + length ys) (st_log st) = ys"
    using filter_offsets [OF offs] assms(2) by simp
  moreover have "sort_key se_offset ys = ys"
  proof (rule sort_key_id_if_sorted)
    have "sorted (map se_offset xs @ map se_offset ys @ map se_offset zs)"
      using offs by (simp add: sorted_wrt_upt del: upt_Suc flip: map_append)
    then show "sorted (map se_offset ys)" by (simp add: sorted_append)
  qed
  ultimately show ?thesis by (simp add: read_range_def)
qed

lemma applied_recorded:
  assumes "store_ok w st" "execute_command_all w now st cmd reqs = (st1, Inr (Applied evs))"
    and "(store_step w)\<^sup>*\<^sup>* st1 st2" "cmd_command_id cmd' = cmd_command_id cmd"
  shows "prior_outcome st2 cmd' =
    (if cmd_request_hash cmd' = cmd_request_hash cmd then Inr (Some (Replayed evs))
     else Inl (IdempotencyConflict (cmd_command_id cmd)))"
  using assms(2)
proof (cases rule: execute_command_all_cases)
  case unchanged
  then show ?thesis using assms(1,2)
    by (auto simp: execute_command_all_def prior_outcome_def transact_def
        split: option.splits if_splits sum.splits prod.splits)
next
  case failed
  then show ?thesis using assms(2) by simp
next
  case (applied s events)
  have ok1: "store_ok w st1" using execute_command_all_ok [OF assms(1), of now cmd reqs] assms(2) by simp
  have log: "st_log s = st_log st @ evs" "st_log st1 = st_log s"
    using append_reqs_ok [OF assms(1) applied(2)] applied(3,4) by simp_all
  obtain more where more: "st_log st2 = st_log st @ evs @ more"
    using es.steps_log [OF assms(3) ok1] log by auto
  have ok2: "store_ok w st2" by (rule es.steps_ok [OF assms(3) ok1])
  have range: "read_range st2 (Suc (length (st_log st))) (length (st_log st) + length evs) = evs"
    by (rule read_range_recorded [OF ok2 more])
  obtain row where row: "st_commands st1 (cmd_command_id cmd) = Some row"
    and f: "cr_request_hash row = cmd_request_hash cmd"
      "cr_first_event_offset row = (if evs = [] then None else Some (se_offset (hd evs)))"
      "cr_last_event_offset row = (if evs = [] then None else Some (se_offset (last evs)))"
    using applied(3,4) by simp
  have "st_commands st2 (cmd_command_id cmd) = Some row"
    by (rule es.steps_ledger [OF assms(3) ok1 row])
  moreover have "evs \<noteq> [] \<Longrightarrow> read_range st2 (se_offset (hd evs)) (se_offset (last evs)) = evs"
    using append_reqs_offsets [OF assms(1) applied(2)] applied(3) range by simp
  ultimately show ?thesis using f assms(4) by (auto simp: prior_outcome_def)
qed

section \<open>What an append stores\<close>

text \<open>
  The row an event of a request becomes, field by field: where it lies, the lineage of the request,
  what the event says, and its payload \<open>q\<close>, whole up to 64 KiB of text and by digest above.
\<close>

definition stored_as ::
  "world \<Rightarrow> append_request \<Rightarrow> nat \<Rightarrow> nat \<Rightarrow> string \<Rightarrow> new_event \<Rightarrow> payload \<Rightarrow> stored_event \<Rightarrow> bool" where
  "stored_as w req off sq prev ne q e \<longleftrightarrow> (let v = se_envelope e; txt = c_text (w_codec w) q in
     se_offset e = off \<and> ev_event_id v = w_event_id w off
   \<and> ev_tenant_id v = ar_tenant_id req \<and> ev_session_id v = ar_session_id req
   \<and> ev_task_id v = ar_task_id req \<and> ev_run_id v = ar_run_id req
   \<and> ev_turn_id v = ar_turn_id req \<and> ev_step_id v = ar_step_id req
   \<and> ev_aggregate_type v = ar_aggregate_type req \<and> ev_aggregate_id v = ar_aggregate_id req
   \<and> ev_sequence v = sq \<and> ev_event_type v = ne_event_type ne \<and> ev_schema_version v = 1
   \<and> Some (ev_occurred_at v) = (if ne_occurred_at ne = None then Some (w_now w off) else ne_occurred_at ne)
   \<and> ev_actor v = ne_actor ne
   \<and> ev_causation_id v = ne_causation_id ne \<and> ev_correlation_id v = ne_correlation_id ne
   \<and> ev_payload v = (if length txt \<le> 65536 then Inline q else Object (c_sha (w_codec w) txt) (length txt))
   \<and> ev_integrity_hash v = chain_hash (w_codec w) prev v)"

lemma stored_as_sel:
  assumes "stored_as w req off sq prev ne q e"
  shows "se_agg e = ar_aggregate_id req" "se_seq e = sq" "ev_event_type (se_envelope e) = ne_event_type ne"
  using assms by (simp_all add: stored_as_def Let_def)

lemma snd_place_payload:
  "snd (place_payload c objs p) = (if length (c_text c p) \<le> 65536 then Inline p
     else Object (c_sha c (c_text c p)) (length (c_text c p)))"
  by (simp add: place_payload_def INLINE_PAYLOAD_CEILING_def Let_def case_prod_beta)

lemma append_event_stored:
  assumes "append_event w req st n prev ev = (st', Inr e)"
  shows "stored_as w req (st_next st) n prev ev (ne_payload ev) e \<and> st_next st' = Suc (st_next st)"
proof -
  let ?env = "new_envelope w req (st_next st) n prev ev (snd (place_payload (w_codec w) (st_objects st) (ne_payload ev)))"
  have e: "e = \<lparr>se_offset = st_next st, se_envelope = ?env\<rparr>" and nx: "st_next st' = Suc (st_next st)"
    using assms
    by (auto simp: append_event_def insert_and_project_def insert_event_def Let_def
        split: if_splits sum.splits prod.splits)
  have "ev_integrity_hash ?env = chain_hash (w_codec w) prev ?env" by (rule new_envelope_hash)
  then show ?thesis
    by (auto simp: e nx stored_as_def Let_def snd_place_payload new_envelope_def SCHEMA_VERSION_def
        split: option.splits)
qed

lemma append_events_stored:
  assumes "append_events w req st n prev evs = (st', Inr out)"
  shows "length out = length evs"
    and "i < length evs \<Longrightarrow> stored_as w req (st_next st + i) (n + i)
      (if i = 0 then prev else se_hash (out ! (i - 1))) (evs ! i) (ne_payload (evs ! i)) (out ! i)"
  using assms
proof (induction evs arbitrary: st n prev out i)
  case (Cons ev evs)
  {
    case 1
    then show ?case using Cons.IH(1) by (auto split: prod.splits sum.splits)
  next
    case 2
    obtain st1 e where one: "append_event w req st n prev ev = (st1, Inr e)"
      using 2(2) by (auto split: prod.splits sum.splits)
    obtain out' where out: "out = e # out'"
      and rest: "append_events w req st1 (Suc n) (se_hash e) evs = (st', Inr out')"
      using 2(2) one by (auto split: prod.splits sum.splits)
    show ?case
    proof (cases i)
      case 0
      then show ?thesis using append_event_stored [OF one] by (simp add: out)
    next
      case (Suc j)
      then have "stored_as w req (st_next st1 + j) (Suc n + j)
          (if j = 0 then se_hash e else se_hash (out' ! (j - 1))) (evs ! j) (ne_payload (evs ! j)) (out' ! j)"
        using Cons.IH(2) [OF _ rest, of j] 2(1) by simp
      moreover have "(if j = 0 then se_hash e else se_hash (out' ! (j - 1))) = se_hash (out ! (i - 1))"
        using Suc by (cases j) (simp_all add: out)
      ultimately show ?thesis using Suc append_event_stored [OF one] by (simp add: out)
    qed
  }
qed simp_all

text \<open>What the payload filter makes of an event's payload.\<close>

definition persisted_payload :: "world \<Rightarrow> new_event \<Rightarrow> payload" where
  "persisted_payload w ne = (case w_filter w of
     None \<Rightarrow> ne_payload ne | Some f \<Rightarrow> f (ne_event_type ne) (ne_payload ne))"

lemma filtered_events: "ar_events (filtered w req) = map (\<lambda>ne. ne\<lparr>ne_payload := persisted_payload w ne\<rparr>) (ar_events req)"
  by (simp add: filtered_def persisted_payload_def split: option.splits)

lemma stored_as_filtered:
  "stored_as w (filtered w req) off sq prev (ne\<lparr>ne_payload := q\<rparr>) q' e = stored_as w req off sq prev ne q' e"
proof -
  have "stored_as w (req\<lparr>ar_events := es\<rparr>) off sq prev (ne\<lparr>ne_payload := q\<rparr>) q' e = stored_as w req off sq prev ne q' e" for es
    by (simp add: stored_as_def)
  from this [of "ar_events req"] this show ?thesis by (auto simp: filtered_def split: option.splits)
qed

lemma filtered_simps [simp]:
  "ar_aggregate_id (filtered w req) = ar_aggregate_id req"
  "ar_expected_sequence (filtered w req) = ar_expected_sequence req"
  "map ne_event_type (ar_events (filtered w req)) = map ne_event_type (ar_events req)"
  "length (ar_events (filtered w req)) = length (ar_events req)"
  by (simp_all add: filtered_def split: option.splits)

lemma append_in_stored:
  assumes "append_in w st req = (st', Inr out)"
  shows "length out = length (ar_events req)"
    and "ar_expected_sequence req \<in> {None, Some (fst (head st (ar_aggregate_id req)))}"
    and "i < length out \<Longrightarrow> stored_as w req (st_next st + i) (Suc (fst (head st (ar_aggregate_id req)) + i))
      (if i = 0 then snd (head st (ar_aggregate_id req)) else se_hash (out ! (i - 1)))
      (ar_events req ! i) (ne_payload (ar_events req ! i)) (out ! i)"
proof -
  obtain n prev where hd: "head st (ar_aggregate_id req) = (n, prev)"
    by (cases "head st (ar_aggregate_id req)")
  have ap: "append_events w req st (Suc n) prev (ar_events req) = (st', Inr out)"
    and ex: "ar_expected_sequence req \<in> {None, Some n}"
    using assms hd by (auto simp: append_in_def split: option.splits if_splits)
  note stored = append_events_stored [OF ap]
  show "length out = length (ar_events req)"
    and "ar_expected_sequence req \<in> {None, Some (fst (head st (ar_aggregate_id req)))}"
    using stored(1) ex by (simp_all add: hd)
  show "i < length out \<Longrightarrow> stored_as w req (st_next st + i) (Suc (fst (head st (ar_aggregate_id req)) + i))
      (if i = 0 then snd (head st (ar_aggregate_id req)) else se_hash (out ! (i - 1)))
      (ar_events req ! i) (ne_payload (ar_events req ! i)) (out ! i)"
    using stored(2) [of i] unfolding stored(1) hd fst_conv snd_conv add_Suc .
qed

lemma append_in_agg:
  assumes "append_in w st req = (st', Inr out)"
  shows "agg_log out (ar_aggregate_id req) = out"
proof -
  have "se_agg e = ar_aggregate_id req" if e: "e \<in> set out" for e
    using e append_in_stored(3) [OF assms] stored_as_sel(1) by (metis in_set_conv_nth)
  then show ?thesis by (simp add: agg_log_def)
qed

lemma append_with_result:
  assumes "append_with w False st req d = (st', Inr out)"
  shows "append_in w st (filtered w req) = (st', Inr out)"
  using assms
  by (auto simp: append_with_def Let_def leave_durability_def append_committed_def transact_def
      split: sum.splits prod.splits)

lemma head_count:
  assumes "store_ok w st"
  shows "fst (head st a) = length (agg_log (st_log st) a)"
proof -
  have "verify_events (w_codec w) (st_objects st) 1 [] (agg_log (st_log st) a) = Inr ()"
    using assms by (simp add: store_ok_def)
  from verified_head [OF this] show ?thesis by simp
qed

lemma head_hash:
  assumes "store_ok w st"
  shows "snd (head st a) = tip_hash [] (agg_log (st_log st) a)"
proof -
  have "verify_events (w_codec w) (st_objects st) 1 [] (agg_log (st_log st) a) = Inr ()"
    using assms by (simp add: store_ok_def)
  from verified_head [OF this] show ?thesis by simp
qed

text \<open>An append that stored something has moved the head of its aggregate, for good.\<close>

lemma head_moved:
  assumes "store_ok w st" "append_in w st req = (s, Inr out)" "out \<noteq> []"
    and "store_ok w st1" "st_log st1 = st_log s" "(store_step w)\<^sup>*\<^sup>* st1 st2"
  shows "fst (head st (ar_aggregate_id req)) < fst (head st2 (ar_aggregate_id req))"
proof -
  have ok2: "store_ok w st2" by (rule es.steps_ok [OF assms(6,4)])
  have "st_log s = st_log st @ out" using append_in_ok [OF assms(1,2)] by simp
  then obtain more where "st_log st2 = st_log st @ out @ more"
    using es.steps_log [OF assms(6,4)] assms(5) by auto
  then show ?thesis
    using assms(3) append_in_agg [OF assms(2)] by (simp add: head_count [OF assms(1)] head_count [OF ok2])
qed

lemma old_sequence_refused:
  assumes "ar_expected_sequence req = Some n" "n < fst (head st (ar_aggregate_id req))"
  shows "append_in w st req = (st, Inl (SequenceConflict n (fst (head st (ar_aggregate_id req)))))"
  using assms by (cases "head st (ar_aggregate_id req)") (simp add: append_in_def)

section \<open>A connection left relaxed\<close>

text \<open>No operation but \<open>leave_durability\<close> writes the flag, so it stays set as long as the store is open.\<close>

lemma insert_and_project_stuck [simp]:
  "st_relaxed_stuck (fst (insert_and_project w st env)) = st_relaxed_stuck st"
  by (simp add: insert_and_project_def insert_event_def Let_def split: sum.split)

lemma append_event_stuck [simp]:
  "st_relaxed_stuck (fst (append_event w req st n prev ev)) = st_relaxed_stuck st"
  by (simp add: append_event_def Let_def split: prod.split)

lemma append_events_stuck [simp]:
  "st_relaxed_stuck (fst (append_events w req st n prev evs)) = st_relaxed_stuck st"
proof (induction evs arbitrary: st n prev)
  case (Cons ev evs)
  obtain st1 r where one: "append_event w req st n prev ev = (st1, r)" by (cases "append_event w req st n prev ev")
  then have same: "st_relaxed_stuck st1 = st_relaxed_stuck st" using append_event_stuck [of w req st n prev ev] by simp
  show ?case
  proof (cases r)
    case (Inr e)
    obtain st2 q where "append_events w req st1 (Suc n) (se_hash e) evs = (st2, q)"
      by (cases "append_events w req st1 (Suc n) (se_hash e) evs")
    then show ?thesis using Cons.IH [of st1 "Suc n" "se_hash e"] one same Inr by (cases q) simp_all
  qed (use one same in simp)
qed simp

lemma append_in_stuck [simp]: "st_relaxed_stuck (fst (append_in w st req)) = st_relaxed_stuck st"
  by (simp add: append_in_def split: prod.split option.split)

lemma append_reqs_stuck [simp]: "st_relaxed_stuck (fst (append_reqs w pre st reqs)) = st_relaxed_stuck st"
proof (induction reqs arbitrary: st)
  case (Cons req reqs)
  obtain st1 r where one: "append_in w st (pre req) = (st1, r)" by (cases "append_in w st (pre req)")
  then have "st_relaxed_stuck st1 = st_relaxed_stuck st" using append_in_stuck [of w st "pre req"] by simp
  then show ?case using Cons.IH [of st1] one
    by (cases r; cases "append_reqs w pre st1 reqs"; cases "snd (append_reqs w pre st1 reqs)") simp_all
qed simp

lemma transact_stuck [simp]:
  "st_relaxed_stuck (fst r) = st_relaxed_stuck st \<Longrightarrow> st_relaxed_stuck (fst (transact st r)) = st_relaxed_stuck st"
  by (cases r; cases "snd r") (auto simp: transact_def)

lemma execute_command_stuck [simp]:
  "st_relaxed_stuck (fst (execute_command_all w now st cmd reqs)) = st_relaxed_stuck st"
proof -
  obtain st1 r where ap: "append_reqs w id st reqs = (st1, r)" by (cases "append_reqs w id st reqs")
  then have "st_relaxed_stuck st1 = st_relaxed_stuck st" using append_reqs_stuck [of w id st reqs] by simp
  then show ?thesis
    by (cases r) (simp_all add: execute_command_all_def ap split: sum.split option.split)
qed

lemma import_loop_stuck [simp]:
  "st_relaxed_stuck (fst (import_loop w st im pr lst evs)) = st_relaxed_stuck st"
proof (induction evs arbitrary: st im pr lst)
  case (Cons x evs)
  obtain env pl where x: "x = (env, pl)" by (cases x)
  obtain objs q where imp: "import_payload (w_codec w) (st_objects st) env pl = (objs, q)"
    by (cases "import_payload (w_codec w) (st_objects st) env pl")
  obtain st2 r where ins: "insert_and_project w (st\<lparr>st_objects := objs\<rparr>) env = (st2, r)"
    by (cases "insert_and_project w (st\<lparr>st_objects := objs\<rparr>) env")
  then have "st_relaxed_stuck st2 = st_relaxed_stuck st"
    using insert_and_project_stuck [of w "st\<lparr>st_objects := objs\<rparr>" env] by simp
  then show ?case using Cons.IH
    by (cases q; cases r) (simp_all add: x imp ins Let_def split: prod.split)
qed simp

lemma stuck_kept:
  assumes "store_ok w st" "store_step w st st'" "st_relaxed_stuck st"
  shows "st_relaxed_stuck st'"
  using assms(2)
proof (cases rule: store_step.cases)
  case (step_all reqs g sealer)
  then show ?thesis using assms(3) by (simp add: append_all_inner_def split: sum.split)
next
  case (step_recover db_check)
  then show ?thesis using recover_cases [OF assms(1), of db_check] assms(3) by auto
qed (use assms(1,3) in \<open>simp_all add: append_with_def append_fenced_with_def enter_durability_def Let_def
      import_envelopes_def rebuild_projections_ok\<close>)

lemma stuck_steps: "(store_step w)\<^sup>*\<^sup>* st st' \<Longrightarrow> store_ok w st \<Longrightarrow> st_relaxed_stuck st \<Longrightarrow> st_relaxed_stuck st'"
proof (induction rule: rtranclp_induct)
  case (step y z)
  then show ?case using stuck_kept es.steps_ok by blast
qed simp

section \<open>A concrete world\<close>

text \<open>Payload text by constructor, a digest of the first four bytes, ids and times by offset.\<close>

definition sample_codec :: codec where
  "sample_codec = \<lparr>c_text = (\<lambda>p. case p of POther s \<Rightarrow> s | _ \<Rightarrow> ''{}''),
     c_parse = (\<lambda>s. Some (POther s)), c_actor = (\<lambda>a. ''core''), c_sha = take 4\<rparr>"

definition sample_world :: world where
  "sample_world = \<lparr>w_codec = sample_codec, w_filter = None, w_event_id = id, w_now = int\<rparr>"

definition sample_event :: "session_event \<Rightarrow> new_event" where
  "sample_event e = \<lparr>ne_event_type = session_event_type e, ne_payload = PSession e,
     ne_actor = ActorCore ''core'', ne_causation_id = None, ne_correlation_id = None,
     ne_occurred_at = None\<rparr>"

definition sample_request :: "nat option \<Rightarrow> session_event list \<Rightarrow> append_request" where
  "sample_request expected es = \<lparr>ar_tenant_id = 1, ar_session_id = 7, ar_task_id = None,
     ar_run_id = None, ar_turn_id = None, ar_step_id = None, ar_aggregate_type = AggSession,
     ar_aggregate_id = 7, ar_expected_sequence = expected, ar_events = map sample_event es\<rparr>"

definition sample_command :: command_record where
  "sample_command = \<lparr>cmd_command_id = 9, cmd_tenant_id = 1, cmd_command_type = ''open'',
     cmd_request_hash = ''h''\<rparr>"

definition sample_open :: "event_store \<times> (store_error + command_outcome)" where
  "sample_open = execute_command sample_world 0 empty_store sample_command
     (sample_request (Some 0) [SessionCreated 1 2 3, SessionLeaseAcquired 1 ''kernel''])"

definition sample_store :: event_store where
  "sample_store = fst sample_open"

definition sample_append :: "event_store \<Rightarrow> event_store \<times> (store_error + stored_event list)" where
  "sample_append st = append_with sample_world False st
     (sample_request None [SessionLeaseAcquired 2 ''other'']) Full"

definition sample_later :: event_store where
  "sample_later = fst (sample_append sample_store)"

lemma sample_store_reachable: "(store_step sample_world)\<^sup>*\<^sup>* empty_store sample_store"
  unfolding sample_store_def sample_open_def execute_command_def
  by (rule r_into_rtranclp) (rule step_command)

lemma sample_later_reachable: "(store_step sample_world)\<^sup>*\<^sup>* sample_store sample_later"
  unfolding sample_later_def sample_append_def by (rule r_into_rtranclp) (rule step_append)

lemma sample_view:
  "case sample_open of (st, r) \<Rightarrow>
     map se_offset (st_log st) = [1, 2] \<and> lease_generation_of st 7 = 1
   \<and> r = Inr (Applied (st_log st)) \<and> fst (head st 7) = 2
   \<and> (case sample_append st of (st', r') \<Rightarrow>
        map se_offset (st_log st') = [1, 2, 3] \<and> lease_generation_of st' 7 = 2
      \<and> map se_agg (st_log st') = [7, 7, 7] \<and> st_boot_generation st' = None
      \<and> fst (head st' 7) = 3
      \<and> (case r' of Inl e \<Rightarrow> False | Inr out \<Rightarrow> map se_seq out = [3]))"
  by code_simp

lemma sample_store_values:
  "map se_offset (st_log sample_store) = [1, 2]" "lease_generation_of sample_store 7 = 1"
  "snd sample_open = Inr (Applied (st_log sample_store))" "fst (head sample_store 7) = 2"
  using sample_view unfolding sample_store_def case_prod_beta by blast+

lemma sample_later_values:
  "map se_offset (st_log sample_later) = [1, 2, 3]" "lease_generation_of sample_later 7 = 2"
  "map se_agg (st_log sample_later) = [7, 7, 7]" "st_boot_generation sample_later = None"
  "fst (head sample_later 7) = 3"
  "case snd (sample_append sample_store) of Inl e \<Rightarrow> False | Inr out \<Rightarrow> map se_seq out = [3]"
  using sample_view unfolding sample_store_def sample_later_def case_prod_beta by blast+

lemma sample_append_run:
  obtains out where "sample_append sample_store = (sample_later, Inr out)" "map se_seq out = [3]"
  using sample_later_values(6) sample_later_def
  by (cases "sample_append sample_store"; cases "snd (sample_append sample_store)") auto

lemma sample_lengths: "length (st_log sample_store) = 2" "length (st_log sample_later) = 3"
  using arg_cong [OF sample_store_values(1), of length] arg_cong [OF sample_later_values(1), of length]
  by simp_all

text \<open>A project with one task, an append with a lineage, and a streamed delta.\<close>

definition sample_of :: "string \<Rightarrow> payload \<Rightarrow> new_event" where
  "sample_of ty p = \<lparr>ne_event_type = ty, ne_payload = p, ne_actor = ActorCore ''core'',
     ne_causation_id = Some 8, ne_correlation_id = None, ne_occurred_at = None\<rparr>"

definition sample_projects :: append_request where
  "sample_projects = (sample_request (Some 0) [])\<lparr>ar_aggregate_type := AggProject, ar_aggregate_id := 30,
     ar_events := map (\<lambda>e. sample_of (proj_event_type e) (PProject e))
       [ProjectCreated 30 ''Alpha'' ''accent'' ''folder'' ''/w'', ProjectMemberAdded 30 11]\<rparr>"

definition sample_grouped :: event_store where
  "sample_grouped = fst (append_with sample_world False sample_store sample_projects Full)"

definition sample_lineage :: append_request where
  "sample_lineage = (sample_request None [])\<lparr>ar_task_id := Some 5,
     ar_events := [sample_of ''SessionLeaseAcquired'' (PSession (SessionLeaseAcquired 2 ''other''))]\<rparr>"

definition sample_delta :: append_request where
  "sample_delta = (sample_request (Some 0) [])\<lparr>ar_aggregate_type := AggAssistantStream, ar_aggregate_id := 6,
     ar_events := [sample_of ''AssistantTextDelta''
       (PStream (AssistantTextDelta 6 KindText 1 3 4 5 ''he'' ''m'' CollapsibleOnComplete))]\<rparr>"

lemma sample_grouped_reachable: "(store_step sample_world)\<^sup>*\<^sup>* empty_store sample_grouped"
  unfolding sample_grouped_def
  by (rule rtranclp_trans [OF sample_store_reachable]) (rule r_into_rtranclp, rule step_append)

lemma sample_grouped_values:
  "length (st_log sample_grouped) = 4" "pr_last_offset (st_proj sample_grouped) = 4"
  "st_boot_generation sample_grouped = None"
  "read_project_rows (pr_projects (st_proj sample_grouped)) = ([(30, ''Alpha'', ''/w'', False, 4)], [(11, 30, 4)])"
  by code_simp+

section \<open>Properties\<close>

text \<open>
  C1: after any history of calls (appends, fenced appends, batches, commands, imports, rebuilds and
  recoveries, successful or not) the store is intact: every aggregate passes verification over
  all of its events, and rebuilding the projections from the log changes nothing.
\<close>

theorem history_keeps_store_intact:
  assumes "(store_step w)\<^sup>*\<^sup>* empty_store st"
  shows "store_ok w st
    \<and> (\<forall>a. verify_aggregate w st a = Inr (length (read_aggregate st a 0)))
    \<and> rebuild_projections w st = (st, Inr (length (st_log st)))"
proof -
  have ok: "store_ok w st" by (rule reachable_ok [OF assms])
  then have "verify_events (w_codec w) (st_objects st) 1 [] (agg_log (st_log st) a) = Inr ()" for a
    by (simp add: store_ok_def)
  from read_aggregate_agg_log [OF this] show ?thesis
    using ok verify_aggregate_ok [OF ok] rebuild_projections_ok [OF ok] by simp
qed

theorem history_keeps_store_intact_witness:
  "store_ok sample_world sample_later \<and> map se_offset (st_log sample_later) = [1, 2, 3]
   \<and> verify_aggregate sample_world sample_later 7 = Inr (length (read_aggregate sample_later 7 0))"
  using history_keeps_store_intact [OF rtranclp_trans [OF sample_store_reachable sample_later_reachable]]
    sample_later_values by simp



text \<open>
  C3: a command that was applied is applied once. In every later state of the store, whoever
  sends the same command id again with the same request hash gets back exactly the events of
  the first execution and changes nothing; with another hash the request is refused.
\<close>

theorem command_applied_once:
  assumes "(store_step w)\<^sup>*\<^sup>* empty_store st"
    and "execute_command_all w now st cmd reqs = (st1, Inr (Applied evs))"
    and "(store_step w)\<^sup>*\<^sup>* st1 st2"
    and "cmd_command_id cmd' = cmd_command_id cmd"
  shows "execute_command_all w now' st2 cmd' reqs' =
    (st2, if cmd_request_hash cmd' = cmd_request_hash cmd then Inr (Replayed evs)
          else Inl (IdempotencyConflict (cmd_command_id cmd)))"
  using applied_recorded [OF reachable_ok [OF assms(1)] assms(2,3,4)]
  by (simp add: execute_command_all_def)

theorem command_applied_once_witness:
  "execute_command_all sample_world 5 sample_later sample_command [] =
     (sample_later, Inr (Replayed (st_log sample_store)))
   \<and> length (st_log sample_store) = 2"
proof -
  have run: "execute_command_all sample_world 0 empty_store sample_command
      [sample_request (Some 0) [SessionCreated 1 2 3, SessionLeaseAcquired 1 ''kernel'']]
      = (sample_store, Inr (Applied (st_log sample_store)))"
    using sample_store_values(3)
    by (simp add: sample_store_def sample_open_def execute_command_def prod_eq_iff)
  show ?thesis
    using sample_lengths command_applied_once [OF rtranclp.rtrancl_refl run sample_later_reachable refl, of 5 "[]"]
    by simp
qed

text \<open>
  C4: fencing. Once a session's lease has moved past generation \<open>g\<close>, no later append fenced with
  \<open>g\<close> gets through, in whatever state the store then is: it fails and changes nothing.
\<close>

theorem stale_lease_fenced:
  assumes "(store_step w)\<^sup>*\<^sup>* empty_store st" "(store_step w)\<^sup>*\<^sup>* st st'"
    and "g < lease_generation_of st (ar_session_id req)"
  shows "append_fenced_committed w st' req g
      = (st', Inl (StaleLease g (lease_generation_of st' (ar_session_id req))))
    \<and> append_all_inner w st' (req # reqs) (Some g) sealer
      = (st', Inl (StaleLease g (lease_generation_of st' (ar_session_id req))))"
proof -
  have "g < lease_generation_of st' (ar_session_id req)"
    using store_steps_lease_mono [OF assms(2) reachable_ok [OF assms(1)]] assms(3)
    by (meson less_le_trans)
  then show "append_fenced_committed w st' req g
      = (st', Inl (StaleLease g (lease_generation_of st' (ar_session_id req))))
    \<and> append_all_inner w st' (req # reqs) (Some g) sealer
      = (st', Inl (StaleLease g (lease_generation_of st' (ar_session_id req))))"
    by (simp_all add: append_fenced_committed_def append_all_inner_def check_fence_def Let_def)
qed

theorem stale_lease_fenced_witness:
  "append_fenced_committed sample_world sample_later (sample_request None [SessionSuspended]) 0
     = (sample_later, Inl (StaleLease 0 2))"
proof -
  have "ar_session_id (sample_request None [SessionSuspended]) = 7" by (simp add: sample_request_def)
  then show ?thesis
    using stale_lease_fenced [OF sample_store_reachable sample_later_reachable,
        of 0 "sample_request None [SessionSuspended]"] sample_store_values sample_later_values by simp
qed

text \<open>
  C10: no lost update. When an append of at least one event to an aggregate succeeded, every
  later append to it that expects the sequence from before it is refused with a sequence
  conflict and stores nothing.
\<close>

theorem no_lost_update:
  assumes "(store_step w)\<^sup>*\<^sup>* empty_store st"
    and "append_with w False st req d = (st1, Inr out)" "out \<noteq> []"
    and "(store_step w)\<^sup>*\<^sup>* st1 st2"
    and "ar_aggregate_id req' = ar_aggregate_id req"
    and "ar_expected_sequence req' = Some (fst (head st (ar_aggregate_id req)))"
  shows "append_committed w st2 req' =
    (st2, Inl (SequenceConflict (fst (head st (ar_aggregate_id req)))
                (fst (head st2 (ar_aggregate_id req)))))"
proof -
  have ok: "store_ok w st" by (rule reachable_ok [OF assms(1)])
  have ap: "append_in w st (filtered w req) = (st1, Inr out)" by (rule append_with_result [OF assms(2)])
  have ok1: "store_ok w st1" using append_in_ok [OF ok ap] by simp
  show ?thesis
    using head_moved [OF ok ap assms(3) ok1 refl assms(4)] assms(5,6)
    by (simp add: append_committed_def transact_def old_sequence_refused)
qed

theorem no_lost_update_witness:
  "append_committed sample_world sample_later (sample_request (Some 2) [SessionArchived])
     = (sample_later, Inl (SequenceConflict 2 3))"
proof -
  obtain out where run: "sample_append sample_store = (sample_later, Inr out)" and out: "map se_seq out = [3]"
    by (rule sample_append_run)
  then have "out \<noteq> []" by auto
  from no_lost_update [OF sample_store_reachable run [unfolded sample_append_def] this rtranclp.rtrancl_refl,
      of "sample_request (Some 2) [SessionArchived]"]
  show ?thesis using sample_store_values(4) sample_later_values(5) by (simp add: sample_request_def)
qed

text \<open>
  C11: what a successful append stores. The log grows by exactly one row per event of the request, in
  order; every field of every row is fixed: offset and sequence are the next ones, lineage and
  aggregate are the request's, type, actor, cause and time are the event's, the payload is the
  filtered one, and the hash chains on the last event of the aggregate. The append succeeds only
  when the expected sequence, if one was given, is the number of events the aggregate has.
\<close>

theorem append_stores_request:
  assumes "(store_step w)\<^sup>*\<^sup>* empty_store st" "append_with w False st req d = (st', Inr out)"
  shows "st_log st' = st_log st @ out \<and> length out = length (ar_events req)
    \<and> (let old = read_aggregate st (ar_aggregate_id req) 0 in
         (\<forall>i < length out. stored_as w req (Suc (length (st_log st)) + i) (Suc (length old) + i)
            (tip_hash [] (old @ take i out)) (ar_events req ! i) (persisted_payload w (ar_events req ! i)) (out ! i))
       \<and> ar_expected_sequence req \<in> {None, Some (length old)}
       \<and> read_aggregate st' (ar_aggregate_id req) 0 = old @ out)"
proof -
  let ?a = "ar_aggregate_id req"
  have ok: "store_ok w st" by (rule reachable_ok [OF assms(1)])
  have ap: "append_in w st (filtered w req) = (st', Inr out)" by (rule append_with_result [OF assms(2)])
  have ok': "store_ok w st'" and log: "st_log st' = st_log st @ out" using append_in_ok [OF ok ap] by simp_all
  have read: "read_aggregate s ?a 0 = agg_log (st_log s) ?a" if "store_ok w s" for s
    using that by (intro read_aggregate_agg_log [of "w_codec w" "st_objects s"]) (simp add: store_ok_def)
  have nx: "st_next st = Suc (length (st_log st))" using ok by (simp add: store_ok_def)
  have tip: "(if i = 0 then snd (head st ?a) else se_hash (out ! (i - 1)))
      = tip_hash [] (agg_log (st_log st) ?a @ take i out)" if "i < length out" for i
    using that head_hash [OF ok, of ?a] by (cases i) (auto simp: tip_hash_def take_Suc_conv_app_nth)
  have row: "stored_as w req (Suc (length (st_log st)) + i) (Suc (length (agg_log (st_log st) ?a)) + i)
      (tip_hash [] (agg_log (st_log st) ?a @ take i out)) (ar_events req ! i)
      (persisted_payload w (ar_events req ! i)) (out ! i)" if i: "i < length out" for i
    using append_in_stored(3) [OF ap i, unfolded filtered_simps tip [OF i]] append_in_stored(1) [OF ap] i
    by (simp add: filtered_events stored_as_filtered nx head_count [OF ok])
  show ?thesis
    using row append_in_stored(1,2) [OF ap] append_in_agg [OF ap] read [OF ok] read [OF ok'] log
      head_count [OF ok, of ?a] by (simp add: Let_def)
qed

theorem append_stores_request_witness:
  "\<exists>st' e. append_with sample_world False sample_store sample_lineage Full = (st', Inr [e])
     \<and> st_log st' = st_log sample_store @ [e] \<and> se_offset e = 3 \<and> ev_task_id (se_envelope e) = Some 5
     \<and> ev_causation_id (se_envelope e) = Some 8 \<and> ev_correlation_id (se_envelope e) = None
     \<and> ev_payload (se_envelope e) = Inline (PSession (SessionLeaseAcquired 2 ''other''))"
proof -
  let ?r = "append_with sample_world False sample_store sample_lineage Full"
  have "case snd ?r of Inl e \<Rightarrow> False | Inr out \<Rightarrow> length out = 1" by code_simp
  then obtain st' e where run: "?r = (st', Inr [e])"
    by (cases ?r; cases "snd ?r") (auto simp: length_Suc_conv)
  have ev: "ar_events sample_lineage ! 0 =
      sample_of ''SessionLeaseAcquired'' (PSession (SessionLeaseAcquired 2 ''other''))" "ar_task_id sample_lineage = Some 5"
    by (simp_all add: sample_lineage_def)
  have "st_log st' = st_log sample_store @ [e]"
    "stored_as sample_world sample_lineage 3 (Suc (length (read_aggregate sample_store (ar_aggregate_id sample_lineage) 0)))
      (tip_hash [] (read_aggregate sample_store (ar_aggregate_id sample_lineage) 0)) (ar_events sample_lineage ! 0)
      (persisted_payload sample_world (ar_events sample_lineage ! 0)) e"
    using append_stores_request [OF sample_store_reachable run] by (simp_all add: Let_def sample_lengths)
  then show ?thesis using run
    by (simp add: stored_as_def ev sample_of_def persisted_payload_def sample_world_def sample_codec_def Let_def)
qed



text \<open>
  C16: a payload survives storage: what \<open>append_in\<close> places for it, inline or as an object, reads
  back as the same payload, provided the JSON text parses back and no other content is filed
  under its digest.
\<close>

theorem placed_payload_reads_back:
  assumes "place_payload c objs p = (objs', pref)"
    and "c_parse c (c_text c p) = Some p" "object_fresh c objs (c_text c p)"
    and "ev_payload (se_envelope ev) = pref"
  shows "payload_json c objs' ev = Inr p"
proof -
  have objs': "object_put c objs (c_text c p) = (objs', h) \<Longrightarrow>
      h = c_sha c (c_text c p) \<and> object_get c objs' h = Inr (c_text c p)" for h
    using object_put_get [OF assms(3)] by (metis fst_conv snd_conv snd_object_put)
  show ?thesis
    using assms(1,2) objs'
    by (auto simp: place_payload_def payload_json_def assms(4) Let_def split: if_splits prod.splits)
qed

theorem placed_payload_reads_back_witness:
  "let long = POther (replicate 70000 (CHR ''x'')); (objs, pref) = place_payload sample_codec Map.empty long;
       env = new_envelope sample_world (sample_request None []) 1 1 [] (sample_event SessionSuspended) pref
   in pref = Object (replicate 4 (CHR ''x'')) 70000
    \<and> payload_json sample_codec objs \<lparr>se_offset = 1, se_envelope = env\<rparr> = Inr long"
proof -
  let ?long = "POther (replicate 70000 (CHR ''x''))"
  have long: "c_text sample_codec ?long = replicate 70000 (CHR ''x'')"
    "c_sha sample_codec (replicate 70000 (CHR ''x'')) = replicate 4 (CHR ''x'')"
    by (simp_all add: sample_codec_def)
  have "snd (place_payload sample_codec Map.empty ?long) = Object (replicate 4 (CHR ''x'')) 70000"
    by (simp add: snd_place_payload long)
  then obtain objs where place: "place_payload sample_codec Map.empty ?long = (objs, Object (replicate 4 (CHR ''x'')) 70000)"
    by (cases "place_payload sample_codec Map.empty ?long") simp
  have "c_parse sample_codec (c_text sample_codec ?long) = Some ?long" by (simp add: sample_codec_def)
  moreover have "object_fresh sample_codec Map.empty (c_text sample_codec ?long)" by (simp add: object_fresh_def)
  ultimately show ?thesis
    unfolding Let_def place prod.case by (intro conjI refl placed_payload_reads_back [OF place]) simp_all
qed

text \<open>
  C39: membership follows the log. In every reachable store a task is in a project exactly when the
  log adds it there and does not remove it afterwards. A task is in one project at most, and
  every project with a task exists. The check recovery makes on the tables finds nothing.
\<close>

theorem membership_follows_log:
  assumes "(store_step w)\<^sup>*\<^sup>* empty_store st"
  shows "(project_of_task (pr_projects (st_proj st)) task = Some i
      \<longleftrightarrow> added_last (project_log (w_codec w) (st_objects st) (st_log st)) i task)
    \<and> (project_of_task (pr_projects (st_proj st)) task = Some i
      \<longrightarrow> map_of (pt_projects (pr_projects (st_proj st))) i \<noteq> None)
    \<and> distinct (map fst (pt_members (pr_projects (st_proj st))))
    \<and> project_tables_agree_with_log (w_codec w) (st_objects st) (st_log st) (pr_projects (st_proj st)) = Inr True"
proof -
  let ?t = "pr_projects (st_proj st)"
  have all: "project_all (w_codec w) (st_objects st) (st_log st) empty_projections (st_log st) = Inr (st_proj st)"
    using reachable_ok [OF assms] by (simp add: store_ok_def)
  have replay: "replay_projects (w_codec w) (st_objects st) no_projects (st_log st) = Inr ?t"
    using replay_projects_agrees [OF all] by (simp add: empty_projections_def)
  have start: "project_of_task no_projects k = Some j \<longleftrightarrow> added_last [] j k" for k j
    by (simp add: project_of_task_def no_projects_def added_last_def)
  have ok: "projects_ok ?t" by (rule replay_projects_ok [OF projects_ok_empty replay])
  then have "project_of_task ?t task = Some i \<longrightarrow> map_of (pt_projects ?t) i \<noteq> None" "distinct (map fst (pt_members ?t))"
    by (auto simp: projects_ok_def project_of_task_def strict_sorted_iff)
  moreover have "project_of_task ?t task = Some i
      \<longleftrightarrow> added_last (project_log (w_codec w) (st_objects st) (st_log st)) i task"
    using replay_projects_members [OF replay projects_ok_empty start] by simp
  ultimately show ?thesis using project_tables_agree [OF all, of ?t] by simp
qed

theorem membership_follows_log_witness:
  "added_last (project_log sample_codec (st_objects sample_grouped) (st_log sample_grouped)) 30 11
   \<and> map_of (pt_projects (pr_projects (st_proj sample_grouped))) 30 \<noteq> None"
proof -
  have "project_of_task (pr_projects (st_proj sample_grouped)) 11 = Some 30" by code_simp
  then show ?thesis
    using membership_follows_log [OF sample_grouped_reachable, of 11 30] by (simp add: sample_world_def)
qed

end
