(* ===== verification/Store_Replica.thy ===== *)
theory Store_Replica
  imports Store_Theorems
begin

text \<open>
  Importing a log: \<open>import_envelopes\<close> is idempotent, and a log exported from one store and
  imported into an empty one gives the same log and the same projections.
\<close>

section \<open>Importing twice\<close>

abbreviation event_ids :: "event_store \<Rightarrow> uuid set" where
  "event_ids st \<equiv> (\<lambda>e. ev_event_id (se_envelope e)) ` set (st_log st)"

lemma import_loop_present:
  assumes "\<forall>x \<in> set evs. ev_event_id (fst x) \<in> event_ids st"
  shows "import_loop w st im pr lst evs = (st, Inr (im, pr + length evs, lst))"
  using assms
proof (induction evs arbitrary: pr)
  case (Cons x evs)
  have "list_ex (\<lambda>e. ev_event_id (se_envelope e) = ev_event_id (fst x)) (st_log st)"
    using Cons.prems by (auto simp: list_ex_iff)
  then show ?case using Cons by (cases x) simp
qed simp

lemma import_loop_takes:
  assumes "store_ok w st" "import_loop w st im pr lst evs = (st', Inr (im', pr', lst'))"
  shows "im' + pr' = im + pr + length evs \<and> event_ids st \<subseteq> event_ids st'
    \<and> (\<forall>x \<in> set evs. ev_event_id (fst x) \<in> event_ids st')"
  using assms
proof (induction evs arbitrary: st im pr lst)
  case (Cons x evs)
  obtain env pl where x: "x = (env, pl)" by (cases x)
  show ?case
  proof (cases "list_ex (\<lambda>e. ev_event_id (se_envelope e) = ev_event_id env) (st_log st)")
    case True
    then have loop: "import_loop w st im (pr + 1) lst evs = (st', Inr (im', pr', lst'))"
      using Cons.prems(2) x by simp
    have "ev_event_id env \<in> event_ids st" using True unfolding list_ex_iff by (metis image_eqI)
    with loop show ?thesis using Cons.IH [OF Cons.prems(1) loop] x by auto
  next
    case False
    then show ?thesis
    proof (cases rule: import_loop_Cons [OF False Cons.prems(1), of im pr lst pl evs,
          case_names refused taken])
      case (refused st1 e)
      then show ?thesis using Cons.prems(2) x by simp
    next
      case (taken st2 stored)
      then have loop: "import_loop w st2 (im + 1) pr (se_offset stored) evs = (st', Inr (im', pr', lst'))"
        using Cons.prems(2) x by simp
      show ?thesis using Cons.IH [OF taken(2) loop] taken(4,5) x by auto
    qed
  qed
qed simp

section \<open>A replica of a log\<close>

definition exported :: "(stored_event \<Rightarrow> payload) \<Rightarrow> stored_event list \<Rightarrow> (event_envelope \<times> payload) list" where
  "exported pl es = map (\<lambda>e. (se_envelope e, pl e)) es"

text \<open>The payload sent with an event is the content of its object.\<close>

definition payloads_sent :: "codec \<Rightarrow> event_store \<Rightarrow> (stored_event \<Rightarrow> payload) \<Rightarrow> bool" where
  "payloads_sent c st pl \<longleftrightarrow>
     (\<forall>e \<in> set (st_log st). case ev_payload (se_envelope e) of
        Inline _ \<Rightarrow> True | Object h _ \<Rightarrow> st_objects st h = Some (c_text c (pl e)))"

lemma import_payload_sent:
  assumes "objects_ok c (st_objects st)" "objs \<subseteq>\<^sub>m st_objects st"
    and "case ev_payload env of Inline _ \<Rightarrow> True | Object h _ \<Rightarrow> st_objects st h = Some (c_text c p)"
  shows "\<exists>objs'. import_payload c objs env p = (objs', Inr ()) \<and> objs' \<subseteq>\<^sub>m st_objects st
    \<and> (\<forall>h n. ev_payload env = Object h n \<longrightarrow> objs' h = Some (c_text c p))"
proof (cases "ev_payload env")
  case (Inline q)
  then show ?thesis using assms(2) by (simp add: import_payload_def)
next
  case (Object h n)
  then have have_h: "st_objects st h = Some (c_text c p)" and sha: "c_sha c (c_text c p) = h"
    using assms(1,3) by (auto simp: objects_ok_def)
  have "objs h = Some (c_text c p)" if "objs h \<noteq> None"
    using that assms(2) have_h by (metis domIff map_le_def)
  then show ?thesis using Object sha have_h assms(2)
    by (auto simp: import_payload_def object_put_def Let_def map_le_def)
qed

lemma replica_objects_le:
  assumes "objects_ok c b" "a \<subseteq>\<^sub>m b"
  shows "objects_le c a b"
proof -
  have "b h = Some x" if "a h = Some x" for h x
    using that assms(2) by (metis domI map_le_def)
  then show ?thesis using assms(1) by (auto simp: objects_le_def object_get_Inr)
qed

lemma fresh_sequence:
  assumes "verify_events c objs 1 [] (agg_log xs a) = Inr ()" "f \<in> set xs" "se_agg f = a"
  shows "se_seq f \<le> length (agg_log xs a)"
proof -
  have "se_seq f \<in> set (map se_seq (agg_log xs a))" using assms(2,3) by (auto simp: agg_log_def)
  then show ?thesis unfolding verify_events_seqs [OF assms(1)] by auto
qed

lemma import_projects:
  assumes src: "store_ok w st" "st_log st = xs @ e # ys"
    and rep: "store_ok w s" "st_log s = xs" "objects_le (w_codec w) (st_objects s) (st_objects st)"
    and same: "payload_json (w_codec w) (st_objects s) e = payload_json (w_codec w) (st_objects st) e"
  shows "\<exists>p. project (w_codec w) (st_objects s) (xs @ [e]) (st_proj s) e = Inr p"
proof -
  let ?c = "w_codec w" and ?o = "st_objects st"
  have "project_all ?c (st_objects s) xs empty_projections xs = Inr (st_proj s)"
    using rep(1,2) by (simp add: store_ok_def)
  then have "project_all ?c ?o xs empty_projections xs = Inr (st_proj s)"
    by (rule project_all_objects [OF rep(3)])
  then have pre: "project_all ?c ?o (xs @ e # ys) empty_projections xs = Inr (st_proj s)"
    using store_ok_project_all_extend [OF rep(1), of ?c ?o "e # ys" empty_projections] rep(2) by simp
  have "project_all ?c ?o (xs @ e # ys) empty_projections (xs @ e # ys) = Inr (st_proj st)"
    using src by (simp add: store_ok_def)
  then obtain q where q: "project ?c ?o (xs @ e # ys) (st_proj s) e = Inr q"
    using pre by (auto simp: project_all_append rbind_eq_Inr)
  have "verify_events ?c ?o 1 [] (agg_log ((xs @ [e]) @ ys) (se_agg e)) = Inr ()"
    using src by (simp add: store_ok_def)
  then have v: "verify_events ?c ?o 1 [] (agg_log (xs @ [e]) (se_agg e)) = Inr ()"
    unfolding agg_log_append [of "xs @ [e]"] verify_events_append by simp
  have "se_seq e > 1 \<longrightarrow> has_event_at (xs @ [e]) (se_agg e) (se_seq e - 1)"
    using verified_has_predecessor [OF v] by simp
  from project_extend [OF this, of ?c ?o ys "st_proj s"] q
  have "project ?c ?o (xs @ [e]) (st_proj s) e = Inr q" by simp
  then show ?thesis using same by (auto simp: project_def rbind_eq_Inr)
qed

text \<open>The next event of the source log is taken by the replica as it is.\<close>

lemma import_next:
  assumes src: "store_ok w st" "payloads_sent (w_codec w) st pl" "st_log st = xs @ e # ys"
    and rep: "store_ok w s" "st_log s = xs" "st_objects s \<subseteq>\<^sub>m st_objects st"
  shows "\<exists>s'. import_loop w s im pr lst (exported pl (e # ys))
      = import_loop w s' (im + 1) pr (Suc (length xs)) (exported pl ys)
    \<and> store_ok w s' \<and> st_log s' = xs @ [e] \<and> st_objects s' \<subseteq>\<^sub>m st_objects st"
proof -
  let ?c = "w_codec w" and ?env = "se_envelope e"
  have oko: "objects_ok ?c (st_objects st)" using src(1) by (simp add: store_ok_def)
  have ids: "distinct (map (\<lambda>e. ev_event_id (se_envelope e)) (xs @ e # ys))"
    and offs: "map se_offset (xs @ e # ys) = [1..<Suc (length (xs @ e # ys))]"
    using src(1,3) by (simp_all add: store_ok_def del: upt_Suc)
  have off: "se_offset e = Suc (length xs)"
    using arg_cong [OF offs, of "\<lambda>l. l ! length xs"] by (simp add: nth_append del: upt_Suc)
  have new: "\<not> list_ex (\<lambda>f. ev_event_id (se_envelope f) = ev_event_id ?env) (st_log s)"
    using ids rep(2) unfolding list_ex_iff by (simp add: image_iff) metis
  have vs: "verify_events ?c (st_objects s) 1 [] (agg_log xs (se_agg e)) = Inr ()"
    using rep(1,2) by (simp add: store_ok_def)
  have hd: "head s (se_agg e) = (length (agg_log xs (se_agg e)), tip_hash [] (agg_log xs (se_agg e)))"
    using verified_head [of ?c "st_objects s" s "se_agg e"] vs rep(2) by simp
  have "agg_log (st_log st) (se_agg e) = agg_log xs (se_agg e) @ e # agg_log ys (se_agg e)"
    by (simp add: src(3) agg_log_def)
  then have "verify_events ?c (st_objects st) 1 [] (agg_log xs (se_agg e) @ e # agg_log ys (se_agg e)) = Inr ()"
    using src(1) unfolding store_ok_def by metis
  then have "verify_events ?c (st_objects st) (1 + length (agg_log xs (se_agg e)))
      (tip_hash [] (agg_log xs (se_agg e))) (e # agg_log ys (se_agg e)) = Inr ()"
    unfolding verify_events_append by blast
  then have seq: "ev_sequence ?env = length (agg_log xs (se_agg e)) + 1"
    and hash: "chain_hash ?c (tip_hash [] (agg_log xs (se_agg e))) ?env = ev_integrity_hash ?env"
    by (auto simp: rbind_eq_Inr split: if_splits)
  obtain objs where ip: "import_payload ?c (st_objects s) ?env (pl e) = (objs, Inr ())"
    and objs: "objs \<subseteq>\<^sub>m st_objects st"
    and got: "\<forall>h n. ev_payload ?env = Object h n \<longrightarrow> objs h = Some (c_text ?c (pl e))"
    using import_payload_sent [OF oko rep(3), where env = ?env and p = "pl e"] src(2,3)
    by (auto simp: payloads_sent_def)
  let ?s1 = "s\<lparr>st_objects := objs\<rparr>"
  have le1: "objects_le ?c (st_objects s) objs"
    using import_payload_objects [of ?c "st_objects s" ?env "pl e"] ip by simp
  have ok1: "store_ok w ?s1" by (rule store_ok_objects [OF rep(1) le1])
  have cont: "continues w ?s1 ?env"
  proof -
    have "object_get ?c objs h = Inr (c_text ?c (pl e))" if "ev_payload ?env = Object h n" for h n
      using got that src(2,3) oko by (auto simp: payloads_sent_def object_get_Inr objects_ok_def)
    then show ?thesis using hd seq hash by (auto simp: continues_def)
  qed
  have "payload_json ?c objs e = payload_json ?c (st_objects st) e"
    using got src(2,3) by (auto simp: payloads_sent_def payload_json_def object_get_def split: payload_ref.splits)
  then obtain p where p: "project ?c objs (xs @ [e]) (st_proj s) e = Inr p"
    using import_projects [OF src(1,3) ok1] rep(2) replica_objects_le [OF oko objs] by auto
  have nxt: "st_next s = Suc (length xs)" using rep(1,2) by (simp add: store_ok_def)
  have ev: "\<lparr>se_offset = Suc (length xs), se_envelope = ?env\<rparr> = e"
    using off by (intro stored_event.equality) simp_all
  have fresh: "\<not> list_ex (\<lambda>f. ev_event_id (se_envelope f) = ev_event_id ?env
      \<or> se_agg f = ev_aggregate_id ?env \<and> se_seq f = ev_sequence ?env) (st_log s)"
    using new fresh_sequence [OF vs] seq rep(2) by (fastforce simp: list_ex_iff)
  obtain s' where ins: "insert_and_project w ?s1 ?env = (s', Inr e)"
    using fresh p by (auto simp: insert_and_project_def insert_event_def Let_def rep(2) nxt ev)
  note done' = insert_and_project_ok [OF ok1 cont ins]
  have "import_loop w s im pr lst (exported pl (e # ys))
      = import_loop w s' (im + 1) pr (Suc (length xs)) (exported pl ys)"
    using new hd seq hash ip ins off by (simp add: exported_def)
  then show ?thesis using done' rep(2) objs by auto
qed

lemma import_rest:
  assumes "store_ok w st" "payloads_sent (w_codec w) st pl" "st_log st = xs @ ys"
    and "store_ok w s" "st_log s = xs" "st_objects s \<subseteq>\<^sub>m st_objects st"
  shows "\<exists>s'. import_loop w s (length xs) 0 (length xs) (exported pl ys)
      = (s', Inr (length (st_log st), 0, length (st_log st)))
    \<and> store_ok w s' \<and> st_log s' = st_log st \<and> st_objects s' \<subseteq>\<^sub>m st_objects st"
  using assms(3-)
proof (induction ys arbitrary: xs s)
  case Nil
  then show ?case by (simp add: exported_def)
next
  case (Cons e ys)
  obtain s1 where s1: "import_loop w s (length xs) 0 (length xs) (exported pl (e # ys))
      = import_loop w s1 (length xs + 1) 0 (Suc (length xs)) (exported pl ys)"
    "store_ok w s1" "st_log s1 = xs @ [e]" "st_objects s1 \<subseteq>\<^sub>m st_objects st"
    using import_next [OF assms(1,2) Cons.prems] by blast
  show ?case using Cons.IH [of "xs @ [e]" s1] Cons.prems(1) s1 by simp
qed

lemma same_log_same_projections:
  assumes "store_ok w s" "store_ok w st" "st_log s = st_log st"
    and "objects_le (w_codec w) (st_objects s) (st_objects st)"
  shows "st_proj s = st_proj st"
proof -
  have "project_all (w_codec w) (st_objects s) (st_log st) empty_projections (st_log st) = Inr (st_proj s)"
    using assms(1,3) by (simp add: store_ok_def)
  from project_all_objects [OF assms(4) this] show ?thesis using assms(2) by (simp add: store_ok_def)
qed

section \<open>Properties\<close>

text \<open>
  C8: a store imported from another is its replica. Sending the whole log with its payloads into
  an empty store imports every event under the offset it had, and gives the same log and the
  same projections.
\<close>

theorem import_replicates:
  assumes "(store_step w)\<^sup>*\<^sup>* empty_store st" "payloads_sent (w_codec w) st pl"
  shows "\<exists>s. import_envelopes w empty_store (exported pl (st_log st))
      = (s, Inr (length (st_log st), 0, length (st_log st)))
    \<and> st_log s = st_log st \<and> st_proj s = st_proj st"
proof -
  have ok: "store_ok w st" by (rule reachable_ok [OF assms(1)])
  have oko: "objects_ok (w_codec w) (st_objects st)" using ok by (simp add: store_ok_def)
  obtain s where s: "import_loop w empty_store 0 0 0 (exported pl (st_log st))
      = (s, Inr (length (st_log st), 0, length (st_log st)))"
    "store_ok w s" "st_log s = st_log st" "st_objects s \<subseteq>\<^sub>m st_objects st"
    using import_rest [OF ok assms(2), of "[]" "st_log st" empty_store] store_ok_empty
    by (auto simp: empty_store_def)
  have "last_offset empty_store = 0" by (simp add: last_offset_def empty_store_def)
  then have "import_envelopes w empty_store (exported pl (st_log st))
      = (s, Inr (length (st_log st), 0, length (st_log st)))"
    using s(1) by (simp add: import_envelopes_def transact_def)
  then show ?thesis
    using s same_log_same_projections [OF s(2) ok s(3) replica_objects_le [OF oko s(4)]] by auto
qed

theorem import_replicates_witness:
  "\<exists>s. import_envelopes sample_world empty_store (exported (\<lambda>_. POther []) (st_log sample_later))
      = (s, Inr (3, 0, 3)) \<and> map se_offset (st_log s) = [1, 2, 3] \<and> lease_generation_of s 7 = 2"
proof -
  have "\<forall>e \<in> set (st_log sample_later). case ev_payload (se_envelope e) of Inline _ \<Rightarrow> True | Object _ _ \<Rightarrow> False"
    by code_simp
  then have "payloads_sent (w_codec sample_world) sample_later (\<lambda>_. POther [])"
    by (auto simp: payloads_sent_def split: payload_ref.splits)
  from import_replicates [OF rtranclp_trans [OF sample_store_reachable sample_later_reachable] this]
  show ?thesis using sample_later_values(1,2) sample_lengths(2)
    by (auto simp: lease_generation_of_def)
qed

text \<open>
  C15: importing is idempotent. After a batch was imported, importing it again, in any later state
  of the store, finds every envelope present and changes nothing.
\<close>

theorem import_idempotent:
  assumes "(store_step w)\<^sup>*\<^sup>* empty_store st" "import_envelopes w st evs = (st1, Inr (im, pr, lst))"
    and "(store_step w)\<^sup>*\<^sup>* st1 st2"
  shows "im + pr = length evs
    \<and> import_envelopes w st2 evs = (st2, Inr (0, length evs, last_offset st2))"
proof -
  have ok: "store_ok w st" by (rule reachable_ok [OF assms(1)])
  have loop: "import_loop w st 0 0 (last_offset st) evs = (st1, Inr (im, pr, lst))"
    using assms(2) by (auto simp: import_envelopes_def transact_def split: prod.splits sum.splits)
  note takes = import_loop_takes [OF ok loop]
  have ok1: "store_ok w st1" using import_envelopes_ok [OF ok, of evs] assms(2) by simp
  have "event_ids st1 \<subseteq> event_ids st2" using es.steps_log [OF assms(3) ok1] by auto
  then have "\<forall>x \<in> set evs. ev_event_id (fst x) \<in> event_ids st2" using takes by blast
  from import_loop_present [OF this, of w 0 0 "last_offset st2"] show ?thesis
    using takes by (simp add: import_envelopes_def transact_def)
qed

theorem import_idempotent_witness:
  "\<exists>s. import_envelopes sample_world empty_store (exported (\<lambda>_. POther []) (st_log sample_store)) = (s, Inr (2, 0, 2))
     \<and> import_envelopes sample_world s (exported (\<lambda>_. POther []) (st_log sample_store)) = (s, Inr (0, 2, last_offset s))"
proof -
  let ?evs = "exported (\<lambda>_. POther []) (st_log sample_store)"
  have "snd (import_envelopes sample_world empty_store ?evs) = Inr (2, 0, 2)" by code_simp
  then have run: "import_envelopes sample_world empty_store ?evs
      = (fst (import_envelopes sample_world empty_store ?evs), Inr (2, 0, 2))"
    by (simp add: prod_eq_iff)
  from import_idempotent [OF rtranclp.rtrancl_refl run rtranclp.rtrancl_refl] run sample_lengths(1)
  show ?thesis by (intro exI conjI) (simp_all add: exported_def)
qed

end
