(* ===== verification/Store_Integrity.thy ===== *)
theory Store_Integrity
  imports Store_Replica
begin

text \<open>
  What the hashes of the store give a reader who does not trust the disk: two different
  verified histories of an aggregate have different heads, and the receipt chain of the
  effects stays verified however receipts are appended in sealed batches.
\<close>

section \<open>Two verified logs with the same head\<close>

fun hash_inputs :: "codec \<Rightarrow> string \<Rightarrow> stored_event list \<Rightarrow> string list" where
  "hash_inputs c prev [] = []"
| "hash_inputs c prev (e # es) =
     (prev @ canonical_content c (se_envelope e)) # hash_inputs c (se_hash e) es"

lemma codec_faithful_mono: "codec_faithful c E \<Longrightarrow> F \<subseteq> E \<Longrightarrow> codec_faithful c F"
  unfolding codec_faithful_def by (intro conjI) blast+

lemma same_tip_same_log:
  assumes len: "\<And>x. length (c_sha c x) = 64"
    and good: "\<forall>e \<in> E. envelope_ok e" "codec_faithful c E" "inj_on (c_sha c) I"
    and "verify_events c o1 n prev xs = Inr ()" "verify_events c o2 n prev' ys = Inr ()"
    and "length xs = length ys" "length prev = length prev'"
    and "tip_hash prev xs = tip_hash prev' ys"
    and "se_envelope ` (set xs \<union> set ys) \<subseteq> E"
    and "set (hash_inputs c prev xs) \<union> set (hash_inputs c prev' ys) \<subseteq> I"
  shows "prev = prev' \<and> map se_envelope xs = map se_envelope ys"
  using assms(5-)
proof (induction xs arbitrary: ys n prev prev')
  case Nil
  then show ?case by (simp add: tip_hash_def)
next
  case (Cons e xs)
  obtain f zs where ys: "ys = f # zs" using Cons.prems(3) by (cases ys) auto
  have e: "chain_hash c prev (se_envelope e) = se_hash e" "verify_events c o1 (Suc n) (se_hash e) xs = Inr ()"
    and f: "chain_hash c prev' (se_envelope f) = se_hash f" "verify_events c o2 (Suc n) (se_hash f) zs = Inr ()"
    using Cons.prems(1,2) ys by (auto simp: rbind_eq_Inr split: if_splits)
  have lens: "length (se_hash e) = length (se_hash f)"
    using len e(1) f(1) unfolding chain_hash_def by metis
  have tips: "tip_hash (se_hash e) xs = tip_hash (se_hash f) zs"
    using Cons.prems(3,5) ys by (auto simp: tip_hash_def split: if_splits)
  have rest: "se_hash e = se_hash f \<and> map se_envelope xs = map se_envelope zs"
    using Cons.IH [OF e(2) f(2) _ lens tips] Cons.prems(3,6,7) ys by auto
  then have "c_sha c (prev @ canonical_content c (se_envelope e)) = c_sha c (prev' @ canonical_content c (se_envelope f))"
    using e(1) f(1) unfolding chain_hash_def by simp
  then have "prev @ canonical_content c (se_envelope e) = prev' @ canonical_content c (se_envelope f)"
    using Cons.prems(7) ys good(3) by (auto dest: inj_onD)
  then have "prev = prev'" and cc: "canonical_content c (se_envelope e) = canonical_content c (se_envelope f)"
    using Cons.prems(4) by simp_all
  moreover have "se_envelope e = se_envelope f"
  proof (rule canonical_content_inject [OF cc])
    show "codec_faithful c {se_envelope e, se_envelope f}"
      using codec_faithful_mono [OF good(2)] Cons.prems(6) ys by simp
  qed (use Cons.prems(6) ys good(1) rest in auto)
  ultimately show ?case using rest ys by simp
qed

lemma verify_aggregate_Inr:
  "verify_aggregate w st a = Inr n \<longleftrightarrow>
     verify_events (w_codec w) (st_objects st) 1 [] (read_aggregate st a 0) = Inr ()
   \<and> n = length (read_aggregate st a 0)"
  by (auto simp: verify_aggregate_def Let_def rbind_eq_Inr)

lemma head_read_aggregate:
  assumes "read_aggregate st a 0 \<noteq> []"
  shows "snd (head st a) = se_hash (last (read_aggregate st a 0))"
proof -
  let ?all = "sort_key se_seq (filter (\<lambda>e. se_agg e = a) (st_log st))"
  have read: "read_aggregate st a 0 = filter (\<lambda>e. 0 < se_seq e) ?all"
    by (simp add: read_aggregate_def filter_sort conj_commute)
  then obtain e where e: "e \<in> set ?all" "0 < se_seq e"
    using assms by (metis filter_empty_conv)
  then obtain zs z where z: "?all = zs @ [z]" by (metis append_butlast_last_id empty_iff list.set(1))
  have "sorted (map se_seq (zs @ [z]))" unfolding z [symmetric] by (rule sorted_sort_key)
  then have "se_seq e \<le> se_seq z" using e(1) unfolding z by (auto simp: sorted_append)
  then have "last (filter (\<lambda>e. 0 < se_seq e) (zs @ [z])) = z" using e(2) by simp
  then show ?thesis unfolding head_def Let_def read z by simp
qed

section \<open>Receipts\<close>

text \<open>The receipt an event carries, if it carries one, and that it is named and sealed as such.\<close>

definition receipt_in :: "payload \<Rightarrow> effect_receipt option" where
  "receipt_in p = (case p of PToolCall (EffectReceiptAppended r) \<Rightarrow> Some r | _ \<Rightarrow> None)"

definition receipt_sound :: "receipt_digest \<Rightarrow> new_event \<Rightarrow> bool" where
  "receipt_sound H ev \<longleftrightarrow> (case receipt_in (ne_payload ev) of None \<Rightarrow> True
     | Some r \<Rightarrow> ne_event_type ev = RECEIPT_EVENT \<and> receipt_hash H r = er_receipt_hash r)"

definition receipts_ok :: "receipt_digest \<Rightarrow> event_store \<Rightarrow> bool" where
  "receipts_ok H st \<longleftrightarrow> verify_chain H (pr_receipts (st_proj st)) = Inr ()"

lemma project_event_receipts:
  assumes "project_event lg p ev pl = Inr p'"
  shows "pr_receipts p' = pr_receipts p \<or>
    (\<exists>r. receipt_in pl = Some r \<and> pr_receipts p' = pr_receipts p @ [r])"
  using assms
  by (cases "ev_aggregate_type (se_envelope ev)"; cases pl)
    (auto simp: project_event_def Let_def rbind_eq_Inr insert_receipt_def receipt_in_def
      split: tool_call_event.splits if_splits)

lemma append_event_receipts:
  assumes "append_event w req st n prev ev = (st', Inr e)"
    and "receipts_ok H st" "receipt_sound H ev"
    and "ev_payload (se_envelope e) = Inline q"
  shows "receipts_ok H st'"
proof -
  have q: "q = ne_payload ev"
    using append_event_stored [OF assms(1)] assms(4) by (simp add: stored_as_def Let_def split: if_splits)
  obtain lg p where p: "project_event lg (st_proj st) e q = Inr p" "st_proj st' = p\<lparr>pr_last_offset := se_offset e\<rparr>"
    and guard: "ne_event_type ev = RECEIPT_EVENT \<longrightarrow> presented_hash (ne_payload ev) = last_receipt_hash (st_proj st)"
    using assms(1,4)
    by (auto simp: append_event_def insert_and_project_def insert_event_def Let_def project_def
        payload_json_def rbind_eq_Inr split: if_splits sum.splits prod.splits)
  from project_event_receipts [OF p(1)] show ?thesis
  proof
    assume "pr_receipts p = pr_receipts (st_proj st)"
    then show ?thesis using assms(2) p(2) by (simp add: receipts_ok_def)
  next
    assume "\<exists>r. receipt_in q = Some r \<and> pr_receipts p = pr_receipts (st_proj st) @ [r]"
    then obtain r where r: "receipt_in (ne_payload ev) = Some r"
      and rows: "pr_receipts p = pr_receipts (st_proj st) @ [r]" using q by blast
    then have "er_previous_receipt_hash r = last_receipt_hash (st_proj st)" "receipt_hash H r = er_receipt_hash r"
      using guard assms(3)
      by (auto simp: receipt_sound_def receipt_in_def presented_hash_def split: payload.splits tool_call_event.splits)
    then show ?thesis using assms(2) p(2) rows
      by (simp add: receipts_ok_def verify_chain_ok receipts.chained_append last_receipt_hash_def receipts.tip_def)
  qed
qed

abbreviation all_inline :: "stored_event list \<Rightarrow> bool" where
  "all_inline out \<equiv> \<forall>e \<in> set out. \<exists>q. ev_payload (se_envelope e) = Inline q"

lemma append_events_receipts:
  assumes "append_events w req st n prev evs = (st', Inr out)"
    and "receipts_ok H st" "\<forall>ev \<in> set evs. receipt_sound H ev" "all_inline out"
  shows "receipts_ok H st'"
  using assms
proof (induction evs arbitrary: st n prev out)
  case (Cons ev evs)
  obtain st1 e where one: "append_event w req st n prev ev = (st1, Inr e)"
    using Cons.prems(1) by (auto split: prod.splits sum.splits)
  obtain out' where out: "out = e # out'"
    and rest: "append_events w req st1 (Suc n) (se_hash e) evs = (st', Inr out')"
    using Cons.prems(1) one by (auto split: prod.splits sum.splits)
  obtain q where "ev_payload (se_envelope e) = Inline q" using Cons.prems(4) out by auto
  then have "receipts_ok H st1"
    using append_event_receipts [OF one Cons.prems(2)] Cons.prems(3) by simp
  then show ?case using Cons.IH [OF rest] Cons.prems(3,4) out by simp
qed simp

lemma append_in_receipts:
  assumes "append_in w st req = (st', Inr out)" "receipts_ok H st"
    and "\<forall>ev \<in> set (ar_events req). receipt_sound H ev" "all_inline out"
  shows "receipts_ok H st'"
proof -
  obtain n prev where "append_events w req st n prev (ar_events req) = (st', Inr out)"
    using assms(1) by (auto simp: append_in_def split: option.splits if_splits prod.splits)
  from append_events_receipts [OF this assms(2-4)] show ?thesis .
qed

lemma append_reqs_receipts:
  assumes "append_reqs w pre st reqs = (st', Inr out)" "receipts_ok H st"
    and "\<forall>req \<in> set reqs. \<forall>ev \<in> set (ar_events (pre req)). receipt_sound H ev" "all_inline out"
  shows "receipts_ok H st'"
  using assms
proof (induction reqs arbitrary: st out)
  case (Cons req reqs)
  obtain st1 o1 where one: "append_in w st (pre req) = (st1, Inr o1)"
    using Cons.prems(1) by (auto split: prod.splits sum.splits)
  obtain o2 where out: "out = o1 @ o2" and rest: "append_reqs w pre st1 reqs = (st', Inr o2)"
    using Cons.prems(1) one by (auto split: prod.splits sum.splits)
  have "receipts_ok H st1"
    using append_in_receipts [OF one Cons.prems(2)] Cons.prems(3,4) out by simp
  then show ?case using Cons.IH [OF rest] Cons.prems(3,4) out by simp
qed simp

text \<open>Events are named after what they carry; sealing then makes every receipt sound.\<close>

definition receipts_named :: "append_request list \<Rightarrow> bool" where
  "receipts_named reqs \<longleftrightarrow> (\<forall>req \<in> set reqs. \<forall>ev \<in> set (ar_events req).
     receipt_in (ne_payload ev) \<noteq> None \<longrightarrow> ne_event_type ev = RECEIPT_EVENT)"

lemma seal_events_sound:
  assumes "seal_events (seal H) tail evs = Inr (tail', evs')"
    and "\<forall>ev \<in> set evs. receipt_in (ne_payload ev) \<noteq> None \<longrightarrow> ne_event_type ev = RECEIPT_EVENT"
  shows "\<forall>ev \<in> set evs'. receipt_sound H ev"
  using assms
proof (induction evs arbitrary: tail tail' evs')
  case (Cons ev evs)
  have sealed: "receipt_sound H (ev\<lparr>ne_payload := PToolCall (EffectReceiptAppended (seal H r))\<rparr>)"
    if "ne_event_type ev = RECEIPT_EVENT" for r
    using that by (simp add: receipt_sound_def receipt_in_def receipts.digest_sealed receipts.own_sealed)
  have other: "receipt_sound H ev" if "receipt_in (ne_payload ev) = None"
    using that by (simp add: receipt_sound_def)
  show ?case
  proof (cases "ne_event_type ev = RECEIPT_EVENT")
    case False
    then have "receipt_in (ne_payload ev) = None" using Cons.prems(2) by auto
    then show ?thesis using False Cons.prems Cons.IH other by (auto simp: rbind_eq_Inr)
  next
    case True
    then show ?thesis using Cons.prems Cons.IH other sealed
      by (auto simp: rbind_eq_Inr Let_def receipt_in_def split: payload.splits tool_call_event.splits)
  qed
qed simp

lemma seal_requests_sound:
  assumes "seal_requests (seal H) tail reqs = Inr reqs'" "receipts_named reqs"
  shows "\<forall>req \<in> set reqs'. \<forall>ev \<in> set (ar_events req). receipt_sound H ev"
  using assms
proof (induction reqs arbitrary: tail reqs')
  case (Cons req reqs)
  obtain t es rs where se: "seal_events (seal H) tail (ar_events req) = Inr (t, es)"
    and sr: "seal_requests (seal H) t reqs = Inr rs" and reqs': "reqs' = req\<lparr>ar_events := es\<rparr> # rs"
    using Cons.prems(1) by (auto simp: rbind_eq_Inr)
  have "\<forall>ev \<in> set es. receipt_sound H ev"
    by (rule seal_events_sound [OF se]) (use Cons.prems(2) in \<open>simp add: receipts_named_def\<close>)
  moreover have "\<forall>req \<in> set rs. \<forall>ev \<in> set (ar_events req). receipt_sound H ev"
    by (rule Cons.IH [OF sr]) (use Cons.prems(2) in \<open>simp add: receipts_named_def\<close>)
  ultimately show ?case using reqs' by simp
qed simp

text \<open>The installed filter leaves receipts alone and makes none.\<close>

definition filter_spares_receipts :: "world \<Rightarrow> bool" where
  "filter_spares_receipts w \<longleftrightarrow> (case w_filter w of None \<Rightarrow> True
     | Some f \<Rightarrow> \<forall>t p. (if receipt_in p = None then receipt_in (f t p) = None else f t p = p))"

lemma filtered_sound:
  assumes "filter_spares_receipts w" "\<forall>ev \<in> set (ar_events req). receipt_sound H ev"
  shows "\<forall>ev \<in> set (ar_events (filtered w req)). receipt_sound H ev"
proof (cases "w_filter w")
  case None
  then show ?thesis using assms(2) by (simp add: filtered_def)
next
  case (Some f)
  have "receipt_sound H (ev\<lparr>ne_payload := f (ne_event_type ev) (ne_payload ev)\<rparr>)"
    if "receipt_sound H ev" for ev
    using that assms(1) Some
    by (cases "receipt_in (ne_payload ev) = None") (auto simp: receipt_sound_def filter_spares_receipts_def)
  then show ?thesis using assms(2) Some by (simp add: filtered_def)
qed

section \<open>Concrete logs\<close>

definition tamper_codec :: codec where
  "tamper_codec = sample_codec\<lparr>c_sha := (\<lambda>s. replicate 64 (if even (length s) then CHR ''1'' else CHR ''0''))\<rparr>"

definition tamper_world :: world where
  "tamper_world = sample_world\<lparr>w_codec := tamper_codec\<rparr>"

definition note_event :: "string \<Rightarrow> stored_event" where
  "note_event s = \<lparr>se_offset = 1, se_envelope = new_envelope tamper_world
     ((sample_request None [])\<lparr>ar_aggregate_type := AggWorkspace\<rparr>) 1 1 [] (sample_event SessionResumed)
     (Inline (POther s))\<rparr>"

definition note_store :: "string \<Rightarrow> event_store" where
  "note_store s = empty_store\<lparr>st_log := [note_event s], st_next := 2\<rparr>"

lemma note_read: "read_aggregate (note_store s) 7 0 = [note_event s]"
  by (simp add: read_aggregate_def note_store_def note_event_def sample_request_def)

lemma note_envelope_ok: "envelope_ok (se_envelope (note_event s))"
  by (simp add: note_event_def new_envelope_def envelope_ok_def id_ok_def opt_id_ok_def Let_def
      sample_request_def sample_event_def tamper_world_def sample_world_def SCHEMA_VERSION_def
      session_event_type_def)

lemma note_faithful: "codec_faithful tamper_codec (se_envelope ` range note_event)"
  by (auto simp: codec_faithful_def note_event_def new_envelope_def Let_def tamper_codec_def
      sample_codec_def sample_event_def)

lemma note_verifies: "verify_aggregate tamper_world (note_store s) 7 = Inr 1"
  unfolding verify_aggregate_Inr note_read
  by (simp add: note_event_def new_envelope_hash tamper_world_def)

lemma note_length:
  "length (canonical_content tamper_codec (se_envelope (note_event s))) = length s + 217"
  by (simp add: canonical_content_def note_event_def payload_bytes_def new_envelope_def Let_def
      tamper_codec_def sample_codec_def sample_event_def session_event_type_def)

section \<open>Properties\<close>

text \<open>
  C5: tampering shows. If two stores hold different event sequences for an aggregate, both
  of the same length and both passing verification, then their head hashes differ. The digest
  is assumed to be 64 characters long and without a collision among the inputs of the two logs,
  the envelopes to be within their field widths, and JSON text to determine its value.
\<close>

theorem tampering_changes_head:
  assumes "verify_aggregate w st a = Inr n" "verify_aggregate w st' a = Inr n"
    and "map se_envelope (read_aggregate st a 0) \<noteq> map se_envelope (read_aggregate st' a 0)"
    and "\<forall>x. length (c_sha (w_codec w) x) = 64"
    and "inj_on (c_sha (w_codec w)) (set (hash_inputs (w_codec w) [] (read_aggregate st a 0))
           \<union> set (hash_inputs (w_codec w) [] (read_aggregate st' a 0)))"
    and "\<forall>e \<in> se_envelope ` (set (read_aggregate st a 0) \<union> set (read_aggregate st' a 0)). envelope_ok e"
    and "codec_faithful (w_codec w) (se_envelope ` (set (read_aggregate st a 0) \<union> set (read_aggregate st' a 0)))"
  shows "snd (head st a) \<noteq> snd (head st' a)"
proof
  assume heads: "snd (head st a) = snd (head st' a)"
  let ?xs = "read_aggregate st a 0" and ?ys = "read_aggregate st' a 0"
  have v: "verify_events (w_codec w) (st_objects st) 1 [] ?xs = Inr ()"
    "verify_events (w_codec w) (st_objects st') 1 [] ?ys = Inr ()" and len: "length ?xs = length ?ys"
    using assms(1,2) by (simp_all add: verify_aggregate_Inr)
  have ne: "?xs \<noteq> []" "?ys \<noteq> []" using assms(3) len by auto
  have tips: "tip_hash [] ?xs = tip_hash [] ?ys"
    using heads head_read_aggregate [OF ne(1)] head_read_aggregate [OF ne(2)] ne by (simp add: tip_hash_def)
  have "map se_envelope ?xs = map se_envelope ?ys"
    using same_tip_same_log [OF _ assms(6,7,5) v len refl tips] assms(4) by simp
  then show False using assms(3) by simp
qed

theorem tampering_changes_head_witness:
  "snd (head (note_store ''A'') 7) \<noteq> snd (head (note_store ''AB'') 7)"
proof -
  have shas: "c_sha tamper_codec (canonical_content tamper_codec (se_envelope (note_event ''A'')))
      \<noteq> c_sha tamper_codec (canonical_content tamper_codec (se_envelope (note_event ''AB'')))"
    using note_length [of "''A''"] note_length [of "''AB''"] by (simp add: tamper_codec_def)
  show ?thesis
  proof (rule tampering_changes_head [OF note_verifies note_verifies, unfolded note_read])
    show "map se_envelope [note_event ''A''] \<noteq> map se_envelope [note_event ''AB'']"
      by (simp add: note_event_def new_envelope_def Let_def)
    show "codec_faithful (w_codec tamper_world)
        (se_envelope ` (set [note_event ''A''] \<union> set [note_event ''AB'']))"
      by (rule codec_faithful_mono [of _ "se_envelope ` range note_event"])
        (auto simp: tamper_world_def note_faithful)
    show "\<forall>x. length (c_sha (w_codec tamper_world) x) = 64"
      by (simp add: tamper_world_def tamper_codec_def)
    show "inj_on (c_sha (w_codec tamper_world)) (set (hash_inputs (w_codec tamper_world) [] [note_event ''A''])
        \<union> set (hash_inputs (w_codec tamper_world) [] [note_event ''AB'']))"
      using shas by (auto simp: tamper_world_def)
    show "\<forall>e \<in> se_envelope ` (set [note_event ''A''] \<union> set [note_event ''AB'']). envelope_ok e"
      by (simp add: note_envelope_ok)
  qed
qed

text \<open>
  C7: the receipt chain stays verified. When the stored receipts form a verified chain, a batch
  appended with the ledger's sealer, whatever tool calls it spans, leaves a verified chain.
  The batch names its receipt events as receipts, the payload filter leaves receipts alone, and no
  payload of the batch was large enough to be moved to an object.
\<close>

theorem receipt_chain_kept:
  assumes "verify_chain H (pr_receipts (st_proj st)) = Inr ()"
    and "append_all_chained w st reqs g (seal H) = (st', Inr out)"
    and "receipts_named reqs" "filter_spares_receipts w"
    and "\<forall>e \<in> set out. \<exists>q. ev_payload (se_envelope e) = Inline q"
  shows "verify_chain H (pr_receipts (st_proj st')) = Inr ()"
proof -
  obtain reqs' where sr: "seal_requests (seal H) (last_receipt_hash (st_proj st)) reqs = Inr reqs'"
    and ap: "append_reqs w (filtered w) st reqs' = (st', Inr out)"
    using assms(2)
    by (auto simp: append_all_chained_def append_all_inner_def transact_def split: sum.splits prod.splits)
  have "\<forall>req \<in> set reqs'. \<forall>ev \<in> set (ar_events (filtered w req)). receipt_sound H ev"
    using seal_requests_sound [OF sr assms(3)] filtered_sound [OF assms(4)] by blast
  from append_reqs_receipts [OF ap _ this assms(5)] assms(1) show ?thesis
    by (simp add: receipts_ok_def)
qed

text \<open>A call with an authorization and a result receipt, sealed in one batch.\<close>

definition sample_digest :: receipt_digest where
  "sample_digest r = er_status r @ (case er_previous_receipt_hash r of None \<Rightarrow> [] | Some h \<Rightarrow> h)"

definition sample_receipt :: "uuid \<Rightarrow> string \<Rightarrow> effect_receipt" where
  "sample_receipt i status = \<lparr>er_effect_id = i, er_previous_receipt_hash = None, er_task_id = 3,
     er_tool_call_id = 8, er_capability_lease_id = None, er_intent_hash = ''i'',
     er_policy_decision = ''allow'', er_approval_id = None, er_execution_target = ''local'',
     er_evidence_ref = None, er_status = status, er_occurred_at = 0, er_reversibility = None,
     er_compensates = None, er_authorization = None, er_receipt_hash = []\<rparr>"

definition sample_call_events :: "tool_call_event list" where
  "sample_call_events = [
     ToolCallProposed 3 None ''write'' ''1'' ReadOnly None ''a'' None None None None,
     ToolCallValidated, ToolCallPolicyDecision True ''allow'' False None, ToolCallDispatched,
     EffectReceiptAppended (sample_receipt 1 ''AUTHORIZED''), EffectReceiptAppended (sample_receipt 2 ''OK'')]"

definition sample_call :: append_request where
  "sample_call = (sample_request (Some 0) [])\<lparr>ar_aggregate_type := AggToolCall, ar_aggregate_id := 8,
     ar_events := map (\<lambda>e. \<lparr>ne_event_type = tool_call_event_type e, ne_payload = PToolCall e,
       ne_actor = ActorCore ''core'', ne_causation_id = None, ne_correlation_id = None,
       ne_occurred_at = None\<rparr>) sample_call_events\<rparr>"

theorem receipt_chain_kept_witness:
  "\<exists>st out. append_all_chained sample_world empty_store [sample_call] None (seal sample_digest) = (st, Inr out)
     \<and> length (pr_receipts (st_proj st)) = 2
     \<and> verify_chain sample_digest (pr_receipts (st_proj st)) = Inr ()"
proof -
  let ?r = "append_all_chained sample_world empty_store [sample_call] None (seal sample_digest)"
  have view: "length (pr_receipts (st_proj (fst ?r))) = 2 \<and>
      (case snd ?r of Inl e \<Rightarrow> False | Inr out \<Rightarrow>
         list_all (\<lambda>e. case ev_payload (se_envelope e) of Inline q \<Rightarrow> True | Object h n \<Rightarrow> False) out)"
    by code_simp
  then obtain out where run: "?r = (fst ?r, Inr out)"
    and "\<forall>e \<in> set out. \<forall>h n. ev_payload (se_envelope e) \<noteq> Object h n"
    by (cases ?r; cases "snd ?r") (auto simp: list_all_iff split: payload_ref.splits)
  then have inline: "\<forall>e \<in> set out. \<exists>q. ev_payload (se_envelope e) = Inline q"
    by (metis payload_ref.exhaust)
  have "receipts_named [sample_call]"
    by (simp add: receipts_named_def sample_call_def sample_call_events_def receipt_in_def
        tool_call_event_type_def RECEIPT_EVENT_def)
  moreover have "filter_spares_receipts sample_world"
    by (simp add: filter_spares_receipts_def sample_world_def)
  moreover have "verify_chain sample_digest (pr_receipts (st_proj empty_store)) = Inr ()"
    by (simp add: verify_chain_def empty_store_def empty_projections_def)
  ultimately have "verify_chain sample_digest (pr_receipts (st_proj (fst ?r))) = Inr ()"
    using receipt_chain_kept [OF _ run _ _ inline] by blast
  with run view show ?thesis by (intro exI conjI) simp_all
qed

section \<open>The paths around the filter and the durability latch\<close>

lemma world_filter:
  "w_codec (w\<lparr>w_filter := f\<rparr>) = w_codec w" "w_event_id (w\<lparr>w_filter := f\<rparr>) = w_event_id w"
  "w_now (w\<lparr>w_filter := f\<rparr>) = w_now w"
  by simp_all

lemma append_event_filter: "append_event (w\<lparr>w_filter := f\<rparr>) = append_event w"
  by (intro ext) (unfold append_event_def insert_and_project_def new_envelope_def world_filter, rule refl)

lemma append_events_filter: "append_events (w\<lparr>w_filter := f\<rparr>) req st n prev evs = append_events w req st n prev evs"
  by (induction evs arbitrary: st n prev) (simp_all add: append_event_filter split: prod.split sum.split)

lemma append_in_filter: "append_in (w\<lparr>w_filter := f\<rparr>) = append_in w"
  by (intro ext) (unfold append_in_def append_events_filter, rule refl)

lemma append_reqs_filter: "append_reqs (w\<lparr>w_filter := f\<rparr>) pre st reqs = append_reqs w pre st reqs"
proof (induction reqs arbitrary: st)
  case (Cons req reqs)
  show ?case unfolding append_reqs.simps append_in_filter Cons.IH ..
qed simp

text \<open>
  Commands store their payloads unfiltered: installing a filter changes nothing of what
  \<open>execute_command_all\<close> stores or returns.
\<close>

lemma command_path_ignores_filter:
  "execute_command_all (w\<lparr>w_filter := f\<rparr>) now st cmd reqs = execute_command_all w now st cmd reqs"
  unfolding execute_command_all_def append_reqs_filter ..

text \<open>
  A store that could not return to full durability refuses appends, but not batches.
\<close>

lemma stuck_store_still_appends:
  "let st = sample_store\<lparr>st_relaxed_stuck := True\<rparr>; req = sample_request None [SessionSuspended] in
     snd (append_with sample_world False st req Full) = Inl RelaxedRefused
   \<and> (case snd (append_all sample_world st [req] None) of Inl e \<Rightarrow> False | Inr out \<Rightarrow> length out = 1)"
  by code_simp

end
