(* ===== verification/Store_Aggregates.thy ===== *)
theory Store_Aggregates
  imports Store_Integrity
begin

text \<open>
  The aggregates as the store holds them: what the events of a log make of a task, a turn, a
  step, a tool call and an approval, in every state the store can reach. The invariants of the
  aggregates are lifted through \<open>project_row\<close> to the rows of the projections.
\<close>

section \<open>Rows\<close>

lemma project_row_cases:
  assumes "project_row cr ap row off sq i ev at = Inr s"
  obtains (kept) "row = Some s"
    | (created) "row = None" "cr i ev at = Inr s"
    | (applied) r where "row = Some r \<or> row = None \<and> cr i ev at = Inr r" "ap r ev at = (s, Inr ())"
  using assms
  by (auto simp: project_row_def rbind_eq_Inr map_err_def split: option.splits if_splits sum.splits prod.splits)

lemma project_row_invariant:
  assumes "project_row cr ap row off sq i ev at = Inr s"
    and "\<And>r. row = Some r \<Longrightarrow> I r"
    and "\<And>r. cr i ev at = Inr r \<Longrightarrow> I r"
    and "\<And>r s. I r \<Longrightarrow> ap r ev at = (s, Inr ()) \<Longrightarrow> I s"
  shows "I s"
  using assms(1) by (cases rule: project_row_cases) (auto intro: assms)

lemma task_apply_id: "task_id (fst (task_apply k ev at)) = task_id k"
  by (cases ev; auto simp: task_apply_defs split: task_state.splits)

lemma turn_apply_id: "turn_id (fst (turn_apply u ev at)) = turn_id u"
  by (cases ev; auto simp: turn_apply_defs)

lemma tool_call_apply_id: "tc_tool_call_id (fst (tool_call_apply c ev at)) = tc_tool_call_id c"
  by (cases ev; auto simp: tool_call_apply_def tool_call_next_def tool_call_invalid_def refuse_def
      transition_def Let_def)

lemma step_apply_id: "step_id (fst (step_apply p ev at)) = step_id p"
  by (cases ev; auto simp: step_apply_defs)

text \<open>The tool call events the log holds for a call, in order.\<close>

definition call_events :: "codec \<Rightarrow> objects \<Rightarrow> stored_event list \<Rightarrow> uuid \<Rightarrow> tool_call_event list" where
  "call_events c objs es i = concat (map
     (\<lambda>e. if se_agg e = i then (case payload_json c objs e of Inr (PToolCall ev) \<Rightarrow> [ev] | _ \<Rightarrow> [])
           else []) es)"

lemma call_events_append: "call_events c objs (xs @ ys) i = call_events c objs xs i @ call_events c objs ys i"
  by (simp add: call_events_def)

lemma call_events_mem:
  "ev \<in> set (call_events c objs es i) \<longleftrightarrow>
     (\<exists>e \<in> set es. se_agg e = i \<and> payload_json c objs e = Inr (PToolCall ev))"
proof -
  have "ev \<in> set (case r of Inr (PToolCall ev) \<Rightarrow> [ev] | _ \<Rightarrow> []) \<longleftrightarrow> r = Inr (PToolCall ev)"
    for r :: "store_error + payload"
    by (auto split: sum.splits payload.splits)
  then show ?thesis by (auto simp: call_events_def)
qed

lemma tool_call_wf_mono: "tool_call_wf evs c \<Longrightarrow> set evs \<subseteq> set evs' \<Longrightarrow> tool_call_wf evs' c"
proof -
  assume wf: "tool_call_wf evs c" and sub: "set evs \<subseteq> set evs'"
  have "allowed_in evs \<Longrightarrow> allowed_in evs'" using sub unfolding allowed_in_def by blast
  then show ?thesis using wf unfolding tool_call_wf_def by (intro conjI) simp_all
qed

definition rows_ok :: "codec \<Rightarrow> objects \<Rightarrow> stored_event list \<Rightarrow> projections \<Rightarrow> bool" where
  "rows_ok c objs es p \<longleftrightarrow>
     (\<forall>i k. pr_tasks p i = Some k \<longrightarrow> task_id k = i \<and> task_wf k)
   \<and> (\<forall>i u. pr_turns p i = Some u \<longrightarrow> turn_id u = i \<and> turn_wf u)
   \<and> (\<forall>i s. pr_steps p i = Some s \<longrightarrow> step_id s = i
        \<and> (step_state s = StUnknownOutcome \<longrightarrow> is_effectful (step_type s)))
   \<and> (\<forall>i t. pr_tool_calls p i = Some t \<longrightarrow> tc_tool_call_id t = i
        \<and> tool_call_wf (call_events c objs es i) t)"

lemma task_row_ok:
  assumes "project_row task_create task_apply row off sq i ev at = Inr s"
    and "\<And>r. row = Some r \<Longrightarrow> task_id r = i \<and> task_wf r"
  shows "task_id s = i \<and> task_wf s"
  using assms(1)
proof (rule project_row_invariant)
  show "task_id r = i \<and> task_wf r" if "task_create i ev at = Inr r" for r
    using that task_create_wf [OF that] by (auto simp: task_create_def refuse_def split: task_event.splits)
  show "task_id t = i \<and> task_wf t" if "task_id r = i \<and> task_wf r" "task_apply r ev at = (t, Inr ())" for r t
    using that task_apply_wf task_apply_id [of r ev at] by auto
qed (rule assms(2))

lemma turn_row_ok:
  assumes "project_row turn_create turn_apply row off sq i ev at = Inr s"
    and "\<And>r. row = Some r \<Longrightarrow> turn_id r = i \<and> turn_wf r"
  shows "turn_id s = i \<and> turn_wf s"
  using assms(1)
proof (rule project_row_invariant)
  show "turn_id r = i \<and> turn_wf r" if "turn_create i ev at = Inr r" for r
    using that turn_create_wf [OF that] by (auto simp: turn_create_def refuse_def split: turn_event.splits)
  show "turn_id t = i \<and> turn_wf t" if "turn_id r = i \<and> turn_wf r" "turn_apply r ev at = (t, Inr ())" for r t
    using that turn_apply_wf turn_apply_id [of r ev at] by auto
qed (rule assms(2))

lemma step_row_ok:
  assumes "project_row step_create step_apply row off sq i ev at = Inr s"
    and "\<And>r. row = Some r \<Longrightarrow> step_id r = i \<and> (step_state r = StUnknownOutcome \<longrightarrow> is_effectful (step_type r))"
  shows "step_id s = i \<and> (step_state s = StUnknownOutcome \<longrightarrow> is_effectful (step_type s))"
  using assms(1)
proof (rule project_row_invariant)
  show "step_id r = i \<and> (step_state r = StUnknownOutcome \<longrightarrow> is_effectful (step_type r))"
    if "step_create i ev at = Inr r" for r
    using that by (auto simp: step_create_def refuse_def split: step_event.splits)
  show "step_id t = i \<and> (step_state t = StUnknownOutcome \<longrightarrow> is_effectful (step_type t))"
    if "step_id r = i \<and> (step_state r = StUnknownOutcome \<longrightarrow> is_effectful (step_type r))"
      "step_apply r ev at = (t, Inr ())" for r t
    using that step_apply_ok(4) [OF that(2)] step_apply_id [of r ev at] by auto
qed (rule assms(2))

lemma tool_call_create_id: "tool_call_create i ev at = Inr r \<Longrightarrow> tc_tool_call_id r = i"
  by (auto simp: tool_call_create_def refuse_def split: tool_call_event.splits)

lemma tool_call_row_ok:
  assumes "project_row tool_call_create tool_call_apply row off sq i ev at = Inr s"
    and "\<And>r. row = Some r \<Longrightarrow> tc_tool_call_id r = i \<and> tool_call_wf evs r"
  shows "tc_tool_call_id s = i \<and> tool_call_wf (evs @ [ev]) s"
proof -
  have new: "tc_tool_call_id r = i \<and> tool_call_wf evs r" if "tool_call_create i ev at = Inr r" for r
    using tool_call_create_id [OF that] tool_call_wf_mono [OF tool_call_create_wf [OF that]] by simp
  have grow: "tool_call_wf evs r \<Longrightarrow> tool_call_wf (evs @ [ev]) r" for r
    by (rule tool_call_wf_mono) auto
  from assms(1) show ?thesis
  proof (cases rule: project_row_cases)
    case kept
    then show ?thesis using assms(2) grow by blast
  next
    case created
    then show ?thesis using new grow by blast
  next
    case (applied r)
    then have r: "tc_tool_call_id r = i" "tool_call_wf evs r" using assms(2) new by blast+
    have "tc_tool_call_id s = i" using tool_call_apply_id [of r ev at] applied(2) r(1) by simp
    then show ?thesis using tool_call_apply_wf [OF r(2) applied(2)] by simp
  qed
qed

lemma project_event_rows:
  assumes "project_event lg p e pl = Inr q" "payload_json c objs e = Inr pl" "rows_ok c objs es p"
  shows "rows_ok c objs (es @ [e]) q"
proof -
  let ?i = "se_agg e" and ?at = "ev_occurred_at (se_envelope e)"
  have calls: "call_events c objs (es @ [e]) i = call_events c objs es i
      @ (if i = ?i then (case pl of PToolCall ev \<Rightarrow> [ev] | _ \<Rightarrow> []) else [])" for i
    using assms(2) by (auto simp: call_events_def)
  have tools: "tc_tool_call_id t = i \<and> tool_call_wf (call_events c objs (es @ [e]) i) t"
    if "pr_tool_calls p i = Some t" for i t
    using assms(3) that tool_call_wf_mono [of "call_events c objs es i" t]
    by (simp add: rows_ok_def call_events_append)
  note rows = assms(3) [unfolded rows_ok_def]
  have same: "rows_ok c objs (es @ [e]) q"
    if "pr_tasks q = pr_tasks p" "pr_turns q = pr_turns p" "pr_steps q = pr_steps p"
      "pr_tool_calls q = pr_tool_calls p"
    using rows tools unfolding rows_ok_def that by blast
  show ?thesis
  proof (cases "ev_aggregate_type (se_envelope e)")
    case AggTask
    then obtain ev s where row: "project_row task_create task_apply (pr_tasks p ?i) (se_offset e) (se_seq e) ?i ev ?at = Inr s"
      and q: "q = p\<lparr>pr_tasks := (pr_tasks p)(task_id s \<mapsto> s)\<rparr>"
      using assms(1) by (cases pl) (auto simp: project_event_def Let_def rbind_eq_Inr)
    have "task_id s = ?i \<and> task_wf s" by (rule task_row_ok [OF row]) (use rows in blast)
    then show ?thesis using rows tools q by (simp add: rows_ok_def)
  next
    case AggTurn
    then obtain ev s where row: "project_row turn_create turn_apply (pr_turns p ?i) (se_offset e) (se_seq e) ?i ev ?at = Inr s"
      and q: "q = p\<lparr>pr_turns := (pr_turns p)(turn_id s \<mapsto> s)\<rparr>"
      using assms(1) by (cases pl) (auto simp: project_event_def Let_def rbind_eq_Inr)
    have "turn_id s = ?i \<and> turn_wf s" by (rule turn_row_ok [OF row]) (use rows in blast)
    then show ?thesis using rows tools q by (simp add: rows_ok_def)
  next
    case AggRunStep
    then obtain ev s where row: "project_row step_create step_apply (pr_steps p ?i) (se_offset e) (se_seq e) ?i ev ?at = Inr s"
      and q: "q = p\<lparr>pr_steps := (pr_steps p)(step_id s \<mapsto> s)\<rparr>"
      using assms(1) by (cases pl) (auto simp: project_event_def Let_def rbind_eq_Inr)
    have "step_id s = ?i \<and> (step_state s = StUnknownOutcome \<longrightarrow> is_effectful (step_type s))"
      by (rule step_row_ok [OF row]) (use rows in blast)
    then show ?thesis using rows tools q by (simp add: rows_ok_def)
  next
    case AggToolCall
    then obtain ev s p1 where pl: "pl = PToolCall ev"
      and row: "project_row tool_call_create tool_call_apply (pr_tool_calls p ?i) (se_offset e) (se_seq e) ?i ev ?at = Inr s"
      and q: "q = p1\<lparr>pr_tool_calls := (pr_tool_calls p1)(tc_tool_call_id s \<mapsto> s)\<rparr>"
      and p1: "pr_tool_calls p1 = pr_tool_calls p" "pr_tasks p1 = pr_tasks p" "pr_turns p1 = pr_turns p" "pr_steps p1 = pr_steps p"
      using assms(1)
      by (cases pl) (auto simp: project_event_def Let_def rbind_eq_Inr insert_receipt_def
          split: tool_call_event.splits if_splits)
    have "tc_tool_call_id s = ?i \<and> tool_call_wf (call_events c objs es ?i @ [ev]) s"
      by (rule tool_call_row_ok [OF row]) (use rows in blast)
    then have s: "tc_tool_call_id s = ?i" "tool_call_wf (call_events c objs (es @ [e]) ?i) s"
      using calls [of ?i] pl by simp_all
    have "tc_tool_call_id t = i \<and> tool_call_wf (call_events c objs (es @ [e]) i) t"
      if "pr_tool_calls q i = Some t" for i t
    proof (cases "i = ?i")
      case True
      then have "t = s" using that s(1) q by simp
      then show ?thesis using s True by simp
    next
      case False
      then have "pr_tool_calls p i = Some t" using that s(1) q p1(1) by simp
      then show ?thesis by (rule tools)
    qed
    moreover have qs: "pr_tasks q = pr_tasks p" "pr_turns q = pr_turns p" "pr_steps q = pr_steps p"
      by (simp_all add: q p1)
    ultimately show ?thesis using rows unfolding rows_ok_def qs by blast
  qed (rule same; use assms(1) in \<open>cases pl; auto simp: project_event_def Let_def rbind_eq_Inr\<close>)+
qed

lemma project_rows:
  assumes "project c objs lg p e = Inr q" "rows_ok c objs es p"
  shows "rows_ok c objs (es @ [e]) q"
proof -
  obtain pl r where pl: "payload_json c objs e = Inr pl" and r: "project_event lg p e pl = Inr r"
    and q: "q = r\<lparr>pr_last_offset := se_offset e\<rparr>"
    using assms(1) by (auto simp: project_def rbind_eq_Inr)
  have "rows_ok c objs (es @ [e]) r" by (rule project_event_rows [OF r pl assms(2)])
  then show ?thesis unfolding rows_ok_def q by simp
qed

lemma project_all_rows:
  "project_all c objs lg p xs = Inr q \<Longrightarrow> rows_ok c objs es p \<Longrightarrow> rows_ok c objs (es @ xs) q"
proof (induction xs arbitrary: p es)
  case (Cons x xs)
  then obtain r where r: "project c objs lg p x = Inr r" "project_all c objs lg r xs = Inr q"
    by (auto simp: rbind_eq_Inr)
  show ?case using Cons.IH [OF r(2) project_rows [OF r(1) Cons.prems(2)]] by simp
qed simp

lemma rows_ok_empty: "rows_ok c objs [] empty_projections"
  by (simp add: rows_ok_def empty_projections_def)

lemma store_rows_ok:
  assumes "store_ok w st"
  shows "rows_ok (w_codec w) (st_objects st) (st_log st) (st_proj st)"
proof -
  have "project_all (w_codec w) (st_objects st) (st_log st) empty_projections (st_log st) = Inr (st_proj st)"
    using assms by (simp add: store_ok_def)
  from project_all_rows [OF this rows_ok_empty] show ?thesis by simp
qed

section \<open>A dispatch is never undone\<close>

definition dispatched :: "projections \<Rightarrow> uuid \<Rightarrow> bool" where
  "dispatched p i \<longleftrightarrow> (\<exists>t. pr_tool_calls p i = Some t \<and> tc_dispatched_at t \<noteq> None)"

lemma tool_call_apply_dispatched:
  "tool_call_apply c ev at = (c', Inr ()) \<Longrightarrow> tc_dispatched_at c \<noteq> None \<Longrightarrow> tc_dispatched_at c' \<noteq> None"
  by (erule tool_call_apply_ok_cases) auto

lemma project_event_tool_calls:
  assumes "project_event lg p ev pl = Inr p'"
  shows "pr_tool_calls p' = pr_tool_calls p \<or>
    (\<exists>e s. pr_tool_calls p' = (pr_tool_calls p)(tc_tool_call_id s \<mapsto> s) \<and>
       project_row tool_call_create tool_call_apply (pr_tool_calls p (se_agg ev)) (se_offset ev)
         (se_seq ev) (se_agg ev) e (ev_occurred_at (se_envelope ev)) = Inr s)"
  using assms
  by (cases "ev_aggregate_type (se_envelope ev)"; cases pl)
    (auto simp: project_event_def Let_def rbind_eq_Inr insert_receipt_def
      split: tool_call_event.splits if_splits)

lemma project_dispatched:
  assumes "project c objs lg p e = Inr q" "dispatched p i" "rows_ok c objs es p"
  shows "dispatched q i"
proof -
  obtain pl r where r: "project_event lg p e pl = Inr r" and q: "q = r\<lparr>pr_last_offset := se_offset e\<rparr>"
    using assms(1) by (auto simp: project_def rbind_eq_Inr)
  from project_event_tool_calls [OF r] show ?thesis
  proof
    assume "pr_tool_calls r = pr_tool_calls p"
    then show ?thesis using assms(2) q by (simp add: dispatched_def)
  next
    assume "\<exists>ev s. pr_tool_calls r = (pr_tool_calls p)(tc_tool_call_id s \<mapsto> s) \<and>
       project_row tool_call_create tool_call_apply (pr_tool_calls p (se_agg e)) (se_offset e)
         (se_seq e) (se_agg e) ev (ev_occurred_at (se_envelope e)) = Inr s"
    then obtain ev s where upd: "pr_tool_calls r = (pr_tool_calls p)(tc_tool_call_id s \<mapsto> s)"
      and row: "project_row tool_call_create tool_call_apply (pr_tool_calls p (se_agg e)) (se_offset e)
         (se_seq e) (se_agg e) ev (ev_occurred_at (se_envelope e)) = Inr s" by blast
    have old: "tc_tool_call_id t = se_agg e \<and> tool_call_wf (call_events c objs es (se_agg e)) t"
      if "pr_tool_calls p (se_agg e) = Some t" for t
      using assms(3) that unfolding rows_ok_def by blast
    have id: "tc_tool_call_id s = se_agg e" using tool_call_row_ok [OF row old] by blast
    obtain t where t: "pr_tool_calls p i = Some t" "tc_dispatched_at t \<noteq> None"
      using assms(2) by (auto simp: dispatched_def)
    show ?thesis
    proof (cases "i = se_agg e")
      case False
      then show ?thesis using t upd id q by (simp add: dispatched_def)
    next
      case True
      have "tc_dispatched_at s \<noteq> None" using row t True
        by (cases rule: project_row_cases) (auto dest: tool_call_apply_dispatched)
      then show ?thesis using upd id q True by (simp add: dispatched_def)
    qed
  qed
qed

lemma project_all_dispatched:
  "project_all c objs lg p xs = Inr q \<Longrightarrow> rows_ok c objs es p \<Longrightarrow> dispatched p i \<Longrightarrow> dispatched q i"
proof (induction xs arbitrary: p es)
  case (Cons x xs)
  then obtain r where r: "project c objs lg p x = Inr r" "project_all c objs lg r xs = Inr q"
    by (auto simp: rbind_eq_Inr)
  show ?case
    using Cons.IH [OF r(2) project_rows [OF r(1) Cons.prems(2)]] project_dispatched [OF r(1)] Cons.prems by blast
qed simp

text \<open>A later state's projections continue those of an earlier one.\<close>

lemma store_steps_objects:
  "(store_step w)\<^sup>*\<^sup>* st st' \<Longrightarrow> store_ok w st \<Longrightarrow> objects_le (w_codec w) (st_objects st) (st_objects st')"
proof (induction rule: rtranclp_induct)
  case (step y z)
  then show ?case using store_step_objects [of w y z] es.steps_ok [of w st y] objects_le_trans by blast
qed simp

lemma store_steps_projections:
  assumes "(store_step w)\<^sup>*\<^sup>* st st'" "store_ok w st"
  obtains out where "st_log st' = st_log st @ out"
    and "project_all (w_codec w) (st_objects st') (st_log st') (st_proj st) out = Inr (st_proj st')"
    and "rows_ok (w_codec w) (st_objects st') (st_log st) (st_proj st)"
proof -
  obtain out where out: "st_log st' = st_log st @ out" using es.steps_log [OF assms] by blast
  have ok': "store_ok w st'" by (rule es.steps_ok [OF assms])
  have all: "project_all (w_codec w) (st_objects st') (st_log st) empty_projections (st_log st) = Inr (st_proj st)"
    using project_all_objects [OF store_steps_objects [OF assms]] assms(2) by (simp add: store_ok_def)
  then have pre: "project_all (w_codec w) (st_objects st') (st_log st') empty_projections (st_log st) = Inr (st_proj st)"
    by (simp add: out store_ok_project_all_extend [OF assms(2)])
  have "project_all (w_codec w) (st_objects st') (st_log st') (st_proj st) out = Inr (st_proj st')"
    using ok' pre by (simp add: store_ok_def out project_all_append)
  moreover have "rows_ok (w_codec w) (st_objects st') (st_log st) (st_proj st)"
    using project_all_rows [OF all rows_ok_empty] by simp
  ultimately show thesis using that out by blast
qed

section \<open>Streams in the log\<close>

lemma project_all_each:
  "project_all c objs lg p xs = Inr q \<Longrightarrow> e \<in> set xs \<Longrightarrow> \<exists>r s. project c objs lg r e = Inr s"
  by (induction xs arbitrary: p) (auto simp: rbind_eq_Inr)

lemma project_stream:
  assumes "project c objs lg p e = Inr q" "ev_aggregate_type (se_envelope e) = AggAssistantStream"
  obtains ev where "payload_json c objs e = Inr (PStream ev)"
    and "check_next (se_agg e) (se_seq e)
      (if se_seq e > 1 then event_type_at lg (se_agg e) (se_seq e - 1) else None) ev = Inr ()"
proof -
  obtain pl r where pl: "payload_json c objs e = Inr pl" and r: "project_event lg p e pl = Inr r"
    using assms(1) by (auto simp: project_def rbind_eq_Inr)
  show thesis
  proof (cases pl)
    case (PStream ev)
    then show ?thesis using r assms(2) pl that [of ev]
      by (auto simp: project_event_def Let_def rbind_eq_Inr map_err_def split: sum.splits)
  qed (use r assms(2) in \<open>simp_all add: project_event_def Let_def\<close>)
qed

lemma stream_accepted_nth:
  "stream_accepted a n p evs \<longleftrightarrow>
     (\<forall>k < length evs. check_next a (n + k)
        (if k = 0 then p else Some (stream_event_type (evs ! (k - 1)))) (evs ! k) = Inr ())"
proof (induction evs arbitrary: n p)
  case (Cons ev evs)
  have "(\<forall>k < length (ev # evs). P k) \<longleftrightarrow> P 0 \<and> (\<forall>k < length evs. P (Suc k))" for P
    by (auto simp: less_Suc_eq_0_disj)
  then show ?case
    using Cons [of "Suc n" "Some (stream_event_type ev)"]
    by (simp add: nth_Cons' cong: if_cong)
qed simp

lemma find_unique_match:
  "x \<in> set xs \<Longrightarrow> P x \<Longrightarrow> (\<And>y. y \<in> set xs \<Longrightarrow> P y \<Longrightarrow> y = x) \<Longrightarrow> find P xs = Some x"
proof (induction xs)
  case (Cons y ys)
  show ?case
  proof (cases "P y")
    case True
    have "y = x" by (rule Cons.prems(3) [OF _ True]) simp
    then show ?thesis using True by simp
  next
    case False
    then have "x \<in> set ys" using Cons.prems(1,2) by auto
    then have "find P ys = Some x"
      by (rule Cons.IH [OF _ Cons.prems(2)]) (rule Cons.prems(3), simp_all)
    then show ?thesis using False by simp
  qed
qed simp

lemma find_in_agg_log:
  assumes "verify_events c objs 1 [] (agg_log lg a) = Inr ()" "k < length (agg_log lg a)"
  shows "find (\<lambda>e. se_agg e = a \<and> se_seq e = Suc k) lg = Some (agg_log lg a ! k)"
proof -
  have seqs: "map se_seq (agg_log lg a) = [1..<1 + length (agg_log lg a)]"
    by (rule verify_events_seqs [OF assms(1)])
  have nth: "se_seq (agg_log lg a ! j) = Suc j" if "j < length (agg_log lg a)" for j
    using arg_cong [OF seqs, of "\<lambda>l. l ! j"] that by (simp del: upt_Suc)
  let ?e = "agg_log lg a ! k"
  have mem: "?e \<in> set (agg_log lg a)" using assms(2) by simp
  have "f = ?e" if "f \<in> set lg" "se_agg f = a" "se_seq f = Suc k" for f
  proof -
    have "f \<in> set (agg_log lg a)" using that by (simp add: agg_log_def)
    then obtain j where "j < length (agg_log lg a)" "f = agg_log lg a ! j" by (metis in_set_conv_nth)
    then show ?thesis using nth that(3) by simp
  qed
  moreover have "?e \<in> set lg" "se_agg ?e = a" using mem by (simp_all add: agg_log_def)
  ultimately show ?thesis using nth [OF assms(2)] find_unique_match
    [of ?e lg "\<lambda>e. se_agg e = a \<and> se_seq e = Suc k"] by blast
qed

lemma stream_log_accepted:
  assumes v: "verify_events c objs 1 [] (agg_log lg a) = Inr ()"
    and all: "project_all c objs lg p lg = Inr q"
    and typed: "\<forall>e \<in> set (agg_log lg a). ev_aggregate_type (se_envelope e) = AggAssistantStream
      \<and> (\<forall>ev. payload_json c objs e = Inr (PStream ev) \<longrightarrow> ev_event_type (se_envelope e) = stream_event_type ev)"
  shows "\<exists>evs. map (payload_json c objs) (agg_log lg a) = map (\<lambda>ev. Inr (PStream ev)) evs
    \<and> stream_accepted a 1 None evs"
proof -
  let ?es = "agg_log lg a"
  let ?prev = "\<lambda>e. if se_seq e > 1 then event_type_at lg (se_agg e) (se_seq e - 1) else None"
  have "\<exists>ev. payload_json c objs e = Inr (PStream ev) \<and> check_next a (se_seq e) (?prev e) ev = Inr ()"
    if "e \<in> set ?es" for e
  proof -
    have "e \<in> set lg" "se_agg e = a" using that by (simp_all add: agg_log_def)
    then obtain r s where "project c objs lg r e = Inr s" using project_all_each [OF all] by blast
    then show ?thesis using project_stream typed that \<open>se_agg e = a\<close> by metis
  qed
  then obtain f where f: "\<And>e. e \<in> set ?es \<Longrightarrow> payload_json c objs e = Inr (PStream (f e))"
    "\<And>e. e \<in> set ?es \<Longrightarrow> check_next a (se_seq e) (?prev e) (f e) = Inr ()" by metis
  have seqs: "map se_seq ?es = [1..<1 + length ?es]" by (rule verify_events_seqs [OF v])
  have nth: "se_seq (?es ! k) = Suc k" if "k < length ?es" for k
    using arg_cong [OF seqs, of "\<lambda>l. l ! k"] that by (simp del: upt_Suc)
  have prev: "?prev (?es ! k) = (if k = 0 then None else Some (stream_event_type (f (?es ! (k - 1)))))"
    if "k < length ?es" for k
  proof (cases k)
    case (Suc j)
    then have j: "j < length ?es" using that by simp
    have "se_agg (?es ! k) = a" using nth_mem [OF that] by (simp add: agg_log_def)
    moreover have "ev_event_type (se_envelope (?es ! j)) = stream_event_type (f (?es ! j))"
      using typed f(1) nth_mem [OF j] by blast
    ultimately show ?thesis
      using Suc nth [OF that] find_in_agg_log [OF v j] by (simp add: event_type_at_def)
  next
    case 0
    then show ?thesis using nth [OF that] by simp
  qed
  have "stream_accepted a 1 None (map f ?es)"
    unfolding stream_accepted_nth
  proof (intro allI impI)
    fix k assume k: "k < length (map f ?es)"
    then have "check_next a (Suc k) (?prev (?es ! k)) (f (?es ! k)) = Inr ()"
      using f(2) [of "?es ! k"] nth [of k] by (metis length_map nth_mem)
    then show "check_next a (1 + k) (if k = 0 then None else Some (stream_event_type (map f ?es ! (k - 1))))
        (map f ?es ! k) = Inr ()"
      using prev [of k] k by (cases k) simp_all
  qed
  moreover have "map (payload_json c objs) ?es = map (\<lambda>ev. Inr (PStream ev)) (map f ?es)" using f(1) by simp
  ultimately show ?thesis by blast
qed

section \<open>A concrete store\<close>

text \<open>A task at work, a dispatched call, and the approval it was dispatched under.\<close>

definition typed_event :: "string \<Rightarrow> payload \<Rightarrow> new_event" where
  "typed_event name p = \<lparr>ne_event_type = name, ne_payload = p, ne_actor = ActorCore ''core'',
     ne_causation_id = None, ne_correlation_id = None, ne_occurred_at = None\<rparr>"

definition sample_task :: append_request where
  "sample_task = (sample_request (Some 0) [])\<lparr>ar_aggregate_type := AggTask, ar_aggregate_id := 3,
     ar_events := map (\<lambda>e. typed_event (task_event_type e) (PTask e))
       [TaskCreated 7 ''goal'' 4 None None ''local'' None OriginCli, TaskQueued, TaskStarted]\<rparr>"

definition sample_approval :: append_request where
  "sample_approval = (sample_request (Some 0) [])\<lparr>ar_aggregate_type := AggApproval, ar_aggregate_id := 9,
     ar_events := map (\<lambda>e. typed_event (approval_event_type e) (PApproval e))
       [ApprovalRequested 3 8 ''write'' ReadOnly ''i'' ''{}'' None, ApprovalResolved True ''user'' ''ok'']\<rparr>"

definition sample_stream :: append_request where
  "sample_stream = (sample_request (Some 0) [])\<lparr>ar_aggregate_type := AggAssistantStream, ar_aggregate_id := 6,
     ar_events := map (\<lambda>e. typed_event (stream_event_type e) (PStream e))
       [AssistantTextDelta 6 KindText 1 3 4 5 ''he'' ''m'' CollapsibleOnComplete,
        AssistantTextDelta 6 KindText 2 3 4 5 ''llo'' ''m'' CollapsibleOnComplete,
        AssistantMessageCompleted 6 KindText 2 \<lparr>tr_object_hash = ''h'', tr_byte_length = 5\<rparr> ''m'']\<rparr>"

definition work_store :: event_store where
  "work_store = fst (append_all_chained sample_world empty_store
     [sample_task, sample_call, sample_approval, sample_stream] None (seal sample_digest))"

lemma work_store_reachable: "(store_step sample_world)\<^sup>*\<^sup>* empty_store work_store"
  unfolding work_store_def append_all_chained_def by (rule r_into_rtranclp) (rule step_all)

lemma work_store_view:
  "case pr_tasks (st_proj work_store) 3 of None \<Rightarrow> False | Some k \<Rightarrow> task_state k = TkRunning"
  "dispatched (st_proj work_store) 8"
  "case load_approval (st_proj work_store) 9 of None \<Rightarrow> False | Some a \<Rightarrow> ap_tool_call_id a = 8 \<and> ap_state a = ApApproved"
  "list_all (\<lambda>e. ev_aggregate_type (se_envelope e) = AggAssistantStream \<and>
      (case payload_json sample_codec (st_objects work_store) e of
         Inr (PStream ev) \<Rightarrow> ev_event_type (se_envelope e) = stream_event_type ev | _ \<Rightarrow> False))
     (read_aggregate work_store 6 0)"
  "length (read_aggregate work_store 6 0) = 3"
proof -
  have "let st = work_store in
     (case pr_tasks (st_proj st) 3 of None \<Rightarrow> False | Some k \<Rightarrow> task_state k = TkRunning)
   \<and> (case pr_tool_calls (st_proj st) 8 of None \<Rightarrow> False | Some t \<Rightarrow> tc_dispatched_at t \<noteq> None)
   \<and> (case load_approval (st_proj st) 9 of None \<Rightarrow> False | Some a \<Rightarrow> ap_tool_call_id a = 8 \<and> ap_state a = ApApproved)
   \<and> list_all (\<lambda>e. ev_aggregate_type (se_envelope e) = AggAssistantStream \<and>
      (case payload_json sample_codec (st_objects st) e of
         Inr (PStream ev) \<Rightarrow> ev_event_type (se_envelope e) = stream_event_type ev | _ \<Rightarrow> False))
     (read_aggregate st 6 0) \<and> length (read_aggregate st 6 0) = 3"
    by code_simp
  then show "case pr_tasks (st_proj work_store) 3 of None \<Rightarrow> False | Some k \<Rightarrow> task_state k = TkRunning"
    "dispatched (st_proj work_store) 8"
    "case load_approval (st_proj work_store) 9 of None \<Rightarrow> False | Some a \<Rightarrow> ap_tool_call_id a = 8 \<and> ap_state a = ApApproved"
    "list_all (\<lambda>e. ev_aggregate_type (se_envelope e) = AggAssistantStream \<and>
      (case payload_json sample_codec (st_objects work_store) e of
         Inr (PStream ev) \<Rightarrow> ev_event_type (se_envelope e) = stream_event_type ev | _ \<Rightarrow> False))
     (read_aggregate work_store 6 0)"
    "length (read_aggregate work_store 6 0) = 3"
    unfolding Let_def dispatched_def by (blast, auto split: option.splits)
qed

section \<open>Properties\<close>

text \<open>
  C13: the rows the store serves are well formed in every reachable state. A task has a completion
  time exactly when it is over, a start time once it has run and none before; a turn that streams,
  executes, verifies or completed has a model route and an end time exactly when it is over; and a
  step of unknown outcome is an effectful one.
\<close>

theorem rows_well_formed:
  assumes "(store_step w)\<^sup>*\<^sup>* empty_store st"
  shows "(\<forall>i k. pr_tasks (st_proj st) i = Some k \<longrightarrow> task_id k = i \<and> task_wf k)
    \<and> (\<forall>i u. pr_turns (st_proj st) i = Some u \<longrightarrow> turn_id u = i \<and> turn_wf u)
    \<and> (\<forall>i s. pr_steps (st_proj st) i = Some s \<longrightarrow> step_id s = i
         \<and> (step_state s = StUnknownOutcome \<longrightarrow> is_effectful (step_type s)))"
  using store_rows_ok [OF reachable_ok [OF assms]] unfolding rows_ok_def by blast

theorem rows_well_formed_witness:
  "\<exists>k. pr_tasks (st_proj work_store) 3 = Some k \<and> task_started_at k \<noteq> None"
proof -
  obtain k where k: "pr_tasks (st_proj work_store) 3 = Some k" "task_state k = TkRunning"
    using work_store_view(1) by (auto split: option.splits)
  then have "task_wf k" using rows_well_formed [OF work_store_reachable] by blast
  then show ?thesis using k by (auto simp: task_wf_def)
qed

text \<open>
  C2: no effect without a decision. In every reachable state, a tool call that the store shows as
  dispatched, or as past its policy check, has in the log an event of its own that records a policy
  decision allowing it.
\<close>

theorem dispatch_needs_decision:
  assumes "(store_step w)\<^sup>*\<^sup>* empty_store st" "pr_tool_calls (st_proj st) i = Some t"
    and "tc_dispatched_at t \<noteq> None
      \<or> tc_state t \<in> {TcPolicyChecked, TcDispatched, TcSucceeded, TcUnknownOutcome}"
  shows "\<exists>e \<in> set (st_log st). se_agg e = i \<and> (\<exists>d q z.
    payload_json (w_codec w) (st_objects st) e = Inr (PToolCall (ToolCallPolicyDecision True d q z)))"
proof -
  have "tool_call_wf (call_events (w_codec w) (st_objects st) (st_log st) i) t"
    using store_rows_ok [OF reachable_ok [OF assms(1)]] assms(2) unfolding rows_ok_def by blast
  then have "allowed_in (call_events (w_codec w) (st_objects st) (st_log st) i)"
    using assms(3) unfolding tool_call_wf_def by blast
  then show ?thesis unfolding allowed_in_def call_events_mem by blast
qed

theorem dispatch_needs_decision_witness:
  "\<exists>e \<in> set (st_log work_store). se_agg e = 8 \<and> (\<exists>d q z.
    payload_json sample_codec (st_objects work_store) e = Inr (PToolCall (ToolCallPolicyDecision True d q z)))"
proof -
  obtain t where "pr_tool_calls (st_proj work_store) 8 = Some t" "tc_dispatched_at t \<noteq> None"
    using work_store_view(2) by (auto simp: dispatched_def)
  then show ?thesis
    using dispatch_needs_decision [OF work_store_reachable, of 8 t] by (simp add: sample_world_def)
qed

text \<open>
  C6: an approval authorizes one dispatch. Once the call an approval is bound to was dispatched, the
  approval as loaded from the store authorizes nothing, for any intent and time, in any later state.
\<close>

theorem approval_used_once:
  assumes "(store_step w)\<^sup>*\<^sup>* empty_store st" "pr_tool_calls (st_proj st) call = Some t"
    and "tc_dispatched_at t \<noteq> None" "(store_step w)\<^sup>*\<^sup>* st st'"
    and "load_approval (st_proj st') i = Some a" "ap_tool_call_id a = call"
  shows "\<not> authorizes a intent now"
proof -
  have ok: "store_ok w st" by (rule reachable_ok [OF assms(1)])
  obtain out where "project_all (w_codec w) (st_objects st') (st_log st') (st_proj st) out = Inr (st_proj st')"
    "rows_ok (w_codec w) (st_objects st') (st_log st) (st_proj st)"
    by (rule store_steps_projections [OF assms(4) ok])
  then have "dispatched (st_proj st') call"
    using project_all_dispatched assms(2,3) by (fastforce simp: dispatched_def)
  then show ?thesis
    using assms(5,6) by (auto simp: load_approval_def authorizes_def dispatched_def)
qed

theorem approval_used_once_witness:
  "\<exists>a. load_approval (st_proj work_store) 9 = Some a \<and> ap_state a = ApApproved \<and> \<not> authorizes a ''i'' 5"
proof -
  obtain t where t: "pr_tool_calls (st_proj work_store) 8 = Some t" "tc_dispatched_at t \<noteq> None"
    using work_store_view(2) by (auto simp: dispatched_def)
  obtain a where a: "load_approval (st_proj work_store) 9 = Some a" "ap_tool_call_id a = 8" "ap_state a = ApApproved"
    using work_store_view(3) by (auto split: option.splits)
  show ?thesis
    using approval_used_once [OF work_store_reachable t rtranclp.rtrancl_refl a(1,2), of "''i''" 5] a by blast
qed

text \<open>
  C14: a stored assistant stream is deltas and then at most one closing record that counts them;
  every delta is non-empty and within its size bound. This holds for every stream aggregate of
  every reachable store whose events are named after what they carry.
\<close>

theorem stored_stream_shape:
  assumes "(store_step w)\<^sup>*\<^sup>* empty_store st"
    and "\<forall>e \<in> set (read_aggregate st a 0). ev_aggregate_type (se_envelope e) = AggAssistantStream
      \<and> (\<forall>ev. payload_json (w_codec w) (st_objects st) e = Inr (PStream ev)
            \<longrightarrow> ev_event_type (se_envelope e) = stream_event_type ev)"
  shows "\<exists>ds tl. map (payload_json (w_codec w) (st_objects st)) (read_aggregate st a 0)
        = map (\<lambda>ev. Inr (PStream ev)) (ds @ tl)
    \<and> list_all is_delta ds
    \<and> (tl = [] \<or> (\<exists>c. tl = [c] \<and> \<not> is_delta c \<and> closing_count c = length ds))
    \<and> (\<forall>d \<in> set ds. 0 < length (delta_text d) \<and> length (delta_text d) \<le> MAX_DELTA_BYTES)"
proof -
  let ?c = "w_codec w" and ?o = "st_objects st"
  let ?es = "agg_log (st_log st) a"
  have ok: "store_ok w st" by (rule reachable_ok [OF assms(1)])
  have v: "verify_events ?c ?o 1 [] ?es = Inr ()"
    and all: "project_all ?c ?o (st_log st) empty_projections (st_log st) = Inr (st_proj st)"
    using ok by (simp_all add: store_ok_def)
  have read: "read_aggregate st a 0 = ?es" by (rule read_aggregate_agg_log [OF v])
  obtain evs where evs: "map (payload_json ?c ?o) ?es = map (\<lambda>ev. Inr (PStream ev)) evs"
    and acc: "stream_accepted a 1 None evs"
    using stream_log_accepted [OF v all] assms(2) read by auto
  obtain ds tl where "evs = ds @ tl" "list_all is_delta ds"
    "tl = [] \<or> (\<exists>c. tl = [c] \<and> \<not> is_delta c \<and> closing_count c = 1 + length ds - 1)"
    "\<forall>d \<in> set ds. 0 < length (delta_text d) \<and> length (delta_text d) \<le> MAX_DELTA_BYTES"
    using stream_shape [OF acc] by blast
  then show ?thesis using evs unfolding read by (intro exI [of _ ds] exI [of _ tl]) simp
qed

theorem stored_stream_shape_witness:
  "length (read_aggregate work_store 6 0) = 3 \<and>
   (\<exists>ds tl. map (payload_json sample_codec (st_objects work_store)) (read_aggregate work_store 6 0)
        = map (\<lambda>ev. Inr (PStream ev)) (ds @ tl) \<and> list_all is_delta ds)"
proof -
  have "\<forall>e \<in> set (read_aggregate work_store 6 0). ev_aggregate_type (se_envelope e) = AggAssistantStream
      \<and> (\<forall>ev. payload_json (w_codec sample_world) (st_objects work_store) e = Inr (PStream ev)
            \<longrightarrow> ev_event_type (se_envelope e) = stream_event_type ev)"
    using work_store_view(4) unfolding list_all_iff by (fastforce simp: sample_world_def)
  from stored_stream_shape [OF work_store_reachable this] work_store_view(5) show ?thesis
    by (auto simp: sample_world_def simp del: map_append)
qed

end
