(* ===== verification/Capacity.thy ===== *)
theory Capacity
  imports Rust_Str "HOL-Library.Code_Target_Nat"
begin

text \<open>
  \<open>crates/core-runtime/src/capacity.rs\<close>: the resource vector and the pool of capacity tickets.
  Every method of the pool is a function on the pool record; \<open>pool_step\<close> is one call of any of
  them. The contract \<open>invariant_system\<close> of the prelude is interpreted on it.
\<close>

section \<open>Resource vectors\<close>

record resource_vector =
  rv_model_concurrency :: u32
  rv_terminal_slots :: u32
  rv_sandbox_slots :: u32
  rv_browser_slots :: u32
  rv_memory_mib :: u32
  rv_provider_quota :: u32

record shortfall =
  sf_dimension :: string
  sf_needed :: u32
  sf_available :: u32

definition splat :: "u32 \<Rightarrow> resource_vector" where
  "splat n = \<lparr>rv_model_concurrency = n, rv_terminal_slots = n, rv_sandbox_slots = n,
     rv_browser_slots = n, rv_memory_mib = n, rv_provider_quota = n\<rparr>"

definition rv_default :: resource_vector where
  "rv_default = splat 0"

definition one_run :: resource_vector where
  "one_run = \<lparr>rv_model_concurrency = 1, rv_terminal_slots = 0, rv_sandbox_slots = 0,
     rv_browser_slots = 0, rv_memory_mib = 0, rv_provider_quota = 1\<rparr>"

definition dims :: "resource_vector \<Rightarrow> (string \<times> u32) list" where
  "dims v = [(''model_concurrency'', rv_model_concurrency v), (''terminal_slots'', rv_terminal_slots v),
     (''sandbox_slots'', rv_sandbox_slots v), (''browser_slots'', rv_browser_slots v),
     (''memory_mib'', rv_memory_mib v), (''provider_quota'', rv_provider_quota v)]"

definition rv_get :: "resource_vector \<Rightarrow> string \<Rightarrow> u32" where
  "rv_get v dim = (case find (\<lambda>(d, _). d = dim) (dims v) of None \<Rightarrow> 0 | Some (_, n) \<Rightarrow> n)"

definition rv_is_zero :: "resource_vector \<Rightarrow> bool" where
  "rv_is_zero v = list_all (\<lambda>(_, n). n = 0) (dims v)"

definition rv_plus :: "resource_vector \<Rightarrow> resource_vector \<Rightarrow> resource_vector" where
  "rv_plus a b = \<lparr>
     rv_model_concurrency = saturating_add (rv_model_concurrency a) (rv_model_concurrency b),
     rv_terminal_slots = saturating_add (rv_terminal_slots a) (rv_terminal_slots b),
     rv_sandbox_slots = saturating_add (rv_sandbox_slots a) (rv_sandbox_slots b),
     rv_browser_slots = saturating_add (rv_browser_slots a) (rv_browser_slots b),
     rv_memory_mib = saturating_add (rv_memory_mib a) (rv_memory_mib b),
     rv_provider_quota = saturating_add (rv_provider_quota a) (rv_provider_quota b)\<rparr>"

definition rv_minus :: "resource_vector \<Rightarrow> resource_vector \<Rightarrow> resource_vector" where
  "rv_minus a b = \<lparr>
     rv_model_concurrency = saturating_sub (rv_model_concurrency a) (rv_model_concurrency b),
     rv_terminal_slots = saturating_sub (rv_terminal_slots a) (rv_terminal_slots b),
     rv_sandbox_slots = saturating_sub (rv_sandbox_slots a) (rv_sandbox_slots b),
     rv_browser_slots = saturating_sub (rv_browser_slots a) (rv_browser_slots b),
     rv_memory_mib = saturating_sub (rv_memory_mib a) (rv_memory_mib b),
     rv_provider_quota = saturating_sub (rv_provider_quota a) (rv_provider_quota b)\<rparr>"

text \<open>\<open>have.shortfall(needs)\<close>.\<close>

definition rv_shortfall :: "resource_vector \<Rightarrow> resource_vector \<Rightarrow> shortfall option" where
  "rv_shortfall have_v needs =
     map_option (\<lambda>((dim, n), (_, h)). \<lparr>sf_dimension = dim, sf_needed = n, sf_available = h\<rparr>)
       (find (\<lambda>((_, n), (_, h)). n > h) (zip (dims needs) (dims have_v)))"

definition rv_set :: "string \<Rightarrow> u32 \<Rightarrow> resource_vector \<Rightarrow> resource_vector option" where
  "rv_set k n v =
     (if k = ''model'' \<or> k = ''model_concurrency'' then Some (v\<lparr>rv_model_concurrency := n\<rparr>)
      else if k = ''terminal'' \<or> k = ''terminal_slots'' then Some (v\<lparr>rv_terminal_slots := n\<rparr>)
      else if k = ''sandbox'' \<or> k = ''sandbox_slots'' then Some (v\<lparr>rv_sandbox_slots := n\<rparr>)
      else if k = ''browser'' \<or> k = ''browser_slots'' then Some (v\<lparr>rv_browser_slots := n\<rparr>)
      else if k = ''memory'' \<or> k = ''memory_mib'' then Some (v\<lparr>rv_memory_mib := n\<rparr>)
      else if k = ''provider'' \<or> k = ''provider_quota'' then Some (v\<lparr>rv_provider_quota := n\<rparr>)
      else None)"

definition rv_parse_item :: "string \<Rightarrow> resource_vector \<Rightarrow> string + resource_vector" where
  "rv_parse_item item v = (case split_once (CHR ''='') item of
     None \<Rightarrow> Inl (''`'' @ item @ ''`: expected name=count'')
   | Some (k, val) \<Rightarrow>
       (case parse_word (trim val) of
          None \<Rightarrow> Inl (''`'' @ item @ ''`: `'' @ val @ ''` is not a count'')
        | Some n \<Rightarrow>
            (case rv_set (trim k) n v of
               None \<Rightarrow> Inl (''`'' @ item @ ''`: unknown dimension `'' @ trim k @ ''`'')
             | Some v' \<Rightarrow> Inr v')))"

fun rv_parse_items :: "string list \<Rightarrow> resource_vector \<Rightarrow> string + resource_vector" where
  "rv_parse_items [] v = Inr v"
| "rv_parse_items (i # is) v = rbind (rv_parse_item i v) (rv_parse_items is)"

definition rv_parse :: "string \<Rightarrow> resource_vector \<Rightarrow> string + resource_vector" where
  "rv_parse spec base =
     rv_parse_items (filter (\<lambda>s. s \<noteq> []) (map trim (split_on (CHR '','') spec))) base"

section \<open>Tickets and the pool\<close>

record ticket =
  tk_ticket_id :: string
  tk_holder :: string
  tk_holds :: resource_vector
  tk_granted_at_ms :: int
  tk_expires_at_ms :: int
  tk_generation :: nat

datatype capacity_refused =
    CapacityExhausted shortfall "string list"
  | ExceedsPool shortfall
  | EmptyRequest
  | UnknownTicket string
  | StaleGeneration string nat nat

fun capacity_code :: "capacity_refused \<Rightarrow> string" where
  "capacity_code (CapacityExhausted _ _) = ''CAPACITY_EXHAUSTED''"
| "capacity_code (ExceedsPool _) = ''EXCEEDS_POOL''"
| "capacity_code EmptyRequest = ''EMPTY_REQUEST''"
| "capacity_code (UnknownTicket _) = ''UNKNOWN_TICKET''"
| "capacity_code (StaleGeneration _ _ _) = ''STALE_GENERATION''"

record capacity_pool =
  pool_limits :: resource_vector
  pool_tickets :: "ticket list"
  pool_issued :: nat

definition pool_new :: "resource_vector \<Rightarrow> capacity_pool" where
  "pool_new limits = \<lparr>pool_limits = limits, pool_tickets = [], pool_issued = 0\<rparr>"

definition expire :: "capacity_pool \<Rightarrow> int \<Rightarrow> capacity_pool \<times> ticket list" where
  "expire p now =
     (let (lapsed, live) = partition (\<lambda>t. tk_expires_at_ms t \<le> now) (pool_tickets p)
      in (p\<lparr>pool_tickets := live\<rparr>, lapsed))"

definition held :: "capacity_pool \<Rightarrow> resource_vector" where
  "held p = foldl (\<lambda>acc t. rv_plus acc (tk_holds t)) rv_default (pool_tickets p)"

definition available :: "capacity_pool \<Rightarrow> resource_vector" where
  "available p = rv_minus (pool_limits p) (held p)"

definition allocate ::
  "capacity_pool \<Rightarrow> string \<Rightarrow> resource_vector \<Rightarrow> int \<Rightarrow> int \<Rightarrow> nat \<Rightarrow>
     capacity_pool \<times> (capacity_refused + ticket)" where
  "allocate p holder needs now expires generation =
     (if rv_is_zero needs then (p, Inl EmptyRequest)
      else (let p1 = fst (expire p now) in
        case rv_shortfall (pool_limits p1) needs of
          Some s \<Rightarrow> (p1, Inl (ExceedsPool s))
        | None \<Rightarrow>
            (case rv_shortfall (available p1) needs of
               Some s \<Rightarrow> (p1, Inl (CapacityExhausted s (map tk_holder (pool_tickets p1))))
             | None \<Rightarrow>
                 (let n = pool_issued p1 + 1;
                      t = \<lparr>tk_ticket_id = ''t-'' @ show_nat n, tk_holder = holder, tk_holds = needs,
                           tk_granted_at_ms = now, tk_expires_at_ms = expires, tk_generation = generation\<rparr>
                  in (p1\<lparr>pool_issued := n, pool_tickets := pool_tickets p1 @ [t]\<rparr>, Inr t)))))"

definition renew :: "capacity_pool \<Rightarrow> string \<Rightarrow> int \<Rightarrow> nat \<Rightarrow> capacity_pool \<times> (capacity_refused + ticket)" where
  "renew p tid expires caller =
     (case find (\<lambda>t. tk_ticket_id t = tid) (pool_tickets p) of
        None \<Rightarrow> (p, Inl (UnknownTicket tid))
      | Some t \<Rightarrow>
          if caller < tk_generation t then (p, Inl (StaleGeneration tid (tk_generation t) caller))
          else (let f = (\<lambda>t. t\<lparr>tk_expires_at_ms := max expires (tk_expires_at_ms t)\<rparr>)
                in (p\<lparr>pool_tickets := upd_first (\<lambda>t. tk_ticket_id t = tid) f (pool_tickets p)\<rparr>, Inr (f t))))"

definition release :: "capacity_pool \<Rightarrow> string \<Rightarrow> capacity_pool \<times> ticket option" where
  "release p tid = (case position (\<lambda>t. tk_ticket_id t = tid) (pool_tickets p) of
     None \<Rightarrow> (p, None)
   | Some i \<Rightarrow> (p\<lparr>pool_tickets := remove_at i (pool_tickets p)\<rparr>, Some (pool_tickets p ! i)))"

definition release_holder :: "capacity_pool \<Rightarrow> string \<Rightarrow> capacity_pool \<times> ticket list" where
  "release_holder p holder =
     (let (gone, live) = partition (\<lambda>t. tk_holder t = holder) (pool_tickets p)
      in (p\<lparr>pool_tickets := live\<rparr>, gone))"

definition ticket_of :: "capacity_pool \<Rightarrow> string \<Rightarrow> ticket option" where
  "ticket_of p holder = find (\<lambda>t. tk_holder t = holder) (pool_tickets p)"

definition available_in :: "capacity_pool \<Rightarrow> string \<Rightarrow> u32" where
  "available_in p dimension = rv_get (available p) dimension"

section \<open>Dimension by dimension\<close>

text \<open>The six dimensions as selectors; every operation on vectors is pointwise in them.\<close>

definition rv_fields :: "(resource_vector \<Rightarrow> u32) list" where
  "rv_fields = [rv_model_concurrency, rv_terminal_slots, rv_sandbox_slots, rv_browser_slots,
     rv_memory_mib, rv_provider_quota]"

lemma rv_fields_pointwise:
  assumes "f \<in> set rv_fields"
  shows "f (rv_plus a b) = saturating_add (f a) (f b)" "f (rv_minus a b) = saturating_sub (f a) (f b)"
    "f rv_default = 0"
  using assms by (auto simp: rv_fields_def rv_plus_def rv_minus_def rv_default_def splat_def)

lemma rv_shortfall_None: "rv_shortfall a b = None \<longleftrightarrow> (\<forall>f \<in> set rv_fields. f b \<le> f a)"
  unfolding rv_shortfall_def map_option_is_None find_None_iff_ball
  by (simp add: dims_def rv_fields_def not_less)

lemma rv_is_zero_iff: "rv_is_zero v \<longleftrightarrow> (\<forall>f \<in> set rv_fields. f v = 0)"
  by (simp add: rv_is_zero_def dims_def rv_fields_def)

definition held_in :: "(resource_vector \<Rightarrow> u32) \<Rightarrow> ticket list \<Rightarrow> nat" where
  "held_in f ts = sum_list (map (\<lambda>t. unat (f (tk_holds t))) ts)"

lemma held_in_simps [simp]:
  "held_in f [] = 0" "held_in f (t # ts) = unat (f (tk_holds t)) + held_in f ts"
  "held_in f (xs @ ys) = held_in f xs + held_in f ys"
  by (simp_all add: held_in_def)

lemma held_in_filter: "held_in f (filter P ts) \<le> held_in f ts"
  by (induction ts) auto

lemma held_in_remove_at: "held_in f (remove_at i ts) \<le> held_in f ts"
proof -
  have "held_in f ts = held_in f (take i ts) + held_in f (drop i ts)"
    by (metis append_take_drop_id held_in_simps(3))
  moreover have "held_in f (drop (Suc i) ts) \<le> held_in f (drop i ts)"
    by (cases "i < length ts") (simp_all add: Cons_nth_drop_Suc [symmetric])
  ultimately show ?thesis by (simp add: remove_at_def)
qed

lemma held_in_upd_first:
  "(\<And>t. tk_holds (g t) = tk_holds t) \<Longrightarrow> held_in f (upd_first P g ts) = held_in f ts"
  by (induction ts) auto

lemma unat_foldl_held:
  assumes "f \<in> set rv_fields"
  shows "unat (f (foldl (\<lambda>acc t. rv_plus acc (tk_holds t)) acc ts)) = min (unat (f acc) + held_in f ts) (2 ^ 32 - 1)"
proof (induction ts arbitrary: acc)
  case Nil
  then show ?case using unat_less_exp [of "f acc"] by simp
next
  case (Cons t ts)
  then show ?case by (auto simp: rv_fields_pointwise [OF assms] word_nat)
qed

lemma unat_held: "f \<in> set rv_fields \<Longrightarrow> unat (f (held p)) = min (held_in f (pool_tickets p)) (2 ^ 32 - 1)"
  by (simp add: held_def unat_foldl_held rv_fields_pointwise)

section \<open>Histories of a pool\<close>

inductive pool_step :: "capacity_pool \<Rightarrow> capacity_pool \<Rightarrow> bool" where
  pool_expire: "pool_step p (fst (expire p now))"
| pool_allocate: "pool_step p (fst (allocate p holder needs now expires generation))"
| pool_renew: "pool_step p (fst (renew p tid expires caller))"
| pool_release: "pool_step p (fst (release p tid))"
| pool_release_holder: "pool_step p (fst (release_holder p holder))"

text \<open>No dimension is over-committed, and tickets carry different ids, all issued.\<close>

definition pool_ok :: "capacity_pool \<Rightarrow> bool" where
  "pool_ok p \<longleftrightarrow>
     (\<forall>f \<in> set rv_fields. held_in f (pool_tickets p) \<le> unat (f (pool_limits p)))
   \<and> distinct (map tk_ticket_id (pool_tickets p))
   \<and> (\<forall>t \<in> set (pool_tickets p). \<exists>n. 1 \<le> n \<and> n \<le> pool_issued p \<and> tk_ticket_id t = ''t-'' @ show_nat n)"

lemma pool_ok_new: "pool_ok (pool_new limits)"
  by (simp add: pool_ok_def pool_new_def)

text \<open>An operation that keeps some of the tickets and issues nothing.\<close>

lemma pool_ok_fewer:
  assumes "pool_ok p" "pool_limits q = pool_limits p" "pool_issued q = pool_issued p"
    and "\<And>f. held_in f (pool_tickets q) \<le> held_in f (pool_tickets p)"
    and "map tk_ticket_id (pool_tickets q) = map tk_ticket_id (filter P (pool_tickets p))"
  shows "pool_ok q"
proof -
  have ids: "tk_ticket_id ` set (pool_tickets q) \<subseteq> tk_ticket_id ` set (pool_tickets p)"
    using arg_cong [OF assms(5), of set] by auto
  have "distinct (map tk_ticket_id (pool_tickets q))"
    using assms(1) unfolding assms(5) by (simp add: pool_ok_def distinct_map_filter)
  moreover have "held_in f (pool_tickets q) \<le> unat (f (pool_limits q))" if "f \<in> set rv_fields" for f
    using assms(1,2) le_trans [OF assms(4)] that by (auto simp: pool_ok_def)
  moreover have "\<exists>n. 1 \<le> n \<and> n \<le> pool_issued q \<and> tk_ticket_id t = ''t-'' @ show_nat n"
    if "t \<in> set (pool_tickets q)" for t
  proof -
    have "tk_ticket_id t \<in> tk_ticket_id ` set (pool_tickets p)" using ids that by blast
    then obtain u where u: "tk_ticket_id t = tk_ticket_id u" "u \<in> set (pool_tickets p)" by (rule imageE)
    then show ?thesis using assms(1) unfolding pool_ok_def assms(3) u(1) by blast
  qed
  ultimately show ?thesis by (simp add: pool_ok_def)
qed

lemma remove_at_middle:
  "distinct (map g (ys @ x # zs)) \<Longrightarrow>
     remove_at (length ys) (ys @ x # zs) = filter (\<lambda>y. g y \<noteq> g x) (ys @ x # zs)"
proof -
  assume "distinct (map g (ys @ x # zs))"
  then have "\<forall>y \<in> set ys. g y \<noteq> g x" "\<forall>y \<in> set zs. g y \<noteq> g x"
    by (simp_all add: image_iff) metis+
  then show ?thesis by (simp add: remove_at_def)
qed

lemma remove_at_filter:
  assumes "distinct (map g xs)" "i < length xs"
  shows "remove_at i xs = filter (\<lambda>x. g x \<noteq> g (xs ! i)) xs"
  using remove_at_middle [of g "take i xs" "xs ! i" "drop (Suc i) xs"] assms
  by (simp only: id_take_nth_drop [OF assms(2), symmetric] length_take min_absorb2 less_imp_le)

lemma expire_ok: "pool_ok p \<Longrightarrow> pool_ok (fst (expire p now))"
  by (rule pool_ok_fewer [where P = "\<lambda>t. \<not> tk_expires_at_ms t \<le> now"])
    (simp_all add: expire_def held_in_filter comp_def)

lemma expire_keeps [simp]:
  "pool_limits (fst (expire p now)) = pool_limits p" "pool_issued (fst (expire p now)) = pool_issued p"
  "pool_tickets (fst (expire p now)) = filter (\<lambda>t. now < tk_expires_at_ms t) (pool_tickets p)"
  by (simp_all add: expire_def comp_def not_le)

lemma available_covers:
  assumes "pool_ok p" "rv_shortfall (available p) needs = None" "f \<in> set rv_fields"
  shows "held_in f (pool_tickets p) + unat (f needs) \<le> unat (f (pool_limits p))"
proof -
  have fit: "held_in f (pool_tickets p) \<le> unat (f (pool_limits p))" using assms(1,3) by (simp add: pool_ok_def)
  have "unat (f needs) \<le> unat (f (available p))"
    using assms(2,3) by (simp add: rv_shortfall_None word_le_nat_alt)
  then show ?thesis
    using fit unat_less_exp [of "f (pool_limits p)"]
    by (simp add: available_def rv_fields_pointwise [OF assms(3)] unat_saturating_sub unat_held [OF assms(3)])
qed

lemma pool_ok_grant:
  assumes ok: "pool_ok p" and fits: "rv_shortfall (available p) (tk_holds t) = None"
    and id: "tk_ticket_id t = ''t-'' @ show_nat (pool_issued p + 1)"
  shows "pool_ok (p\<lparr>pool_issued := pool_issued p + 1, pool_tickets := pool_tickets p @ [t]\<rparr>)"
proof -
  have new: "tk_ticket_id t \<notin> tk_ticket_id ` set (pool_tickets p)"
  proof
    assume "tk_ticket_id t \<in> tk_ticket_id ` set (pool_tickets p)"
    then obtain u where u: "tk_ticket_id t = tk_ticket_id u" "u \<in> set (pool_tickets p)" by (rule imageE)
    then obtain n where "n \<le> pool_issued p" "tk_ticket_id u = ''t-'' @ show_nat n"
      using ok by (auto simp: pool_ok_def)
    then show False using id u(1) by simp
  qed
  have issued: "\<exists>n. 1 \<le> n \<and> n \<le> pool_issued p + 1 \<and> tk_ticket_id u = ''t-'' @ show_nat n"
    if "u \<in> set (pool_tickets p @ [t])" for u
  proof (cases "u \<in> set (pool_tickets p)")
    case True
    then show ?thesis using ok unfolding pool_ok_def by (meson trans_le_add1)
  next
    case False
    then have "u = t" using that by simp
    then show ?thesis using id by (intro exI [of _ "pool_issued p + 1"]) simp
  qed
  show ?thesis
    using available_covers [OF ok fits] ok new issued by (simp add: pool_ok_def)
qed

lemma allocate_cases:
  obtains (refused) e where "allocate p holder needs now expires generation = (p, Inl e)" "e = EmptyRequest"
      "rv_is_zero needs"
  | (exceeds) s where
      "allocate p holder needs now expires generation = (fst (expire p now), Inl (ExceedsPool s))"
      "\<not> rv_is_zero needs" "rv_shortfall (pool_limits p) needs = Some s"
  | (exhausted) s where
      "allocate p holder needs now expires generation =
         (fst (expire p now), Inl (CapacityExhausted s (map tk_holder (pool_tickets (fst (expire p now))))))"
      "\<not> rv_is_zero needs" "rv_shortfall (pool_limits p) needs = None"
      "rv_shortfall (available (fst (expire p now))) needs = Some s"
  | (granted) q t where
      "allocate p holder needs now expires generation = (q, Inr t)"
      "q = (let p1 = fst (expire p now)
            in p1\<lparr>pool_issued := pool_issued p1 + 1, pool_tickets := pool_tickets p1 @ [t]\<rparr>)"
      "tk_holds t = needs" "tk_holder t = holder" "tk_generation t = generation"
      "tk_granted_at_ms t = now" "tk_expires_at_ms t = expires"
      "tk_ticket_id t = ''t-'' @ show_nat (pool_issued p + 1)"
      "\<not> rv_is_zero needs" "rv_shortfall (pool_limits p) needs = None"
      "rv_shortfall (available (fst (expire p now))) needs = None"
proof (cases "rv_is_zero needs")
  case True
  then show ?thesis using refused by (simp add: allocate_def)
next
  case nz: False
  show ?thesis
  proof (cases "rv_shortfall (pool_limits p) needs")
    case (Some s)
    then show ?thesis using nz exceeds by (simp add: allocate_def Let_def)
  next
    case lim: None
    show ?thesis
    proof (cases "rv_shortfall (available (fst (expire p now))) needs")
      case (Some s)
      then show ?thesis using nz lim exhausted by (simp add: allocate_def Let_def)
    next
      case None
      show ?thesis
        by (rule granted [of "fst (allocate p holder needs now expires generation)"
              "\<lparr>tk_ticket_id = ''t-'' @ show_nat (pool_issued p + 1), tk_holder = holder,
                 tk_holds = needs, tk_granted_at_ms = now, tk_expires_at_ms = expires,
                 tk_generation = generation\<rparr>"])
          (simp_all add: nz lim None allocate_def Let_def)
    qed
  qed
qed

lemma allocate_ok:
  assumes "pool_ok p"
  shows "pool_ok (fst (allocate p holder needs now expires generation))"
proof (cases rule: allocate_cases [of p holder needs now expires generation])
  case (granted q t)
  show ?thesis unfolding granted(1,2) fst_conv Let_def
    by (rule pool_ok_grant) (simp_all add: granted expire_ok [OF assms])
qed (simp_all add: assms expire_ok [OF assms])

lemma renew_ok:
  assumes "pool_ok p"
  shows "pool_ok (fst (renew p tid expires caller))"
proof (cases "find (\<lambda>t. tk_ticket_id t = tid) (pool_tickets p)")
  case None
  then show ?thesis using assms by (simp add: renew_def)
next
  case (Some t)
  let ?f = "\<lambda>t::ticket. t\<lparr>tk_expires_at_ms := max expires (tk_expires_at_ms t)\<rparr>"
  let ?ts = "upd_first (\<lambda>t. tk_ticket_id t = tid) ?f (pool_tickets p)"
  have "pool_ok (p\<lparr>pool_tickets := ?ts\<rparr>)"
    by (rule pool_ok_fewer [OF assms, where P = "\<lambda>_. True"])
      (simp_all add: held_in_upd_first map_upd_first)
  then show ?thesis using assms Some by (simp add: renew_def Let_def)
qed

lemma release_ok:
  assumes "pool_ok p"
  shows "pool_ok (fst (release p tid))"
proof (cases "position (\<lambda>t. tk_ticket_id t = tid) (pool_tickets p)")
  case None
  then show ?thesis using assms by (simp add: release_def)
next
  case (Some i)
  then have i: "i < length (pool_tickets p)" by (simp add: position_Some)
  have d: "distinct (map tk_ticket_id (pool_tickets p))" using assms by (simp add: pool_ok_def)
  show ?thesis using assms Some remove_at_filter [OF d i]
    by (auto simp: release_def held_in_filter intro!: pool_ok_fewer [where p = p])
qed

lemma release_holder_ok: "pool_ok p \<Longrightarrow> pool_ok (fst (release_holder p holder))"
  by (rule pool_ok_fewer [where P = "\<lambda>t. tk_holder t \<noteq> holder"])
    (simp_all add: release_holder_def held_in_filter comp_def)

interpretation pool: invariant_system pool_ok pool_step
  by unfold_locales
    (auto elim!: pool_step.cases simp: expire_ok allocate_ok renew_ok release_ok release_holder_ok)

section \<open>What the pool promises\<close>

lemma pool_step_limits: "pool_step p q \<Longrightarrow> pool_limits q = pool_limits p"
proof (induction rule: pool_step.induct)
  case (pool_allocate p holder needs now expires generation)
  show ?case
    by (cases rule: allocate_cases [of p holder needs now expires generation]) (simp_all add: Let_def)
qed (simp_all add: expire_def renew_def release_def release_holder_def Let_def split: option.split)

lemma pool_steps_limits: "pool_step\<^sup>*\<^sup>* p q \<Longrightarrow> pool_limits q = pool_limits p"
  by (induction rule: rtranclp_induct) (simp_all add: pool_step_limits)

lemma reachable_pool_ok: "pool_step\<^sup>*\<^sup>* (pool_new limits) p \<Longrightarrow> pool_ok p"
  using pool.steps_inv pool_ok_new by blast

lemma unat_available:
  assumes "pool_ok p" "f \<in> set rv_fields"
  shows "unat (f (available p)) = unat (f (pool_limits p)) - held_in f (pool_tickets p)"
proof -
  have "held_in f (pool_tickets p) \<le> unat (f (pool_limits p))" using assms by (simp add: pool_ok_def)
  then show ?thesis
    using unat_less_exp [of "f (pool_limits p)"]
    by (simp add: available_def rv_fields_pointwise [OF assms(2)] unat_saturating_sub unat_held [OF assms(2)])
qed

text \<open>C17: Whatever calls a pool has seen since it was made, the live tickets together hold at most
  its limit in every dimension, \<open>available\<close> is exactly the rest (no saturation is ever hit), and no
  two live tickets share an id.\<close>

theorem pool_never_overcommitted:
  assumes "pool_step\<^sup>*\<^sup>* (pool_new limits) p" "f \<in> set rv_fields"
  shows "held_in f (pool_tickets p) + unat (f (available p)) = unat (f limits)
    \<and> distinct (map tk_ticket_id (pool_tickets p))"
proof -
  have ok: "pool_ok p" by (rule reachable_pool_ok [OF assms(1)])
  have "pool_limits p = limits" using pool_steps_limits [OF assms(1)] by (simp add: pool_new_def)
  then show ?thesis using ok assms(2) unat_available [OF ok assms(2)] by (simp add: pool_ok_def)
qed

definition sample_pool :: capacity_pool where
  "sample_pool = fst (allocate (pool_new (splat 2)) ''run-1'' one_run 0 100 1)"

lemma sample_pool_reachable: "pool_step\<^sup>*\<^sup>* (pool_new (splat 2)) sample_pool"
  unfolding sample_pool_def by (rule r_into_rtranclp) (rule pool_allocate)

theorem pool_never_overcommitted_witness:
  "rv_provider_quota \<in> set rv_fields \<and> pool_tickets sample_pool \<noteq> [] \<and>
   held_in rv_provider_quota (pool_tickets sample_pool) + unat (rv_provider_quota (available sample_pool)) = 2"
proof -
  have f: "rv_provider_quota \<in> set rv_fields" by (simp add: rv_fields_def)
  have "unat (rv_provider_quota (splat 2)) = 2" by (simp add: splat_def)
  moreover have "pool_tickets sample_pool \<noteq> []" by code_simp
  ultimately show ?thesis using f pool_never_overcommitted [OF sample_pool_reachable f] by simp
qed

definition live_tickets :: "capacity_pool \<Rightarrow> int \<Rightarrow> ticket list" where
  "live_tickets p now = filter (\<lambda>t. now < tk_expires_at_ms t) (pool_tickets p)"

text \<open>C18: In a pool reached by any calls, \<open>allocate\<close> grants exactly when the request is not empty
  and in every dimension the tickets that have not lapsed leave room for it; a grant adds one ticket
  with the requested amount, holder, expiry and generation to the tickets that have not lapsed, and a
  refusal adds none.\<close>

theorem allocate_grants_iff_fits:
  assumes "pool_step\<^sup>*\<^sup>* (pool_new limits) p"
  shows "case allocate p holder needs now expires generation of
      (q, Inr t) \<Rightarrow> (\<exists>f \<in> set rv_fields. f needs \<noteq> 0)
        \<and> (\<forall>f \<in> set rv_fields. held_in f (live_tickets p now) + unat (f needs) \<le> unat (f limits))
        \<and> pool_tickets q = live_tickets p now @ [t] \<and> tk_holds t = needs \<and> tk_holder t = holder
        \<and> tk_expires_at_ms t = expires \<and> tk_generation t = generation
    | (q, Inl e) \<Rightarrow> \<not> ((\<exists>f \<in> set rv_fields. f needs \<noteq> 0)
        \<and> (\<forall>f \<in> set rv_fields. held_in f (live_tickets p now) + unat (f needs) \<le> unat (f limits)))
        \<and> set (pool_tickets q) \<subseteq> set (pool_tickets p) \<and> set (live_tickets p now) \<subseteq> set (pool_tickets q)"
proof -
  let ?p1 = "fst (expire p now)"
  have ok: "pool_ok ?p1" by (rule expire_ok [OF reachable_pool_ok [OF assms(1)]])
  have limits: "pool_limits p = limits" using pool_steps_limits [OF assms(1)] by (simp add: pool_new_def)
  have p1: "pool_tickets ?p1 = live_tickets p now" "pool_limits ?p1 = limits" by (simp_all add: live_tickets_def limits)
  have fits: "rv_shortfall (available ?p1) needs = None \<longleftrightarrow>
      (\<forall>f \<in> set rv_fields. held_in f (live_tickets p now) + unat (f needs) \<le> unat (f limits))"
  proof -
    have "f needs \<le> f (available ?p1) \<longleftrightarrow> held_in f (live_tickets p now) + unat (f needs) \<le> unat (f limits)"
      if "f \<in> set rv_fields" for f
      using unat_available [OF ok that] ok that unfolding word_le_nat_alt p1 pool_ok_def by auto
    then show ?thesis by (simp add: rv_shortfall_None)
  qed
  have over: "rv_shortfall limits needs \<noteq> None \<Longrightarrow> rv_shortfall (available ?p1) needs \<noteq> None"
    unfolding fits by (auto simp: rv_shortfall_None word_le_nat_alt not_le) (meson le_add2 le_trans not_le)
  have sub: "set (live_tickets p now) \<subseteq> set (pool_tickets p)" by (auto simp: live_tickets_def)
  show ?thesis
  proof (cases rule: allocate_cases [of p holder needs now expires generation])
    case (refused e)
    then show ?thesis using sub by (simp add: rv_is_zero_iff)
  next
    case (exceeds s)
    then show ?thesis using over fits sub by (simp add: limits p1 del: expire_keeps)
  next
    case (exhausted s)
    then show ?thesis using fits sub by (simp add: p1 del: expire_keeps)
  next
    case (granted q t)
    then show ?thesis using fits by (simp add: p1 rv_is_zero_iff Let_def del: expire_keeps)
  qed
qed

theorem allocate_grants_iff_fits_witness:
  "length (pool_tickets (fst (allocate sample_pool ''run-2'' one_run 5 200 1))) = 2
   \<and> held_in rv_provider_quota (pool_tickets sample_pool) + unat (rv_provider_quota one_run)
       \<le> unat (rv_provider_quota (splat 2))"
proof -
  have f: "rv_provider_quota \<in> set rv_fields" by (simp add: rv_fields_def)
  have live: "live_tickets sample_pool 5 = pool_tickets sample_pool" by code_simp
  have two: "length (pool_tickets (fst (allocate sample_pool ''run-2'' one_run 5 200 1))) = 2" by code_simp
  have "\<not> isl (snd (allocate sample_pool ''run-2'' one_run 5 200 1))" by code_simp
  then obtain q t where "allocate sample_pool ''run-2'' one_run 5 200 1 = (q, Inr t)"
    by (cases "allocate sample_pool ''run-2'' one_run 5 200 1"; cases "snd (allocate sample_pool ''run-2'' one_run 5 200 1)")
      auto
  then show ?thesis
    using two allocate_grants_iff_fits [OF sample_pool_reachable, where holder = "''run-2''" and needs = one_run
        and now = 5 and expires = 200 and generation = 1]
    unfolding live using f by simp
qed

text \<open>C19: Giving capacity back. In a pool reached by any calls, \<open>release\<close> of a live ticket returns
  that ticket and frees exactly what it held in every dimension; repeating the release, or
  releasing an id that is not live, changes nothing.\<close>

theorem release_gives_back:
  assumes "pool_step\<^sup>*\<^sup>* (pool_new limits) p" "f \<in> set rv_fields"
  shows "case release p tid of
      (q, Some t) \<Rightarrow> t \<in> set (pool_tickets p) \<and> tk_ticket_id t = tid
        \<and> unat (f (available q)) = unat (f (available p)) + unat (f (tk_holds t))
        \<and> release q tid = (q, None)
    | (q, None) \<Rightarrow> q = p \<and> tid \<notin> tk_ticket_id ` set (pool_tickets p)"
proof (cases "position (\<lambda>t. tk_ticket_id t = tid) (pool_tickets p)")
  case None
  then have "release p tid = (p, None)" by (simp add: release_def)
  moreover have "tid \<notin> tk_ticket_id ` set (pool_tickets p)" using None unfolding position_None by blast
  ultimately show ?thesis by simp
next
  case (Some i)
  let ?t = "pool_tickets p ! i"
  let ?q = "p\<lparr>pool_tickets := remove_at i (pool_tickets p)\<rparr>"
  have i: "i < length (pool_tickets p)" and tid: "tk_ticket_id ?t = tid"
    using Some by (simp_all add: position_Some)
  have rel: "release p tid = (?q, Some ?t)" using Some by (simp add: release_def)
  have ok: "pool_ok p" by (rule reachable_pool_ok [OF assms(1)])
  then have okq: "pool_ok ?q" using release_ok [OF ok, of tid] by (simp add: rel)
  have d: "distinct (map tk_ticket_id (pool_tickets p))" using ok by (simp add: pool_ok_def)
  have "position (\<lambda>t. tk_ticket_id t = tid) (pool_tickets ?q) = None"
    by (simp add: position_None remove_at_filter [OF d i] tid)
  then have again: "release ?q tid = (?q, None)" by (simp add: release_def)
  have "held_in f (pool_tickets p) = held_in f (pool_tickets ?q) + unat (f (tk_holds ?t))"
    using arg_cong [OF id_take_nth_drop [OF i], of "held_in f"] by (simp add: remove_at_def)
  then have "unat (f (available ?q)) = unat (f (available p)) + unat (f (tk_holds ?t))"
    using ok assms(2) unat_available [OF ok assms(2)] unat_available [OF okq assms(2)]
    by (auto simp: pool_ok_def)
  then show ?thesis unfolding rel using again i tid by simp
qed

theorem release_gives_back_witness:
  "case release sample_pool ''t-1'' of
     (q, Some t) \<Rightarrow> unat (rv_provider_quota (available q)) = 1 + unat (rv_provider_quota (available sample_pool))
   | (q, None) \<Rightarrow> False"
proof -
  have f: "rv_provider_quota \<in> set rv_fields" by (simp add: rv_fields_def)
  have "case snd (release sample_pool ''t-1'') of Some t \<Rightarrow> unat (rv_provider_quota (tk_holds t)) = 1 | None \<Rightarrow> False"
    by code_simp
  then show ?thesis
    using release_gives_back [OF sample_pool_reachable f, of "''t-1''"]
    by (auto split: option.splits prod.splits)
qed

end
