(* ===== verification/Budget.thy ===== *)
theory Budget
  imports Rust_Str "HOL-Library.Code_Target_Nat"
begin

text \<open>
  \<open>crates/core-runtime/src/budget.rs\<close>: the budget of a child task as a slice of its parent's, and
  \<open>clamp_for\<close> of \<open>services/modbit-core/src/spawn.rs\<close>, which asks it at admission. A parent with its
  children is the record \<open>family\<close>; \<open>family_step\<close> is one admission, one report of a child's spend
  within its reservation, a child that stops, or a round of the parent. A child that runs again is
  not a step: \<open>resumed_child_overholds\<close> shows what its old reservation does. The amounts \<open>clamp\<close>
  grants are also given in the natural numbers, without the machine arithmetic.
\<close>

section \<open>Amounts\<close>

definition PARENT_RESERVE_ROUNDS :: u64 where "PARENT_RESERVE_ROUNDS = 2"
definition PARENT_RESERVE_TURNS :: u64 where "PARENT_RESERVE_TURNS = 2"
definition PARENT_RESERVE_TOOL_CALLS :: u64 where "PARENT_RESERVE_TOOL_CALLS = 4"
definition DEFAULT_CHILD_TURNS :: u64 where "DEFAULT_CHILD_TURNS = 20"

record held_amount =
  h_turns :: u64
  h_tool_calls :: u64
  h_cost_minor :: u64
  h_wall_ms :: u64

definition held_default :: held_amount where
  "held_default = \<lparr>h_turns = 0, h_tool_calls = 0, h_cost_minor = 0, h_wall_ms = 0\<rparr>"

definition held_plus :: "held_amount \<Rightarrow> held_amount \<Rightarrow> held_amount" where
  "held_plus a b = \<lparr>h_turns = saturating_add (h_turns a) (h_turns b),
     h_tool_calls = saturating_add (h_tool_calls a) (h_tool_calls b),
     h_cost_minor = saturating_add (h_cost_minor a) (h_cost_minor b),
     h_wall_ms = max (h_wall_ms a) (h_wall_ms b)\<rparr>"

definition max_consumable :: "held_amount \<Rightarrow> held_amount \<Rightarrow> held_amount" where
  "max_consumable a b = \<lparr>h_turns = max (h_turns a) (h_turns b),
     h_tool_calls = max (h_tool_calls a) (h_tool_calls b),
     h_cost_minor = max (h_cost_minor a) (h_cost_minor b),
     h_wall_ms = max (h_wall_ms a) (h_wall_ms b)\<rparr>"

record caps =
  c_turns :: u64
  c_tool_calls :: u64
  c_cost_minor :: "u64 option"
  c_wall_ms :: "u64 option"

record child_hold =
  ch_reserved :: held_amount
  ch_spent :: held_amount
  ch_live :: bool

definition child_held :: "child_hold \<Rightarrow> held_amount" where
  "child_held c = (if ch_live c then max_consumable (ch_reserved c) (ch_spent c) else ch_spent c)"

definition committed_add :: "held_amount \<Rightarrow> child_hold \<Rightarrow> held_amount" where
  "committed_add acc c = (let h = child_held c in
     \<lparr>h_turns = saturating_add (h_turns acc) (h_turns h),
      h_tool_calls = saturating_add (h_tool_calls acc) (h_tool_calls h),
      h_cost_minor = saturating_add (h_cost_minor acc) (h_cost_minor h),
      h_wall_ms = 0\<rparr>)"

definition committed :: "child_hold list \<Rightarrow> held_amount" where
  "committed children = foldl committed_add held_default children"

record remaining_amount =
  r_turns :: u64
  r_tool_calls :: u64
  r_cost_minor :: "u64 option"
  r_wall_ms :: "u64 option"

definition remaining :: "caps \<Rightarrow> held_amount \<Rightarrow> held_amount \<Rightarrow> remaining_amount" where
  "remaining cap own children = \<lparr>
     r_turns = saturating_sub (saturating_sub (c_turns cap) (h_turns own)) (h_turns children),
     r_tool_calls = saturating_sub (saturating_sub (c_tool_calls cap) (h_tool_calls own)) (h_tool_calls children),
     r_cost_minor = (case c_cost_minor cap of None \<Rightarrow> None
       | Some c \<Rightarrow> Some (saturating_sub (saturating_sub c (h_cost_minor own)) (h_cost_minor children))),
     r_wall_ms = (case c_wall_ms cap of None \<Rightarrow> None | Some w \<Rightarrow> Some (saturating_sub w (h_wall_ms own)))\<rparr>"

definition remaining_for_children :: "caps \<Rightarrow> held_amount \<Rightarrow> held_amount \<Rightarrow> remaining_amount" where
  "remaining_for_children cap own children =
     (let rem = remaining cap own children;
          per_turn = h_cost_minor own div max (h_turns own) 1;
          keep = saturating_mul per_turn PARENT_RESERVE_ROUNDS
      in rem\<lparr>r_cost_minor := (case r_cost_minor rem of None \<Rightarrow> None
           | Some c \<Rightarrow> Some (saturating_sub c keep))\<rparr>)"

section \<open>Admission\<close>

record request =
  q_turns :: u64
  q_tool_calls :: u64
  q_cost_minor :: u64
  q_wall_ms :: u64

record grant =
  g_turns :: u64
  g_tool_calls :: u64
  g_cost_minor :: "u64 option"
  g_wall_ms :: "u64 option"

record insufficient =
  i_dimension :: string
  i_remaining :: u64

definition insufficient_display :: "insufficient \<Rightarrow> string" where
  "insufficient_display e = ''the parent has '' @ show_nat (unat (i_remaining e)) @ '' '' @ i_dimension e
     @ '' left to give a child''"

definition fair_share :: "u32 \<Rightarrow> u64 \<Rightarrow> u64" where
  "fair_share slots_left room = max (room div (ucast slots_left + 1)) 1"

text \<open>The two optional dimensions: \<open>None\<close> when the parent has no cap, else the clamped amount,
  refused when it is 0.\<close>

definition clamp_optional :: "string \<Rightarrow> u64 \<Rightarrow> (u64 \<Rightarrow> u64) \<Rightarrow> u64 option \<Rightarrow> insufficient + u64 option" where
  "clamp_optional dim asked unstated rem = (case rem of
     None \<Rightarrow> Inr None
   | Some left \<Rightarrow>
       (let want = (if asked = 0 then unstated left else asked);
            grant = min want left
        in if grant = 0 then Inl \<lparr>i_dimension = dim, i_remaining = left\<rparr> else Inr (Some grant)))"

definition or_stated :: "u64 option \<Rightarrow> u64 \<Rightarrow> u64 option" where
  "or_stated g asked = (case g of Some x \<Rightarrow> Some x | None \<Rightarrow> (if asked > 0 then Some asked else None))"

text \<open>The two counted dimensions: what is asked, or the default held to a fair share, clamped to the
  room above what the parent keeps.\<close>

definition clamp_counted :: "u64 \<Rightarrow> u64 \<Rightarrow> u32 \<Rightarrow> u64 \<Rightarrow> u64 \<Rightarrow> u64" where
  "clamp_counted asked unstated slots_left left keep =
     (let room = saturating_sub left keep;
          want = (if asked = 0 then min unstated (fair_share slots_left room) else asked)
      in min want room)"

definition clamp :: "request \<Rightarrow> u64 \<Rightarrow> remaining_amount \<Rightarrow> u32 \<Rightarrow> insufficient + grant" where
  "clamp req default_tool_calls rem slots_left =
     (let turns = clamp_counted (q_turns req) DEFAULT_CHILD_TURNS slots_left (r_turns rem) PARENT_RESERVE_TURNS;
          tool_calls = clamp_counted (q_tool_calls req) default_tool_calls slots_left (r_tool_calls rem)
            PARENT_RESERVE_TOOL_CALLS
      in if turns = 0 then Inl \<lparr>i_dimension = ''turns'', i_remaining = r_turns rem\<rparr>
         else if tool_calls = 0 then Inl \<lparr>i_dimension = ''tool calls'', i_remaining = r_tool_calls rem\<rparr>
         else
           rbind (clamp_optional ''cost'' (q_cost_minor req) (\<lambda>left. left div (ucast slots_left + 1)) (r_cost_minor rem))
             (\<lambda>cost_minor. rbind (clamp_optional ''wall clock'' (q_wall_ms req) id (r_wall_ms rem))
               (\<lambda>wall_ms. Inr \<lparr>g_turns = turns, g_tool_calls = tool_calls,
                  g_cost_minor = or_stated cost_minor (q_cost_minor req),
                  g_wall_ms = or_stated wall_ms (q_wall_ms req)\<rparr>)))"

fun regrant_optional :: "u64 option \<Rightarrow> u64 \<Rightarrow> u64 option \<Rightarrow> u64 option" where
  "regrant_optional (Some c) used (Some r) = Some (min c (saturating_add used r))"
| "regrant_optional None used (Some r) = Some (saturating_add used r)"
| "regrant_optional c used None = c"

definition regrant :: "caps \<Rightarrow> held_amount \<Rightarrow> remaining_amount \<Rightarrow> caps" where
  "regrant capsule used rem = \<lparr>
     c_turns = min (c_turns capsule)
       (saturating_add (h_turns used) (saturating_sub (r_turns rem) PARENT_RESERVE_TURNS)),
     c_tool_calls = min (c_tool_calls capsule)
       (saturating_add (h_tool_calls used) (saturating_sub (r_tool_calls rem) PARENT_RESERVE_TOOL_CALLS)),
     c_cost_minor = regrant_optional (c_cost_minor capsule) (h_cost_minor used) (r_cost_minor rem),
     c_wall_ms = regrant_optional (c_wall_ms capsule) (h_wall_ms used) (r_wall_ms rem)\<rparr>"

section \<open>The admission of a child\<close>

text \<open>\<open>clamp_for\<close>: the clamp against what the children hold now, with a note per amount it lowered.
  The parent's budgets are its caps and \<open>max_children\<close>; the default number of tool calls is the
  one of \<open>Budgets::default()\<close>.\<close>

definition show_cap :: "string \<Rightarrow> u64 option \<Rightarrow> string" where
  "show_cap unit c = (case c of None \<Rightarrow> ''uncapped'' | Some n \<Rightarrow> show_nat (unat n) @ unit)"

definition clamp_note :: "string \<Rightarrow> u64 \<Rightarrow> u64 option \<Rightarrow> string list" where
  "clamp_note label asked got = (case got of None \<Rightarrow> []
     | Some g \<Rightarrow> if asked \<noteq> 0 \<and> g < asked
         then [label @ '' '' @ show_nat (unat asked) @ '' -> '' @ show_nat (unat g)] else [])"

definition clamp_for ::
  "caps \<Rightarrow> held_amount \<Rightarrow> u32 \<Rightarrow> u64 \<Rightarrow> request \<Rightarrow> child_hold list \<Rightarrow> string + grant \<times> string list" where
  "clamp_for cap own max_children default_tool_calls asked holds =
     (let live = length (filter ch_live holds);
          rem = remaining_for_children cap own (committed holds)
      in rbind (map_err (\<lambda>e. insufficient_display e
             @ ''; a child's budget is a slice of its parent's remainder (turns '' @ show_nat (unat (r_turns rem))
             @ '', tool calls '' @ show_nat (unat (r_tool_calls rem))
             @ '', cost '' @ show_cap [] (r_cost_minor rem)
             @ '', wall clock '' @ show_cap '' ms'' (r_wall_ms rem)
             @ ''). Finish the work yourself or wait for a child to settle'')
           (clamp asked default_tool_calls rem (of_nat (unat max_children - live))))
         (\<lambda>g. Inr (g, clamp_note ''max_turns'' (q_turns asked) (Some (g_turns g))
            @ clamp_note ''max_tool_calls'' (q_tool_calls asked) (Some (g_tool_calls g))
            @ clamp_note ''max_cost_minor'' (q_cost_minor asked) (g_cost_minor g)
            @ clamp_note ''max_wall_ms'' (q_wall_ms asked) (g_wall_ms g))))"

text \<open>What the capsule of the admitted child records, and the hold read back from it.\<close>

definition reserve :: "grant \<Rightarrow> held_amount" where
  "reserve g = \<lparr>h_turns = min (g_turns g) 0xFFFFFFFF, h_tool_calls = min (g_tool_calls g) 0xFFFFFFFF,
     h_cost_minor = (case g_cost_minor g of None \<Rightarrow> 0 | Some c \<Rightarrow> c),
     h_wall_ms = (case g_wall_ms g of None \<Rightarrow> 0 | Some w \<Rightarrow> w)\<rparr>"

definition show_opt :: "u64 option \<Rightarrow> string" where
  "show_opt c = (case c of None \<Rightarrow> ''None'' | Some n \<Rightarrow> ''Some('' @ show_nat (unat n) @ '')'')"

text \<open>The check made in the append that creates the child: the grant against what the reservations
  leave now.\<close>

definition recheck :: "caps \<Rightarrow> held_amount \<Rightarrow> child_hold list \<Rightarrow> grant \<Rightarrow> string + unit" where
  "recheck cap own children g =
     (let holds = map (\<lambda>h. if ch_live h then h\<lparr>ch_spent := held_default\<rparr> else h) children;
          rem = remaining_for_children cap own (committed holds)
      in if g_turns g > r_turns rem \<or> g_tool_calls g > r_tool_calls rem
           \<or> (case (g_cost_minor g, r_cost_minor rem) of (Some c, Some r) \<Rightarrow> c > r | _ \<Rightarrow> False)
         then Inl (''another admission took the remainder first (turns '' @ show_nat (unat (r_turns rem))
           @ '', tool calls '' @ show_nat (unat (r_tool_calls rem)) @ '', cost '' @ show_opt (r_cost_minor rem) @ '')'')
         else Inr ())"

section \<open>What the children hold, dimension by dimension\<close>

definition consumable :: "((held_amount \<Rightarrow> u64) \<times> (caps \<Rightarrow> u64 option)) list" where
  "consumable = [(h_turns, \<lambda>c. Some (c_turns c)), (h_tool_calls, \<lambda>c. Some (c_tool_calls c)),
     (h_cost_minor, c_cost_minor)]"

definition holds_of :: "(held_amount \<Rightarrow> u64) \<Rightarrow> child_hold list \<Rightarrow> nat" where
  "holds_of h cs = sum_list (map (\<lambda>c. unat (h (child_held c))) cs)"

lemma holds_of_simps [simp]:
  "holds_of h [] = 0" "holds_of h (c # cs) = unat (h (child_held c)) + holds_of h cs"
  "holds_of h (xs @ ys) = holds_of h xs + holds_of h ys"
  by (simp_all add: holds_of_def)

abbreviation sums :: "(held_amount \<Rightarrow> u64) set" where
  "sums \<equiv> {h_turns, h_tool_calls, h_cost_minor}"

lemma unat_committed_from:
  assumes "h \<in> sums"
  shows "unat (h (foldl committed_add acc cs)) = min (unat (h acc) + holds_of h cs) (2 ^ 64 - 1)"
proof (induction cs arbitrary: acc)
  case Nil
  then show ?case using unat_less_exp [of "h acc"] by simp
next
  case (Cons c cs)
  then show ?case using assms by (auto simp: word_nat Let_def committed_add_def)
qed

lemma unat_committed: "h \<in> sums \<Longrightarrow> unat (h (committed cs)) = min (holds_of h cs) (2 ^ 64 - 1)"
  using unat_committed_from [of h held_default cs] by (auto simp: committed_def held_default_def)

text \<open>A cost that is left for children is left of the cap; the parent's own reserve only lowers it.\<close>

lemma unat_remaining:
  "unat (r_turns (remaining_for_children cap own ch)) = unat (c_turns cap) - unat (h_turns own) - unat (h_turns ch)"
  "unat (r_tool_calls (remaining_for_children cap own ch)) =
     unat (c_tool_calls cap) - unat (h_tool_calls own) - unat (h_tool_calls ch)"
  "r_cost_minor (remaining_for_children cap own ch) = Some r \<Longrightarrow>
     \<exists>c. c_cost_minor cap = Some c \<and> unat r \<le> unat c - unat (h_cost_minor own) - unat (h_cost_minor ch)"
  "r_cost_minor (remaining_for_children cap own ch) = None \<longleftrightarrow> c_cost_minor cap = None"
  by (auto simp: remaining_for_children_def remaining_def Let_def word_nat split: option.splits)

section \<open>Histories of a parent and its children\<close>

record family =
  f_cap :: caps
  f_own :: held_amount
  f_children :: "child_hold list"

definition within_cap :: "caps \<Rightarrow> held_amount \<Rightarrow> child_hold list \<Rightarrow> bool" where
  "within_cap cap own cs \<longleftrightarrow>
     (\<forall>(h, c) \<in> set consumable. \<forall>m. c cap = Some m \<longrightarrow> unat (h own) + holds_of h cs \<le> unat m)"

definition within_reserve :: "child_hold \<Rightarrow> bool" where
  "within_reserve c \<longleftrightarrow> (ch_live c \<longrightarrow> (\<forall>h \<in> sums. h (ch_spent c) \<le> h (ch_reserved c)))"

text \<open>A child's spend goes up and stays in its reservation; a round of the parent is one its caps
  still cover.\<close>

inductive family_step :: "family \<Rightarrow> family \<Rightarrow> bool" where
  family_admit: "recheck (f_cap f) (f_own f) (f_children f) g = Inr () \<Longrightarrow>
     family_step f (f\<lparr>f_children := f_children f @
       [\<lparr>ch_reserved = reserve g, ch_spent = held_default, ch_live = True\<rparr>]\<rparr>)"
| family_spend: "i < length (f_children f) \<Longrightarrow> ch_live (f_children f ! i) \<Longrightarrow>
     (\<And>h. h \<in> sums \<Longrightarrow> h s \<le> h (ch_reserved (f_children f ! i))) \<Longrightarrow>
     family_step f (f\<lparr>f_children := (f_children f)[i := (f_children f ! i)\<lparr>ch_spent := s\<rparr>]\<rparr>)"
| family_stop: "i < length (f_children f) \<Longrightarrow>
     family_step f (f\<lparr>f_children := (f_children f)[i := (f_children f ! i)\<lparr>ch_live := False\<rparr>]\<rparr>)"
| family_round: "within_cap (f_cap f) own (f_children f) \<Longrightarrow> family_step f (f\<lparr>f_own := own\<rparr>)"

definition family_ok :: "family \<Rightarrow> bool" where
  "family_ok f \<longleftrightarrow> within_cap (f_cap f) (f_own f) (f_children f) \<and> list_all within_reserve (f_children f)"

lemma child_held_live: "within_reserve c \<Longrightarrow> ch_live c \<Longrightarrow> h \<in> sums \<Longrightarrow> h (child_held c) = h (ch_reserved c)"
  by (auto simp: within_reserve_def child_held_def max_consumable_def max_def)

lemma holds_of_reset:
  assumes "list_all within_reserve cs" "h \<in> sums"
  shows "holds_of h (map (\<lambda>c. if ch_live c then c\<lparr>ch_spent := held_default\<rparr> else c) cs) = holds_of h cs"
  using assms(1)
proof (induction cs)
  case (Cons c cs)
  have "h (child_held (c\<lparr>ch_spent := held_default\<rparr>)) = h (ch_reserved c)" if "ch_live c"
    using that assms(2) by (auto simp: child_held_def max_consumable_def held_default_def)
  then show ?case using Cons child_held_live [OF _ _ assms(2), of c] by auto
qed simp

lemma holds_of_update:
  assumes "i < length cs" "unat (h (child_held c)) \<le> unat (h (child_held (cs ! i)))"
  shows "holds_of h (cs[i := c]) \<le> holds_of h cs"
proof -
  have "holds_of h cs = holds_of h (take i cs) + unat (h (child_held (cs ! i))) + holds_of h (drop (Suc i) cs)"
    using arg_cong [OF id_take_nth_drop [OF assms(1)], of "holds_of h"] by simp
  then show ?thesis using assms by (simp add: upd_conv_take_nth_drop)
qed

lemma within_cap_iff:
  "within_cap cap own cs \<longleftrightarrow>
     unat (h_turns own) + holds_of h_turns cs \<le> unat (c_turns cap)
   \<and> unat (h_tool_calls own) + holds_of h_tool_calls cs \<le> unat (c_tool_calls cap)
   \<and> (\<forall>c. c_cost_minor cap = Some c \<longrightarrow> unat (h_cost_minor own) + holds_of h_cost_minor cs \<le> unat c)"
  by (simp add: within_cap_def consumable_def)

lemma within_cap_fewer:
  "within_cap cap own cs \<Longrightarrow> (\<And>h. h \<in> sums \<Longrightarrow> holds_of h ds \<le> holds_of h cs) \<Longrightarrow> within_cap cap own ds"
proof -
  assume cs: "within_cap cap own cs" and le: "\<And>h. h \<in> sums \<Longrightarrow> holds_of h ds \<le> holds_of h cs"
  have "holds_of h_turns ds \<le> holds_of h_turns cs" "holds_of h_tool_calls ds \<le> holds_of h_tool_calls cs"
    "holds_of h_cost_minor ds \<le> holds_of h_cost_minor cs" by (simp_all add: le)
  then show ?thesis using cs unfolding within_cap_iff by (meson add_left_mono le_trans)
qed

lemma recheck_covers:
  assumes "recheck cap own cs g = Inr ()" "within_cap cap own cs" "list_all within_reserve cs"
  shows "within_cap cap own (cs @ [\<lparr>ch_reserved = reserve g, ch_spent = held_default, ch_live = True\<rparr>])"
proof -
  let ?cs = "map (\<lambda>c. if ch_live c then c\<lparr>ch_spent := held_default\<rparr> else c) cs"
  let ?rem = "remaining_for_children cap own (committed ?cs)"
  let ?new = "\<lparr>ch_reserved = reserve g, ch_spent = held_default, ch_live = True\<rparr>"
  have fits: "unat (g_turns g) \<le> unat (r_turns ?rem)" "unat (g_tool_calls g) \<le> unat (r_tool_calls ?rem)"
    "\<And>c r. g_cost_minor g = Some c \<Longrightarrow> r_cost_minor ?rem = Some r \<Longrightarrow> unat c \<le> unat r"
    using assms(1) by (auto simp: recheck_def Let_def word_le_nat_alt not_less split: if_splits)
  have sum: "unat (h (committed ?cs)) = min (holds_of h cs) (2 ^ 64 - 1)" if "h \<in> sums" for h
    using unat_committed [OF that, of ?cs] holds_of_reset [OF assms(3) that] by simp
  have new: "unat (h_turns (child_held ?new)) \<le> unat (g_turns g)"
    "unat (h_tool_calls (child_held ?new)) \<le> unat (g_tool_calls g)"
    "unat (h_cost_minor (child_held ?new)) = (case g_cost_minor g of None \<Rightarrow> 0 | Some c \<Rightarrow> unat c)"
    by (simp_all add: child_held_def max_consumable_def held_default_def reserve_def word_nat split: option.split)
  have old: "unat (h_turns own) + holds_of h_turns cs \<le> unat (c_turns cap)"
    "unat (h_tool_calls own) + holds_of h_tool_calls cs \<le> unat (c_tool_calls cap)"
    "\<And>c. c_cost_minor cap = Some c \<Longrightarrow> unat (h_cost_minor own) + holds_of h_cost_minor cs \<le> unat c"
    using assms(2) by (auto simp: within_cap_iff)
  have lim: "unat (w :: u64) \<le> 2 ^ 64 - 1" for w using unat_less_exp [of w] by simp
  have "unat (h_turns own) + holds_of h_turns cs + unat (h_turns (child_held ?new)) \<le> unat (c_turns cap)"
    using fits(1) new(1) old(1) lim [of "c_turns cap"] sum [of h_turns] unat_remaining(1) [of cap own "committed ?cs"]
    by (simp add: min_def split: if_splits)
  moreover have "unat (h_tool_calls own) + holds_of h_tool_calls cs + unat (h_tool_calls (child_held ?new))
      \<le> unat (c_tool_calls cap)"
    using fits(2) new(2) old(2) lim [of "c_tool_calls cap"] sum [of h_tool_calls]
      unat_remaining(2) [of cap own "committed ?cs"]
    by (simp add: min_def split: if_splits)
  moreover have "unat (h_cost_minor own) + holds_of h_cost_minor cs + unat (h_cost_minor (child_held ?new)) \<le> unat c"
    if c: "c_cost_minor cap = Some c" for c
  proof -
    obtain r where r: "r_cost_minor ?rem = Some r"
      using unat_remaining(4) [of cap own "committed ?cs"] c by fastforce
    have "unat r \<le> unat c - unat (h_cost_minor own) - holds_of h_cost_minor cs"
      using unat_remaining(3) [OF r] c sum [of h_cost_minor] old(3) [OF c] lim [of c]
      by (simp add: min_def split: if_splits)
    then show ?thesis using fits(3) [OF _ r] new(3) old(3) [OF c]
      by (cases "g_cost_minor g") force+
  qed
  ultimately show ?thesis unfolding within_cap_iff by (simp add: add.assoc)
qed

lemma family_step_ok: "family_step f f' \<Longrightarrow> family_ok f \<Longrightarrow> family_ok f'"
proof (induction rule: family_step.induct)
  case (family_admit f g)
  then show ?case using recheck_covers [OF family_admit(1)]
    by (simp add: family_ok_def within_reserve_def held_default_def)
next
  case (family_spend i f s)
  let ?c = "(f_children f ! i)\<lparr>ch_spent := s\<rparr>"
  have c: "within_reserve ?c" "within_reserve (f_children f ! i)"
    using family_spend by (auto simp: within_reserve_def family_ok_def list_all_length)
  have "h (child_held ?c) = h (child_held (f_children f ! i))" if "h \<in> sums" for h
    using child_held_live [OF c(1) _ that] child_held_live [OF c(2) _ that] family_spend(2) by simp
  then have "holds_of h ((f_children f)[i := ?c]) \<le> holds_of h (f_children f)" if "h \<in> sums" for h
    using holds_of_update [OF family_spend(1), of h ?c] that by (metis order_refl)
  moreover have "list_all within_reserve ((f_children f)[i := ?c])"
    using family_spend(4) c(1) by (auto simp: family_ok_def list_all_iff dest!: set_update_subset_insert [THEN subsetD])
  ultimately show ?case using family_spend(4) within_cap_fewer
    by (simp add: family_ok_def) blast
next
  case (family_stop i f)
  let ?c = "(f_children f ! i)\<lparr>ch_live := False\<rparr>"
  have c: "within_reserve (f_children f ! i)" using family_stop by (simp add: family_ok_def list_all_length)
  have "unat (h (child_held ?c)) \<le> unat (h (child_held (f_children f ! i)))" if "h \<in> sums" for h
    using child_held_live [OF c _ that] c that
    by (cases "ch_live (f_children f ! i)") (auto simp: child_held_def within_reserve_def word_le_nat_alt)
  then have "holds_of h ((f_children f)[i := ?c]) \<le> holds_of h (f_children f)" if "h \<in> sums" for h
    using holds_of_update [OF family_stop(1), of h ?c] that by blast
  moreover have "list_all within_reserve ((f_children f)[i := ?c])"
    using family_stop(2) by (auto simp: family_ok_def list_all_iff within_reserve_def
        dest!: set_update_subset_insert [THEN subsetD])
  ultimately show ?case using family_stop(2) within_cap_fewer
    by (simp add: family_ok_def) blast
qed (simp add: family_ok_def)

interpretation family: invariant_system family_ok family_step
  by unfold_locales (rule family_step_ok)

section \<open>What admission promises\<close>

text \<open>C20: From a parent within its caps and without children, through any admissions that passed the
  check of the creating append, spends inside the reservations, stops of children and covered
  rounds of the parent, the parent's own spend and what its children hold stay within its caps in
  turns, tool calls and cost.\<close>

theorem children_stay_within_cap:
  assumes "family_step\<^sup>*\<^sup>* \<lparr>f_cap = cap, f_own = own, f_children = []\<rparr> f" "within_cap cap own []"
  shows "unat (h_turns (f_own f)) + holds_of h_turns (f_children f) \<le> unat (c_turns cap)
    \<and> unat (h_tool_calls (f_own f)) + holds_of h_tool_calls (f_children f) \<le> unat (c_tool_calls cap)
    \<and> (\<forall>c. c_cost_minor cap = Some c \<longrightarrow>
         unat (h_cost_minor (f_own f)) + holds_of h_cost_minor (f_children f) \<le> unat c)"
proof -
  have "family_ok f" using family.steps_inv [OF assms(1)] assms(2) by (simp add: family_ok_def)
  moreover have "f_cap f = cap"
    using assms(1) by (induction rule: rtranclp_induct) (auto elim: family_step.cases)
  ultimately show ?thesis unfolding family_ok_def within_cap_iff by blast
qed

definition sample_cap :: caps where
  "sample_cap = \<lparr>c_turns = 200, c_tool_calls = 1000, c_cost_minor = Some 100, c_wall_ms = None\<rparr>"

definition sample_own :: held_amount where
  "sample_own = \<lparr>h_turns = 5, h_tool_calls = 9, h_cost_minor = 10, h_wall_ms = 0\<rparr>"

definition sample_ask :: request where
  "sample_ask = \<lparr>q_turns = 0, q_tool_calls = 0, q_cost_minor = 60, q_wall_ms = 0\<rparr>"

definition sample_grant :: grant where
  "sample_grant = \<lparr>g_turns = 20, g_tool_calls = 100, g_cost_minor = Some 60, g_wall_ms = None\<rparr>"

definition sample_family :: family where
  "sample_family = \<lparr>f_cap = sample_cap, f_own = sample_own,
     f_children = [\<lparr>ch_reserved = reserve sample_grant, ch_spent = held_default, ch_live = True\<rparr>]\<rparr>"

lemma sample_family_reached:
  "family_step\<^sup>*\<^sup>* \<lparr>f_cap = sample_cap, f_own = sample_own, f_children = []\<rparr> sample_family"
proof (rule r_into_rtranclp)
  let ?f = "\<lparr>f_cap = sample_cap, f_own = sample_own, f_children = []\<rparr>"
  have "recheck sample_cap sample_own [] sample_grant = Inr ()" by code_simp
  then show "family_step ?f sample_family"
    using family_admit [of ?f sample_grant] by (simp add: sample_family_def)
qed

theorem children_stay_within_cap_witness:
  "within_cap sample_cap sample_own [] \<and>
   unat (h_cost_minor (f_own sample_family)) + holds_of h_cost_minor (f_children sample_family) \<le> 100"
proof -
  have ok: "within_cap sample_cap sample_own []" by (simp add: within_cap_iff sample_cap_def sample_own_def)
  have "c_cost_minor sample_cap = Some 100" by (simp add: sample_cap_def)
  then show ?thesis using ok children_stay_within_cap [OF sample_family_reached ok] by fastforce
qed

lemma unat_slots: "unat (ucast (slots :: u32) + 1 :: u64) = Suc (unat slots)"
proof -
  have "unat slots < 2 ^ 32" using unat_less_exp [of slots] by simp
  then have "unat (ucast slots :: u64) = unat slots" "Suc (unat slots) < 2 ^ 64"
    by (simp_all add: unsigned_ucast_eq take_bit_nat_eq_self_iff)
  then show ?thesis by (simp add: unat_word_ariths)
qed

lemma fair_share_pos: "fair_share slots room \<noteq> 0"
  by (simp add: fair_share_def word_unat_eq_iff word_nat)

lemma clamp_counted_zero:
  "clamp_counted asked unstated slots left keep = 0 \<longleftrightarrow>
     unat left \<le> unat keep \<or> asked = 0 \<and> unstated = 0"
proof -
  have zero: "min a b = 0 \<longleftrightarrow> a = 0 \<or> b = 0" for a b :: u64
    unfolding word_unat_eq_iff unat_min by (auto simp: min_def)
  have "saturating_sub left keep = 0 \<longleftrightarrow> unat left \<le> unat keep" by (simp add: word_unat_eq_iff word_nat)
  then show ?thesis
    by (auto simp: clamp_counted_def Let_def zero fair_share_pos)
qed

lemma clamp_counted_bounds:
  assumes "clamp_counted asked unstated slots left keep \<noteq> 0" (is "?c \<noteq> 0")
  shows "1 \<le> unat ?c \<and> unat ?c + unat keep \<le> unat left \<and> (asked \<noteq> 0 \<longrightarrow> ?c \<le> asked)"
proof -
  have "unat ?c \<le> unat left - unat keep" unfolding clamp_counted_def Let_def by (simp add: word_nat)
  moreover have "1 \<le> unat ?c" using assms by (simp add: word_unat_eq_iff Suc_le_eq)
  moreover have "asked \<noteq> 0 \<longrightarrow> ?c \<le> asked" by (simp add: clamp_counted_def Let_def)
  ultimately show ?thesis by auto
qed

lemma reserve_nat: "unat PARENT_RESERVE_TURNS = 2" "unat PARENT_RESERVE_TOOL_CALLS = 4" "DEFAULT_CHILD_TURNS \<noteq> 0"
  by (simp_all add: PARENT_RESERVE_TURNS_def PARENT_RESERVE_TOOL_CALLS_def DEFAULT_CHILD_TURNS_def)

lemma clamp_optional_result:
  "case clamp_optional dim asked unstated rem of
     Inr g \<Rightarrow> (case rem of None \<Rightarrow> g = None
       | Some r \<Rightarrow> \<exists>c. g = Some c \<and> c \<noteq> 0 \<and> c \<le> r \<and> (asked \<noteq> 0 \<longrightarrow> c \<le> asked))
   | Inl e \<Rightarrow> i_dimension e = dim \<and>
       (\<exists>r. rem = Some r \<and> (if asked = 0 then unstated r = 0 \<or> r = 0 else r = 0))"
  by (auto simp: clamp_optional_def Let_def min_def split: option.split if_splits)

lemma clamp_optional_granted:
  assumes "clamp_optional dim asked unstated rem = Inr g"
  shows "case rem of
      None \<Rightarrow> or_stated g asked = (if asked = 0 then None else Some asked)
    | Some r \<Rightarrow> \<exists>c. or_stated g asked = Some c \<and> 1 \<le> unat c \<and> c \<le> r \<and> (asked \<noteq> 0 \<longrightarrow> c \<le> asked)"
proof -
  have "c \<noteq> 0 \<Longrightarrow> Suc 0 \<le> unat c" for c :: u64 by (simp add: word_unat_eq_iff Suc_le_eq)
  then show ?thesis
    using assms clamp_optional_result [where dim = dim and asked = asked and unstated = unstated and rem = rem]
    by (auto simp: or_stated_def word_neq_0_conv split: option.splits)
qed

lemma clamp_granted:
  assumes "clamp req default_calls rem slots = Inr g"
  shows "1 \<le> unat (g_turns g) \<and> unat (g_turns g) + 2 \<le> unat (r_turns rem)
       \<and> (q_turns req \<noteq> 0 \<longrightarrow> g_turns g \<le> q_turns req)"
    "1 \<le> unat (g_tool_calls g) \<and> unat (g_tool_calls g) + 4 \<le> unat (r_tool_calls rem)
       \<and> (q_tool_calls req \<noteq> 0 \<longrightarrow> g_tool_calls g \<le> q_tool_calls req)"
    "case r_cost_minor rem of
       None \<Rightarrow> g_cost_minor g = (if q_cost_minor req = 0 then None else Some (q_cost_minor req))
     | Some r \<Rightarrow> \<exists>c. g_cost_minor g = Some c \<and> 1 \<le> unat c \<and> c \<le> r
         \<and> (q_cost_minor req \<noteq> 0 \<longrightarrow> c \<le> q_cost_minor req)"
    "case r_wall_ms rem of
       None \<Rightarrow> g_wall_ms g = (if q_wall_ms req = 0 then None else Some (q_wall_ms req))
     | Some r \<Rightarrow> \<exists>w. g_wall_ms g = Some w \<and> 1 \<le> unat w \<and> w \<le> r
         \<and> (q_wall_ms req \<noteq> 0 \<longrightarrow> w \<le> q_wall_ms req)"
proof -
  let ?turns = "clamp_counted (q_turns req) DEFAULT_CHILD_TURNS slots (r_turns rem) PARENT_RESERVE_TURNS"
  let ?calls = "clamp_counted (q_tool_calls req) default_calls slots (r_tool_calls rem) PARENT_RESERVE_TOOL_CALLS"
  obtain c w where nz: "?turns \<noteq> 0" "?calls \<noteq> 0"
    and c: "clamp_optional ''cost'' (q_cost_minor req) (\<lambda>left. left div (ucast slots + 1)) (r_cost_minor rem) = Inr c"
    and w: "clamp_optional ''wall clock'' (q_wall_ms req) id (r_wall_ms rem) = Inr w"
    and g: "g = \<lparr>g_turns = ?turns, g_tool_calls = ?calls, g_cost_minor = or_stated c (q_cost_minor req),
       g_wall_ms = or_stated w (q_wall_ms req)\<rparr>"
    using assms by (auto simp: clamp_def Let_def rbind_def split: if_splits sum.splits)
  show "1 \<le> unat (g_turns g) \<and> unat (g_turns g) + 2 \<le> unat (r_turns rem)
      \<and> (q_turns req \<noteq> 0 \<longrightarrow> g_turns g \<le> q_turns req)"
    using clamp_counted_bounds [OF nz(1)] unfolding g reserve_nat by simp
  show "1 \<le> unat (g_tool_calls g) \<and> unat (g_tool_calls g) + 4 \<le> unat (r_tool_calls rem)
      \<and> (q_tool_calls req \<noteq> 0 \<longrightarrow> g_tool_calls g \<le> q_tool_calls req)"
    using clamp_counted_bounds [OF nz(2)] unfolding g reserve_nat by simp
  show "case r_cost_minor rem of
       None \<Rightarrow> g_cost_minor g = (if q_cost_minor req = 0 then None else Some (q_cost_minor req))
     | Some r \<Rightarrow> \<exists>c. g_cost_minor g = Some c \<and> 1 \<le> unat c \<and> c \<le> r
         \<and> (q_cost_minor req \<noteq> 0 \<longrightarrow> c \<le> q_cost_minor req)"
    using clamp_optional_granted [OF c] unfolding g grant.select_convs .
  show "case r_wall_ms rem of
       None \<Rightarrow> g_wall_ms g = (if q_wall_ms req = 0 then None else Some (q_wall_ms req))
     | Some r \<Rightarrow> \<exists>w. g_wall_ms g = Some w \<and> 1 \<le> unat w \<and> w \<le> r
         \<and> (q_wall_ms req \<noteq> 0 \<longrightarrow> w \<le> q_wall_ms req)"
    using clamp_optional_granted [OF w] unfolding g grant.select_convs .
qed

text \<open>The amounts in the natural numbers. A counted amount that is not stated is the default, held to an
  equal part of the room for the child and every free slot, and at least 1; a cost that is not
  stated is an equal part of what is left; a time that is not stated is all that is left.\<close>

definition counted_amount :: "nat \<Rightarrow> nat \<Rightarrow> nat \<Rightarrow> nat \<Rightarrow> nat" where
  "counted_amount asked unstated slots room =
     min room (if asked = 0 then min unstated (max 1 (room div (slots + 1))) else asked)"

definition cost_amount :: "nat \<Rightarrow> nat \<Rightarrow> nat \<Rightarrow> nat" where
  "cost_amount asked slots left = (if asked = 0 then left div (slots + 1) else min asked left)"

definition wall_amount :: "nat \<Rightarrow> nat \<Rightarrow> nat" where
  "wall_amount asked left = (if asked = 0 then left else min asked left)"

lemma unat_eq_0_word: "unat (a :: u64) = 0 \<longleftrightarrow> a = 0"
  by (simp add: unat_eq_0)

lemma unat_clamp_counted:
  "unat (clamp_counted asked unstated slots left keep) =
     counted_amount (unat asked) (unat unstated) (unat slots) (unat left - unat keep)"
  by (simp add: clamp_counted_def counted_amount_def fair_share_def Let_def word_nat unat_div unat_slots
      unat_eq_0_word min.commute max.commute)

lemma unat_cost_grant:
  "unat (min (if asked = 0 then left div (ucast (slots :: u32) + 1) else asked) left) =
     cost_amount (unat (asked :: u64)) (unat slots) (unat left)"
  by (simp add: cost_amount_def word_nat unat_div unat_slots unat_eq_0_word)

lemma unat_wall_grant:
  "unat (min (if asked = 0 then id left else asked) left) = wall_amount (unat (asked :: u64)) (unat left)"
  by (simp add: wall_amount_def word_nat unat_eq_0_word)

definition optional_exact :: "string \<Rightarrow> u64 \<Rightarrow> (nat \<Rightarrow> nat) \<Rightarrow> u64 option \<Rightarrow> insufficient + u64 option \<Rightarrow> bool" where
  "optional_exact dim asked amount rem r \<longleftrightarrow> (case r of
     Inr g \<Rightarrow> map_option unat (or_stated g asked) = (case rem of
         None \<Rightarrow> if asked = 0 then None else Some (unat asked)
       | Some left \<Rightarrow> Some (amount (unat left)))
       \<and> (\<forall>left. rem = Some left \<longrightarrow> 0 < amount (unat left))
   | Inl e \<Rightarrow> \<exists>left. rem = Some left \<and> amount (unat left) = 0 \<and> e = \<lparr>i_dimension = dim, i_remaining = left\<rparr>)"

lemma clamp_optional_exact:
  assumes "\<And>left. unat (min (if asked = 0 then unstated left else asked) left) = amount (unat left)"
  shows "optional_exact dim asked amount rem (clamp_optional dim asked unstated rem)"
proof (cases rem)
  case None
  then show ?thesis
    by (simp add: optional_exact_def clamp_optional_def or_stated_def word_neq_0_conv)
next
  case (Some left)
  let ?g = "min (if asked = 0 then unstated left else asked) left"
  have "?g = 0 \<longleftrightarrow> amount (unat left) = 0" using assms [of left] unat_eq_0_word [of ?g] by simp
  then show ?thesis using assms [of left]
    by (simp add: Some optional_exact_def clamp_optional_def or_stated_def Let_def)
qed

text \<open>C21: What \<open>clamp\<close> returns, exactly. Above the two turns and four calls the parent keeps, a stated
  amount is granted up to the room and an unstated one is the default held to an equal part of
  the room; a capped cost is what is stated up to what is left, or an equal part of it; a capped
  wall clock is what is stated up to what is left, or all of it; an uncapped cost or wall clock is
  what the spawn stated. The first dimension in which this amount is 0 is the one a refusal
  names, with what was left; when there is none, the grant is made. No step of it wraps around.\<close>

theorem clamp_result:
  "let turns = counted_amount (unat (q_turns req)) 20 (unat slots) (unat (r_turns rem) - 2);
       calls = counted_amount (unat (q_tool_calls req)) (unat default_calls) (unat slots) (unat (r_tool_calls rem) - 4);
       cost = cost_amount (unat (q_cost_minor req)) (unat slots);
       wall = wall_amount (unat (q_wall_ms req))
   in case clamp req default_calls rem slots of
     Inr g \<Rightarrow> 0 < turns \<and> unat (g_turns g) = turns
       \<and> 0 < calls \<and> unat (g_tool_calls g) = calls
       \<and> map_option unat (g_cost_minor g) = (case r_cost_minor rem of
            None \<Rightarrow> if q_cost_minor req = 0 then None else Some (unat (q_cost_minor req))
          | Some r \<Rightarrow> Some (cost (unat r)))
       \<and> (\<forall>r. r_cost_minor rem = Some r \<longrightarrow> 0 < cost (unat r))
       \<and> map_option unat (g_wall_ms g) = (case r_wall_ms rem of
            None \<Rightarrow> if q_wall_ms req = 0 then None else Some (unat (q_wall_ms req))
          | Some r \<Rightarrow> Some (wall (unat r)))
       \<and> (\<forall>r. r_wall_ms rem = Some r \<longrightarrow> 0 < wall (unat r))
   | Inl e \<Rightarrow>
         turns = 0 \<and> e = \<lparr>i_dimension = ''turns'', i_remaining = r_turns rem\<rparr>
       \<or> 0 < turns \<and> calls = 0 \<and> e = \<lparr>i_dimension = ''tool calls'', i_remaining = r_tool_calls rem\<rparr>
       \<or> 0 < turns \<and> 0 < calls \<and> (\<exists>r. r_cost_minor rem = Some r \<and> cost (unat r) = 0
            \<and> e = \<lparr>i_dimension = ''cost'', i_remaining = r\<rparr>)
       \<or> 0 < turns \<and> 0 < calls \<and> (\<forall>r. r_cost_minor rem = Some r \<longrightarrow> 0 < cost (unat r))
           \<and> (\<exists>r. r_wall_ms rem = Some r \<and> wall (unat r) = 0
            \<and> e = \<lparr>i_dimension = ''wall clock'', i_remaining = r\<rparr>)"
proof -
  let ?turns = "clamp_counted (q_turns req) DEFAULT_CHILD_TURNS slots (r_turns rem) PARENT_RESERVE_TURNS"
  let ?calls = "clamp_counted (q_tool_calls req) default_calls slots (r_tool_calls rem) PARENT_RESERVE_TOOL_CALLS"
  let ?c = "clamp_optional ''cost'' (q_cost_minor req) (\<lambda>left. left div (ucast slots + 1)) (r_cost_minor rem)"
  let ?w = "clamp_optional ''wall clock'' (q_wall_ms req) id (r_wall_ms rem)"
  have turns: "counted_amount (unat (q_turns req)) 20 (unat slots) (unat (r_turns rem) - 2) = unat ?turns"
    by (simp add: unat_clamp_counted reserve_nat) (simp add: DEFAULT_CHILD_TURNS_def)
  have calls: "counted_amount (unat (q_tool_calls req)) (unat default_calls) (unat slots) (unat (r_tool_calls rem) - 4)
      = unat ?calls"
    by (simp add: unat_clamp_counted reserve_nat)
  have c: "optional_exact ''cost'' (q_cost_minor req) (cost_amount (unat (q_cost_minor req)) (unat slots)) (r_cost_minor rem) ?c"
    by (rule clamp_optional_exact) (rule unat_cost_grant)
  have w: "optional_exact ''wall clock'' (q_wall_ms req) (wall_amount (unat (q_wall_ms req))) (r_wall_ms rem) ?w"
    by (rule clamp_optional_exact) (rule unat_wall_grant)
  have pos: "0 < unat a \<longleftrightarrow> a \<noteq> 0" "unat a = 0 \<longleftrightarrow> a = 0" for a :: u64
    using unat_eq_0_word [of a] by linarith+
  have cl: "clamp req default_calls rem slots =
      (if ?turns = 0 then Inl \<lparr>i_dimension = ''turns'', i_remaining = r_turns rem\<rparr>
       else if ?calls = 0 then Inl \<lparr>i_dimension = ''tool calls'', i_remaining = r_tool_calls rem\<rparr>
       else rbind ?c (\<lambda>c. rbind ?w (\<lambda>w. Inr \<lparr>g_turns = ?turns, g_tool_calls = ?calls,
          g_cost_minor = or_stated c (q_cost_minor req), g_wall_ms = or_stated w (q_wall_ms req)\<rparr>)))"
    by (simp add: clamp_def Let_def)
  show ?thesis
    unfolding Let_def turns calls pos cl
    using c w by (cases ?c; cases ?w) (auto simp: optional_exact_def)
qed

theorem clamp_result_witness:
  "\<exists>g. clamp sample_ask 100 (remaining_for_children sample_cap sample_own held_default) 15 = Inr g
     \<and> unat (g_turns g) = 12 \<and> unat (g_tool_calls g) = 61 \<and> map_option unat (g_cost_minor g) = Some 60"
proof -
  let ?rem = "remaining_for_children sample_cap sample_own held_default"
  have r: "r_turns ?rem = 195" "r_tool_calls ?rem = 991" "r_cost_minor ?rem = Some 86" by code_simp+
  have q: "q_turns sample_ask = 0" "q_tool_calls sample_ask = 0" "q_cost_minor sample_ask = 60"
    by (simp_all add: sample_ask_def)
  have ok: "\<not> isl (clamp sample_ask 100 ?rem 15)" by code_simp
  then show ?thesis
    using clamp_result [where req = sample_ask and default_calls = 100 and rem = ?rem and slots = 15]
    by (cases "clamp sample_ask 100 ?rem 15")
      (simp_all add: r q Let_def counted_amount_def cost_amount_def)
qed

text \<open>C22: A clamp is not refused by the check of the creating append when the children are still
  the ones it was computed from: what a running child spent past its reservation only makes the
  check wider.\<close>

theorem clamp_passes_recheck:
  assumes "clamp_for cap own max_children default_calls asked holds = Inr (g, notes)"
  shows "recheck cap own holds g = Inr ()"
proof -
  let ?reset = "map (\<lambda>h. if ch_live h then h\<lparr>ch_spent := held_default\<rparr> else h) holds"
  let ?rem = "remaining_for_children cap own (committed holds)"
  let ?rem' = "remaining_for_children cap own (committed ?reset)"
  have fewer: "holds_of h ?reset \<le> holds_of h holds" if "h \<in> sums" for h
    using that by (induction holds) (auto simp: child_held_def max_consumable_def held_default_def word_nat)
  have le: "unat (h (committed ?reset)) \<le> unat (h (committed holds))" if "h \<in> sums" for h
    unfolding unat_committed [OF that] by (rule min.mono [OF fewer [OF that] order_refl])
  have clamp: "clamp asked default_calls ?rem (of_nat (unat max_children - length (filter ch_live holds))) = Inr g"
    using assms by (auto simp: clamp_for_def Let_def rbind_def map_err_def split: sum.splits)
  have "g_turns g \<le> r_turns ?rem'"
    using clamp_granted(1) [OF clamp] le [of h_turns] unfolding word_le_nat_alt unat_remaining by auto
  moreover have "g_tool_calls g \<le> r_tool_calls ?rem'"
    using clamp_granted(2) [OF clamp] le [of h_tool_calls] unfolding word_le_nat_alt unat_remaining by auto
  moreover have "c \<le> r" if c: "g_cost_minor g = Some c" and r: "r_cost_minor ?rem' = Some r" for c r
  proof -
    obtain m where m: "c_cost_minor cap = Some m" using unat_remaining(3) [OF r] by blast
    let ?keep = "saturating_mul (h_cost_minor own div max (h_turns own) 1) PARENT_RESERVE_ROUNDS"
    have "c \<le> saturating_sub (saturating_sub (saturating_sub m (h_cost_minor own)) (h_cost_minor (committed holds))) ?keep"
      using clamp_granted(3) [OF clamp] c m by (auto simp: remaining_for_children_def remaining_def Let_def)
    then show ?thesis using r m le [of h_cost_minor]
      by (auto simp: remaining_for_children_def remaining_def Let_def word_le_nat_alt word_nat)
  qed
  ultimately show ?thesis
    by (auto simp: recheck_def Let_def not_less split: option.split)
qed

theorem clamp_passes_recheck_witness:
  "\<exists>notes. clamp_for sample_cap sample_own 3 100 sample_ask [] = Inr (sample_grant, notes)
     \<and> recheck sample_cap sample_own [] sample_grant = Inr ()"
proof -
  have "clamp sample_ask 100 (remaining_for_children sample_cap sample_own (committed [])) 3 = Inr sample_grant"
    by code_simp
  then have "\<exists>notes. clamp_for sample_cap sample_own 3 100 sample_ask [] = Inr (sample_grant, notes)"
    by (simp add: clamp_for_def rbind_def map_err_def)
  then show ?thesis using clamp_passes_recheck by blast
qed

text \<open>A child that runs again holds its first reservation in full, whatever \<open>regrant\<close> gave it: here
  the sibling admitted meanwhile and the resumed child together hold 120 of a cost cap of 100.\<close>

definition idle_child :: child_hold where
  "idle_child = \<lparr>ch_reserved = \<lparr>h_turns = 20, h_tool_calls = 50, h_cost_minor = 60, h_wall_ms = 0\<rparr>,
     ch_spent = \<lparr>h_turns = 4, h_tool_calls = 9, h_cost_minor = 10, h_wall_ms = 0\<rparr>, ch_live = False\<rparr>"

lemmas budget_eval = sample_family_def sample_grant_def idle_child_def reserve_def committed_def
  committed_add_def child_held_def max_consumable_def held_default_def saturating_add_def
  saturating_sub_def saturating_mul_def regrant_def remaining_for_children_def remaining_def
  sample_cap_def sample_own_def Let_def max_def min_def PARENT_RESERVE_TURNS_def
  PARENT_RESERVE_TOOL_CALLS_def PARENT_RESERVE_ROUNDS_def

lemma resumed_child_overholds:
  "recheck sample_cap sample_own [idle_child] sample_grant = Inr ()"
  "c_cost_minor (regrant \<lparr>c_turns = 20, c_tool_calls = 50, c_cost_minor = Some 60, c_wall_ms = None\<rparr>
     (ch_spent idle_child) (remaining_for_children sample_cap sample_own
       (committed (f_children sample_family)))) = Some 36"
  "h_cost_minor (committed (f_children sample_family @ [idle_child\<lparr>ch_live := True\<rparr>])) = 120"
proof -
  show "recheck sample_cap sample_own [idle_child] sample_grant = Inr ()" by code_simp
  show "c_cost_minor (regrant \<lparr>c_turns = 20, c_tool_calls = 50, c_cost_minor = Some 60, c_wall_ms = None\<rparr>
     (ch_spent idle_child) (remaining_for_children sample_cap sample_own
       (committed (f_children sample_family)))) = Some 36"
    by (simp add: budget_eval) (simp add: word_le_nat_alt)
  show "h_cost_minor (committed (f_children sample_family @ [idle_child\<lparr>ch_live := True\<rparr>])) = 120"
    by (simp add: budget_eval)
qed

end
