(* ===== verification/Routing.thy ===== *)
theory Routing
  imports Rust_Str "HOL-Library.Code_Target_Nat"
begin

text \<open>
  \<open>crates/domain/src/routing.rs\<close>: money, budgets, provenance and the conditional execution plan with
  its validation; the decode of a legacy plan and the direct plan. JSON text and SHA-256 are the
  two fields of \<open>plan_codec\<close>. \<open>plan_valid\<close> is the declarative reading of validation: which plans
  pass is stated with sums in the natural numbers and with paths in the predecessor graph.
\<close>

section \<open>Errors and money\<close>

definition ROUTING_SCHEMA_VERSION :: u32 where "ROUTING_SCHEMA_VERSION = 2"
definition MIN_DECODABLE_VERSION :: u32 where "MIN_DECODABLE_VERSION = 1"

datatype invalid =
    IncompatibleVersion string u32 u32
  | Missing string
  | OutOfRange string string string
  | Duplicate string string
  | UnresolvedReference string string
  | ForeignTenant string uuid uuid
  | StaleGeneration string u64 u64

record money =
  m_minor_units :: u64
  m_currency :: string
  m_scale :: u8

definition money_zero :: "string \<Rightarrow> u8 \<Rightarrow> money" where
  "money_zero currency scale = \<lparr>m_minor_units = 0, m_currency = currency, m_scale = scale\<rparr>"

definition is_ascii_uppercase :: "char \<Rightarrow> bool" where
  "is_ascii_uppercase c = (let n = of_char c :: nat in 65 \<le> n \<and> n \<le> 90)"

abbreviation show_word :: "'a::len word \<Rightarrow> string" where
  "show_word w \<equiv> show_nat (unat w)"

definition money_validate :: "money \<Rightarrow> string \<Rightarrow> invalid + unit" where
  "money_validate m field = checks [
     ensure (m_currency m \<noteq> []) (Missing (field @ ''.currency'')),
     ensure (list_all is_ascii_uppercase (m_currency m))
       (OutOfRange (field @ ''.currency'') ''uppercase ASCII letters'' (m_currency m)),
     ensure (m_scale m \<le> 4) (OutOfRange (field @ ''.scale'') ''at most 4'' (show_word (m_scale m)))]"

definition money_add :: "money \<Rightarrow> money \<Rightarrow> string \<Rightarrow> invalid + money" where
  "money_add a b field =
     (if m_currency a \<noteq> m_currency b \<or> m_scale a \<noteq> m_scale b
      then Inl (OutOfRange field (m_currency a @ '' at scale '' @ show_word (m_scale a))
        (m_currency b @ '' at scale '' @ show_word (m_scale b)))
      else (case checked_add (m_minor_units a) (m_minor_units b) of
         None \<Rightarrow> Inl (OutOfRange field ''a sum below u64::MAX''
           (show_word (m_minor_units a) @ '' + '' @ show_word (m_minor_units b)))
       | Some n \<Rightarrow> Inr \<lparr>m_minor_units = n, m_currency = m_currency a, m_scale = m_scale a\<rparr>))"

section \<open>Provenance, budgets, slots\<close>

record legacy_decode =
  ld_source_shape :: string
  ld_template_label :: string
  ld_source_version :: u32
  ld_unknown_fields :: "string list"
  ld_note :: string

record provenance =
  pv_policy_version :: string
  pv_registry_generation :: string
  pv_profiler_version :: string
  pv_statistics_version :: string
  pv_compiler_version :: string
  pv_gate_version :: string
  pv_risk_version :: string
  pv_legacy_decode :: "legacy_decode option"
  pv_skill_set :: string

definition provenance_validate :: "provenance \<Rightarrow> string \<Rightarrow> invalid + unit" where
  "provenance_validate p field = checks (map (\<lambda>(name, v). ensure (trim v \<noteq> []) (Missing (field @ ''.'' @ name)))
     [(''policy_version'', pv_policy_version p), (''registry_generation'', pv_registry_generation p),
      (''profiler_version'', pv_profiler_version p), (''statistics_version'', pv_statistics_version p),
      (''compiler_version'', pv_compiler_version p), (''gate_version'', pv_gate_version p),
      (''risk_version'', pv_risk_version p)])"

record slot_budget =
  b_timeout_ms :: u64
  b_max_output_tokens :: u32
  b_max_retries :: u32
  b_reserved :: money

definition budget_validate :: "slot_budget \<Rightarrow> string \<Rightarrow> invalid + unit" where
  "budget_validate b field = checks [
     ensure (b_timeout_ms b \<noteq> 0) (OutOfRange (field @ ''.timeout_ms'') ''a positive timeout'' ''0''),
     ensure (b_max_output_tokens b \<noteq> 0) (OutOfRange (field @ ''.max_output_tokens'') ''a positive ceiling'' ''0''),
     money_validate (b_reserved b) (field @ ''.reserved'')]"

datatype trigger = Initial | QualityRejected | ReviewRequired | LegFailed

fun trigger_debug :: "trigger \<Rightarrow> string" where
  "trigger_debug Initial = ''Initial''"
| "trigger_debug QualityRejected = ''QualityRejected''"
| "trigger_debug ReviewRequired = ''ReviewRequired''"
| "trigger_debug LegFailed = ''LegFailed''"

record slot =
  sl_slot_id :: string
  sl_predecessor :: "string option"
  sl_trigger :: trigger
  sl_max_activations :: u32
  sl_endpoint :: string
  sl_model :: string
  sl_role :: string
  sl_budget :: slot_budget

record plan =
  p_schema_version :: u32
  p_plan_id :: string
  p_tenant_id :: uuid
  p_session_id :: uuid
  p_task_id :: uuid
  p_run_id :: uuid
  p_routing_epoch :: u64
  p_lease_generation :: u64
  p_created_at_ms :: int
  p_provenance :: provenance
  p_input_digest :: string
  p_slots :: "slot list"
  p_max_total_attempts :: u32
  p_max_revisions :: u32
  p_verification_reserve :: money
  p_total_budget :: money
  p_content_digest :: string

text \<open>\<open>sha2\<close> with \<open>hex::encode\<close>, \<open>serde_json::to_string\<close> of a plan, and the text of an identifier.\<close>

record plan_codec =
  pc_sha256_hex :: "string \<Rightarrow> string"
  pc_json :: "plan \<Rightarrow> string"
  pc_id :: "uuid \<Rightarrow> string"

definition digest :: "plan_codec \<Rightarrow> string list \<Rightarrow> string" where
  "digest c parts = pc_sha256_hex c (concat (map (\<lambda>p. p @ [char_of (0 :: nat)]) parts))"

definition plan_digest :: "plan_codec \<Rightarrow> plan \<Rightarrow> string" where
  "plan_digest c p = digest c [pc_json c (p\<lparr>p_content_digest := []\<rparr>)]"

definition sealed :: "plan_codec \<Rightarrow> plan \<Rightarrow> plan" where
  "sealed c p = p\<lparr>p_content_digest := plan_digest c p\<rparr>"

section \<open>Validation\<close>

text \<open>The pass over the slots: the ids seen, the sum reserved, the number of initial slots.\<close>

definition slot_field :: "slot \<Rightarrow> string \<Rightarrow> string" where
  "slot_field s f = ''slots['' @ sl_slot_id s @ '']'' @ f"

definition check_slot :: "string list \<Rightarrow> slot \<Rightarrow> invalid + unit" where
  "check_slot ids s = checks [
     ensure (trim (sl_slot_id s) \<noteq> []) (Missing ''slots[].slot_id''),
     ensure (sl_slot_id s \<notin> set ids) (Duplicate ''slots[].slot_id'' (sl_slot_id s)),
     ensure (trim (sl_endpoint s) \<noteq> [] \<and> trim (sl_model s) \<noteq> []) (Missing (slot_field s ''.endpoint/model'')),
     ensure (sl_max_activations s \<noteq> 0)
       (OutOfRange (slot_field s ''.max_activations'') ''at least one activation'' ''0''),
     budget_validate (sl_budget s) (slot_field s ''.budget'')]"

definition check_trigger :: "slot \<Rightarrow> invalid + unit" where
  "check_trigger s = (if sl_trigger s = Initial
     then ensure (sl_predecessor s = None)
       (UnresolvedReference (slot_field s ''.predecessor'') ''an initial slot has no predecessor'')
     else ensure (sl_predecessor s \<noteq> None) (Missing (slot_field s ''.predecessor'')))"

fun check_slots :: "string list \<Rightarrow> money \<Rightarrow> nat \<Rightarrow> slot list \<Rightarrow> invalid + money \<times> nat" where
  "check_slots ids reserved initial [] = Inr (reserved, initial)"
| "check_slots ids reserved initial (s # ss) =
     rbind (check_slot ids s) (\<lambda>_.
     rbind (money_add reserved (b_reserved (sl_budget s)) ''slots[].budget.reserved'') (\<lambda>reserved'.
     rbind (check_trigger s) (\<lambda>_.
       check_slots (sl_slot_id s # ids) reserved' (if sl_trigger s = Initial then Suc initial else initial) ss)))"

text \<open>The map by id (a later slot replaces an earlier one), and the walk to the initial slot.\<close>

definition by_id :: "slot list \<Rightarrow> string \<Rightarrow> slot option" where
  "by_id slots p = find (\<lambda>s. sl_slot_id s = p) (rev slots)"

lemma by_id_Some: "by_id slots p = Some c \<Longrightarrow> c \<in> set slots \<and> sl_slot_id c = p"
  by (auto simp: by_id_def find_Some_iff) (metis nth_mem length_rev set_rev)

function walk_up :: "slot list \<Rightarrow> slot \<Rightarrow> string list \<Rightarrow> slot \<Rightarrow> invalid + unit" where
  "walk_up slots s seen cur = (case sl_predecessor cur of
     None \<Rightarrow> Inr ()
   | Some p \<Rightarrow>
       if sl_slot_id cur \<in> set seen
       then Inl (UnresolvedReference (slot_field s ''.predecessor'') (''cycle through '' @ p))
       else (case by_id slots p of
          None \<Rightarrow> Inl (UnresolvedReference (slot_field s ''.predecessor'') p)
        | Some c \<Rightarrow>
            if sl_slot_id c \<in> set (sl_slot_id cur # seen)
            then Inl (UnresolvedReference (slot_field s ''.predecessor'') (''cycle through '' @ sl_slot_id c))
            else walk_up slots s (sl_slot_id cur # seen) c))"
  by pat_completeness auto

text \<open>Each round adds an id to those seen, and every slot after the first is one of the plan.\<close>

termination
proof (relation "measure (\<lambda>(slots, s, seen, cur).
    card (insert (sl_slot_id cur) (sl_slot_id ` set slots) - set seen))")
  fix slots :: "slot list" and s cur c :: slot and seen :: "string list" and p :: string
  assume cur: "sl_slot_id cur \<notin> set seen" and c: "by_id slots p = Some c"
  let ?all = "insert (sl_slot_id cur) (sl_slot_id ` set slots)"
  have "insert (sl_slot_id c) (sl_slot_id ` set slots) - set (sl_slot_id cur # seen) \<subset> ?all - set seen"
    using cur by_id_Some [OF c] by auto
  then show "((slots, s, sl_slot_id cur # seen, c), slots, s, seen, cur)
    \<in> measure (\<lambda>(slots, s, seen, cur). card (insert (sl_slot_id cur) (sl_slot_id ` set slots) - set seen))"
    by (simp add: psubset_card_mono)
qed simp

declare walk_up.simps [simp del]

definition plan_validate :: "plan_codec \<Rightarrow> plan \<Rightarrow> uuid \<Rightarrow> u64 \<Rightarrow> invalid + unit" where
  "plan_validate c p tenant current_epoch =
     (let total = p_total_budget p; reserve = p_verification_reserve p in
      rbind (checks [
        ensure (p_schema_version p \<le> ROUTING_SCHEMA_VERSION \<and> MIN_DECODABLE_VERSION \<le> p_schema_version p)
          (IncompatibleVersion ''schema_version'' (p_schema_version p) ROUTING_SCHEMA_VERSION),
        ensure (trim (p_plan_id p) \<noteq> []) (Missing ''plan_id''),
        ensure (length (p_input_digest p) = 64)
          (OutOfRange ''input_digest'' ''a 64-character sha256'' (show_nat (length (p_input_digest p)))),
        ensure (p_tenant_id p = tenant) (ForeignTenant ''tenant_id'' (p_tenant_id p) tenant),
        ensure (current_epoch \<le> p_routing_epoch p)
          (StaleGeneration ''routing_epoch'' (p_routing_epoch p) current_epoch),
        provenance_validate (p_provenance p) ''provenance'',
        money_validate total ''total_budget'',
        money_validate reserve ''verification_reserve'',
        ensure (m_currency reserve = m_currency total \<and> m_minor_units reserve \<le> m_minor_units total)
          (OutOfRange ''verification_reserve''
            (''at most the total budget ('' @ show_word (m_minor_units total) @ '' '' @ m_currency total @ '')'')
            (show_word (m_minor_units reserve) @ '' '' @ m_currency reserve)),
        ensure (p_max_total_attempts p \<noteq> 0) (OutOfRange ''max_total_attempts'' ''at least one attempt'' ''0''),
        ensure (p_slots p \<noteq> []) (Missing ''slots'')]) (\<lambda>_.
      rbind (check_slots [] (money_zero (m_currency total) (m_scale total)) 0 (p_slots p)) (\<lambda>(reserved, initial).
      rbind (ensure (initial = 1)
        (OutOfRange ''slots[].trigger'' ''exactly one initial slot'' (show_nat initial))) (\<lambda>_.
      rbind (money_add reserved reserve ''reserved+verification'') (\<lambda>sum.
      checks (ensure (m_minor_units sum \<le> m_minor_units total)
          (OutOfRange ''total_budget'' (''at least the reserved '' @ show_word (m_minor_units sum))
            (show_word (m_minor_units total)))
        # map (\<lambda>s. walk_up (p_slots p) s [] s) (p_slots p)
        @ [ensure (p_content_digest p = [] \<or> p_content_digest p = plan_digest c p)
            (OutOfRange ''content_digest'' (plan_digest c p) (p_content_digest p))]))))))"

definition initial_slot :: "plan \<Rightarrow> slot option" where
  "initial_slot p = find (\<lambda>s. sl_trigger s = Initial) (p_slots p)"

section \<open>Legacy and direct plans\<close>

record legacy_plan =
  lp_version :: u32
  lp_template :: string
  lp_endpoint :: string
  lp_model :: string
  lp_timeout_ms :: "u64 option"

record plan_scope =
  ps_tenant_id :: uuid
  ps_session_id :: uuid
  ps_task_id :: uuid
  ps_run_id :: uuid
  ps_created_at_ms :: int

definition LEGACY_NOTE :: string where
  "LEGACY_NOTE = ''Decoded from a legacy plan shape for provenance only. A template label authorizes no slot and grants no capability; absent statistics, budgets and confidence are recorded unknown, never invented (docs/38).''"

definition decode_legacy :: "plan_codec \<Rightarrow> legacy_plan \<Rightarrow> string \<Rightarrow> plan_scope \<Rightarrow> provenance \<Rightarrow> money \<Rightarrow> plan" where
  "decode_legacy c legacy plan_id scope prov budget = sealed c \<lparr>
     p_schema_version = ROUTING_SCHEMA_VERSION, p_plan_id = plan_id,
     p_tenant_id = ps_tenant_id scope, p_session_id = ps_session_id scope, p_task_id = ps_task_id scope,
     p_run_id = ps_run_id scope, p_routing_epoch = 0, p_lease_generation = 0,
     p_created_at_ms = ps_created_at_ms scope,
     p_provenance = prov\<lparr>pv_legacy_decode := Some \<lparr>ld_source_shape = ''ExecutionPlan'',
       ld_template_label = lp_template legacy, ld_source_version = lp_version legacy,
       ld_unknown_fields = [''quality_lcb'', ''outcome_statistics'', ''reserved_budget'', ''continuation_slots''],
       ld_note = LEGACY_NOTE\<rparr>\<rparr>,
     p_input_digest = digest c [lp_template legacy, lp_endpoint legacy, lp_model legacy],
     p_slots = [\<lparr>sl_slot_id = ''initial'', sl_predecessor = None, sl_trigger = Initial, sl_max_activations = 1,
       sl_endpoint = lp_endpoint legacy, sl_model = lp_model legacy, sl_role = ''solver'',
       sl_budget = \<lparr>b_timeout_ms = max (case lp_timeout_ms legacy of None \<Rightarrow> 120000 | Some t \<Rightarrow> t) 1,
         b_max_output_tokens = 4096, b_max_retries = 0,
         b_reserved = money_zero (m_currency budget) (m_scale budget)\<rparr>\<rparr>],
     p_max_total_attempts = 1, p_max_revisions = 0,
     p_verification_reserve = money_zero (m_currency budget) (m_scale budget),
     p_total_budget = budget, p_content_digest = []\<rparr>"

definition DIRECT_NOT_CONSULTED :: string where "DIRECT_NOT_CONSULTED = ''none''"
definition DIRECT_COMPILER_VERSION :: string where "DIRECT_COMPILER_VERSION = ''direct-baseline-1''"
definition DIRECT_SLOT :: string where "DIRECT_SLOT = ''initial''"

definition direct_plan_id :: "plan_codec \<Rightarrow> uuid \<Rightarrow> string" where
  "direct_plan_id c run_id = ''direct:'' @ pc_id c run_id"

record direct_path =
  dp_endpoint :: string
  dp_model :: string
  dp_timeout_ms :: u64
  dp_max_output_tokens :: u32
  dp_max_retries :: u32
  dp_max_turns :: u32

definition direct_plan ::
  "plan_codec \<Rightarrow> uuid \<Rightarrow> uuid \<Rightarrow> uuid \<Rightarrow> uuid \<Rightarrow> u64 \<Rightarrow> int \<Rightarrow> direct_path \<Rightarrow> plan" where
  "direct_plan c tenant_id session_id task_id run_id lease_generation created_at_ms path = sealed c \<lparr>
     p_schema_version = ROUTING_SCHEMA_VERSION, p_plan_id = direct_plan_id c run_id,
     p_tenant_id = tenant_id, p_session_id = session_id, p_task_id = task_id, p_run_id = run_id,
     p_routing_epoch = 0, p_lease_generation = lease_generation, p_created_at_ms = created_at_ms,
     p_provenance = \<lparr>pv_policy_version = DIRECT_NOT_CONSULTED, pv_registry_generation = DIRECT_NOT_CONSULTED,
       pv_profiler_version = DIRECT_NOT_CONSULTED, pv_statistics_version = DIRECT_NOT_CONSULTED,
       pv_compiler_version = DIRECT_COMPILER_VERSION, pv_gate_version = DIRECT_NOT_CONSULTED,
       pv_risk_version = DIRECT_NOT_CONSULTED, pv_legacy_decode = None, pv_skill_set = []\<rparr>,
     p_input_digest = digest c [dp_endpoint path, dp_model path, show_word (dp_timeout_ms path),
       show_word (dp_max_output_tokens path), show_word (dp_max_retries path), show_word (dp_max_turns path)],
     p_slots = [\<lparr>sl_slot_id = DIRECT_SLOT, sl_predecessor = None, sl_trigger = Initial, sl_max_activations = 1,
       sl_endpoint = dp_endpoint path, sl_model = dp_model path, sl_role = ''solver'',
       sl_budget = \<lparr>b_timeout_ms = dp_timeout_ms path, b_max_output_tokens = dp_max_output_tokens path,
         b_max_retries = dp_max_retries path, b_reserved = money_zero ''USD'' 2\<rparr>\<rparr>],
     p_max_total_attempts = max (dp_max_turns path) 1, p_max_revisions = 0,
     p_verification_reserve = money_zero ''USD'' 2, p_total_budget = money_zero ''USD'' 2,
     p_content_digest = []\<rparr>"

section \<open>Which plans are valid\<close>

definition money_ok :: "money \<Rightarrow> bool" where
  "money_ok m \<longleftrightarrow> m_currency m \<noteq> [] \<and> list_all is_ascii_uppercase (m_currency m) \<and> m_scale m \<le> 4"

definition same_unit :: "money \<Rightarrow> money \<Rightarrow> bool" where
  "same_unit a b \<longleftrightarrow> m_currency a = m_currency b \<and> m_scale a = m_scale b"

definition slot_ok :: "money \<Rightarrow> slot \<Rightarrow> bool" where
  "slot_ok unit s \<longleftrightarrow> trim (sl_slot_id s) \<noteq> [] \<and> trim (sl_endpoint s) \<noteq> [] \<and> trim (sl_model s) \<noteq> []
   \<and> sl_max_activations s \<noteq> 0 \<and> b_timeout_ms (sl_budget s) \<noteq> 0 \<and> b_max_output_tokens (sl_budget s) \<noteq> 0
   \<and> money_ok (b_reserved (sl_budget s)) \<and> same_unit unit (b_reserved (sl_budget s))
   \<and> (sl_trigger s = Initial \<longleftrightarrow> sl_predecessor s = None)"

definition slot_cost :: "slot \<Rightarrow> nat" where
  "slot_cost s = unat (m_minor_units (b_reserved (sl_budget s)))"

text \<open>The slot is \<open>n\<close> predecessors away from one that has none.\<close>

inductive climbs :: "slot list \<Rightarrow> slot \<Rightarrow> nat \<Rightarrow> bool" for slots where
  climbs_top: "sl_predecessor s = None \<Longrightarrow> climbs slots s 0"
| climbs_up: "sl_predecessor s = Some (sl_slot_id c) \<Longrightarrow> c \<in> set slots \<Longrightarrow> climbs slots c n \<Longrightarrow>
     climbs slots s (Suc n)"

inductive_cases climbs_zeroE: "climbs slots s 0"
inductive_cases climbs_SucE: "climbs slots s (Suc n)"

definition provenance_ok :: "provenance \<Rightarrow> bool" where
  "provenance_ok p \<longleftrightarrow> (\<forall>v \<in> {pv_policy_version p, pv_registry_generation p, pv_profiler_version p,
     pv_statistics_version p, pv_compiler_version p, pv_gate_version p, pv_risk_version p}. trim v \<noteq> [])"

definition plan_valid :: "plan_codec \<Rightarrow> plan \<Rightarrow> uuid \<Rightarrow> u64 \<Rightarrow> bool" where
  "plan_valid c p tenant current_epoch \<longleftrightarrow>
     p_schema_version p \<in> {1, 2} \<and> trim (p_plan_id p) \<noteq> [] \<and> length (p_input_digest p) = 64
   \<and> p_tenant_id p = tenant \<and> current_epoch \<le> p_routing_epoch p
   \<and> provenance_ok (p_provenance p) \<and> p_max_total_attempts p \<noteq> 0
   \<and> money_ok (p_total_budget p) \<and> money_ok (p_verification_reserve p)
   \<and> same_unit (p_total_budget p) (p_verification_reserve p)
   \<and> sum_list (map slot_cost (p_slots p)) + unat (m_minor_units (p_verification_reserve p))
       \<le> unat (m_minor_units (p_total_budget p))
   \<and> distinct (map sl_slot_id (p_slots p))
   \<and> (\<forall>s \<in> set (p_slots p). slot_ok (p_total_budget p) s \<and> (\<exists>n. climbs (p_slots p) s n))
   \<and> (\<exists>!i. i < length (p_slots p) \<and> sl_trigger (p_slots p ! i) = Initial)
   \<and> (p_content_digest p = [] \<or> p_content_digest p = plan_digest c p)"

section \<open>Validation accepts the valid plans\<close>

lemma money_validate_ok: "money_validate m field = Inr u \<longleftrightarrow> money_ok m"
  by (auto simp: money_validate_def money_ok_def checks_ok)

lemma budget_validate_ok: "budget_validate b field = Inr u \<longleftrightarrow>
    b_timeout_ms b \<noteq> 0 \<and> b_max_output_tokens b \<noteq> 0 \<and> money_ok (b_reserved b)"
  by (auto simp: budget_validate_def checks_ok money_validate_ok)

lemma provenance_validate_ok: "provenance_validate p field = Inr u \<longleftrightarrow> provenance_ok p"
  by (auto simp: provenance_validate_def provenance_ok_def checks_ok)

lemma check_slot_ok: "check_slot ids s = Inr u \<longleftrightarrow>
    trim (sl_slot_id s) \<noteq> [] \<and> sl_slot_id s \<notin> set ids \<and> trim (sl_endpoint s) \<noteq> [] \<and> trim (sl_model s) \<noteq> []
  \<and> sl_max_activations s \<noteq> 0 \<and> b_timeout_ms (sl_budget s) \<noteq> 0 \<and> b_max_output_tokens (sl_budget s) \<noteq> 0
  \<and> money_ok (b_reserved (sl_budget s))"
  by (auto simp: check_slot_def checks_ok budget_validate_ok)

lemma check_trigger_ok: "check_trigger s = Inr u \<longleftrightarrow> (sl_trigger s = Initial \<longleftrightarrow> sl_predecessor s = None)"
  by (simp add: check_trigger_def)

lemma money_add_ok: "money_add a b field = Inr c \<longleftrightarrow>
    same_unit a b \<and> same_unit a c \<and> unat (m_minor_units c) = unat (m_minor_units a) + unat (m_minor_units b)"
  by (cases c) (auto simp: money_add_def same_unit_def checked_add_Some_iff split: option.split
      simp flip: checked_add_Some_iff)

lemma money_add_exists: "same_unit a b \<Longrightarrow>
    unat (m_minor_units a) + unat (m_minor_units b) < 2 ^ 64 \<Longrightarrow> \<exists>c. money_add a b field = Inr c"
  by (simp add: money_add_def same_unit_def checked_add_def)

lemma same_unit_trans: "same_unit a b \<Longrightarrow> same_unit a c \<longleftrightarrow> same_unit b c"
  by (auto simp: same_unit_def)

lemma same_unit_sym: "same_unit a b \<longleftrightarrow> same_unit b a"
  by (auto simp: same_unit_def)

lemma slot_ok_unit: "same_unit a b \<Longrightarrow> slot_ok a s \<longleftrightarrow> slot_ok b s"
  by (auto simp: slot_ok_def same_unit_def)

lemma check_slots_ok:
  "check_slots ids r n ss = Inr (r', n') \<longleftrightarrow>
     distinct (map sl_slot_id ss) \<and> set ids \<inter> sl_slot_id ` set ss = {}
   \<and> (\<forall>s \<in> set ss. slot_ok r s)
   \<and> same_unit r r' \<and> unat (m_minor_units r') = unat (m_minor_units r) + sum_list (map slot_cost ss)
   \<and> n' = n + length (filter (\<lambda>s. sl_trigger s = Initial) ss)"
proof (induction ss arbitrary: ids r n)
  case Nil
  show ?case by (cases r; cases r') (auto simp: same_unit_def word_unat_eq_iff)
next
  case (Cons s ss)
  let ?cost = "b_reserved (sl_budget s)"
  let ?fine = "check_slot ids s = Inr () \<and> check_trigger s = Inr () \<and> same_unit r ?cost"
  have fine: "?fine \<longleftrightarrow> slot_ok r s \<and> sl_slot_id s \<notin> set ids"
    by (auto simp: check_slot_ok check_trigger_ok slot_ok_def)
  show ?case
  proof (cases "?fine \<and> unat (m_minor_units r) + slot_cost s < 2 ^ 64")
    case True
    then obtain r1 where r1: "money_add r ?cost ''slots[].budget.reserved'' = Inr r1"
      using money_add_exists [of r ?cost] by (auto simp: slot_cost_def)
    then have u: "same_unit r r1" "unat (m_minor_units r1) = unat (m_minor_units r) + slot_cost s"
      by (auto simp: money_add_ok slot_cost_def)
    have "check_slots ids r n (s # ss) =
        check_slots (sl_slot_id s # ids) r1 (if sl_trigger s = Initial then Suc n else n) ss"
      using True r1 by (simp add: rbind_def)
    then show ?thesis
      using Cons True fine slot_ok_unit [OF u(1)] same_unit_trans [OF u(1)] u(2) by (auto simp: image_iff)
  next
    case False
    have "money_add r ?cost f \<noteq> Inr r1" if "?fine" for f r1
      using False that unat_less_exp [of "m_minor_units r1"] by (auto simp: money_add_ok slot_cost_def)
    then have "check_slots ids r n (s # ss) \<noteq> Inr (r', n')" by (auto simp: money_add_ok)
    moreover have "\<not> (unat (m_minor_units r') = unat (m_minor_units r) + sum_list (map slot_cost (s # ss)) \<and> ?fine)"
      using False unat_less_exp [of "m_minor_units r'"] by auto
    ultimately show ?thesis using fine by auto
  qed
qed

lemma climbs_unique:
  assumes "climbs slots s n" "climbs slots s m" "distinct (map sl_slot_id slots)"
  shows "n = m"
  using assms(1,2)
proof (induction arbitrary: m)
  case (climbs_top s)
  then show ?case by (cases m) (auto elim: climbs_SucE)
next
  case (climbs_up s c n)
  then obtain k where m: "m = Suc k" by (cases m) (auto elim: climbs_zeroE)
  then obtain d where d: "sl_predecessor s = Some (sl_slot_id d)" "d \<in> set slots" "climbs slots d k"
    using climbs_up.prems by (auto elim: climbs_SucE)
  then have "c = d" using climbs_up.hyps assms(3) by (auto simp: distinct_map dest: inj_onD)
  then show ?case using climbs_up.IH d m by simp
qed

lemma by_id_distinct:
  assumes "distinct (map sl_slot_id slots)"
  shows "by_id slots p = Some c \<longleftrightarrow> c \<in> set slots \<and> sl_slot_id c = p"
proof (cases "by_id slots p")
  case None
  then have "\<forall>x \<in> set slots. sl_slot_id x \<noteq> p" by (auto simp: by_id_def find_None_iff)
  then show ?thesis using None by auto
next
  case (Some d)
  then show ?thesis using by_id_Some [OF Some] assms by (auto simp: distinct_map dest: inj_onD)
qed

lemma walk_up_sound: "walk_up slots s seen cur = Inr u \<Longrightarrow> \<exists>n. climbs slots cur n"
proof (induction slots s seen cur rule: walk_up.induct)
  case (1 slots s seen cur)
  show ?case
  proof (cases "sl_predecessor cur")
    case None
    then show ?thesis by (auto intro: climbs_top)
  next
    case (Some p)
    then obtain c where c: "by_id slots p = Some c" "sl_slot_id c \<notin> set (sl_slot_id cur # seen)"
        "sl_slot_id cur \<notin> set seen" "walk_up slots s (sl_slot_id cur # seen) c = Inr u"
      using 1(2) by (auto simp: walk_up.simps [of _ _ _ cur] split: if_splits option.splits)
    then obtain n where "climbs slots c n" using 1(1) [OF Some] by auto
    then show ?thesis using by_id_Some [OF c(1)] Some by (auto intro: climbs_up)
  qed
qed

lemma walk_up_complete:
  assumes "climbs slots cur n" "distinct (map sl_slot_id slots)" "cur \<in> set slots"
    and "\<forall>i \<in> set seen. \<exists>t m. t \<in> set slots \<and> sl_slot_id t = i \<and> climbs slots t m \<and> n < m"
  shows "walk_up slots s seen cur = Inr ()"
  using assms
proof (induction arbitrary: seen)
  case (climbs_top cur)
  then show ?case by (simp add: walk_up.simps)
next
  case (climbs_up cur c n)
  have same: "t = t'" if "t \<in> set slots" "t' \<in> set slots" "sl_slot_id t = sl_slot_id t'" for t t'
    using that climbs_up.prems(1) by (auto simp: distinct_map dest: inj_onD)
  have cur: "climbs slots cur (Suc n)" using climbs_up.hyps by (rule climbs.climbs_up)
  have fresh: "sl_slot_id cur \<notin> set seen"
    using climbs_up.prems climbs_unique [OF cur _ climbs_up.prems(1)] same by fastforce
  have seen: "\<forall>i \<in> set (sl_slot_id cur # seen). \<exists>t m. t \<in> set slots \<and> sl_slot_id t = i \<and> climbs slots t m \<and> n < m"
    using climbs_up.prems cur by (auto dest: Suc_lessD) (meson Suc_lessD)
  have "sl_slot_id c \<notin> set (sl_slot_id cur # seen)"
    using seen climbs_unique [OF climbs_up.hyps(3) _ climbs_up.prems(1)] same climbs_up.hyps(2) by fastforce
  moreover have "by_id slots (sl_slot_id c) = Some c"
    using by_id_distinct [OF climbs_up.prems(1)] climbs_up.hyps(2) by blast
  ultimately show ?case
    using climbs_up.IH [OF climbs_up.prems(1) climbs_up.hyps(2) seen] fresh climbs_up.hyps(1)
    by (simp add: walk_up.simps [of _ _ _ cur])
qed

lemma walks_ok:
  "distinct (map sl_slot_id slots) \<Longrightarrow>
     (\<forall>s \<in> set slots. walk_up slots s [] s = Inr ()) \<longleftrightarrow> (\<forall>s \<in> set slots. \<exists>n. climbs slots s n)"
  using walk_up_sound walk_up_complete [where seen = "[]"] by fastforce

lemma one_initial: "length (filter P xs) = 1 \<longleftrightarrow> (\<exists>!i. i < length xs \<and> P (xs ! i))"
  unfolding length_filter_conv_card One_nat_def card_1_singleton_iff set_eq_iff mem_Collect_eq singleton_iff Ex1_def
  by metis

lemma version_ok: "v \<le> ROUTING_SCHEMA_VERSION \<and> MIN_DECODABLE_VERSION \<le> v \<longleftrightarrow> v \<in> {1, 2}"
  by (auto simp: ROUTING_SCHEMA_VERSION_def MIN_DECODABLE_VERSION_def word_le_nat_alt word_unat_eq_iff)

lemma reservations_ok:
  defines "zero \<equiv> \<lambda>t. money_zero (m_currency t) (m_scale t)"
  shows "(\<exists>r sum. check_slots [] (zero t) 0 ss = Inr (r, 1) \<and> money_add r v f = Inr sum
       \<and> m_minor_units sum \<le> m_minor_units t) \<longleftrightarrow>
     distinct (map sl_slot_id ss) \<and> (\<forall>s \<in> set ss. slot_ok t s) \<and> same_unit t v
       \<and> sum_list (map slot_cost ss) + unat (m_minor_units v) \<le> unat (m_minor_units t)
       \<and> length (filter (\<lambda>s. sl_trigger s = Initial) ss) = 1" (is "?l \<longleftrightarrow> ?r")
proof -
  have zero: "same_unit (zero t) t" "unat (m_minor_units (zero t)) = 0"
    by (simp_all add: same_unit_def money_zero_def zero_def)
  note ok = check_slots_ok [where ids = "[]" and r = "zero t" and n = 0 and ss = ss]
    money_add_ok word_le_nat_alt slot_ok_unit [OF zero(1)] zero(2)
  show ?thesis
  proof
    assume ?l
    then show ?r using same_unit_trans [OF zero(1)] same_unit_trans unfolding ok by force
  next
    assume r: ?r
    let ?sum = "sum_list (map slot_cost ss)"
    define m where "m = \<lparr>m_minor_units = of_nat ?sum, m_currency = m_currency t, m_scale = m_scale t\<rparr>"
    have "?sum + unat (m_minor_units v) < 2 ^ 64" using r unat_less_exp [of "m_minor_units t"] by simp
    then have m: "unat (m_minor_units m) = ?sum" "same_unit (zero t) m" "same_unit m v"
      using r zero by (auto simp: m_def unat_of_nat same_unit_def)
    obtain sum where "money_add m v f = Inr sum"
      using money_add_exists [OF m(3)] m(1) \<open>?sum + unat (m_minor_units v) < 2 ^ 64\<close> by auto
    moreover from this have "unat (m_minor_units sum) \<le> unat (m_minor_units t)"
      using r m(1) by (simp add: money_add_ok)
    moreover have "check_slots [] (zero t) 0 ss = Inr (m, 1)" using r m unfolding ok by auto
    ultimately show ?l unfolding word_le_nat_alt by blast
  qed
qed

lemma validate_ok:
  "plan_validate c p tenant current_epoch = Inr () \<longleftrightarrow> plan_valid c p tenant current_epoch"
proof -
  let ?t = "p_total_budget p" and ?ss = "p_slots p"
  let ?zero = "money_zero (m_currency ?t) (m_scale ?t)"
  have "plan_validate c p tenant current_epoch = Inr () \<longleftrightarrow>
      p_schema_version p \<in> {1, 2} \<and> trim (p_plan_id p) \<noteq> [] \<and> length (p_input_digest p) = 64
    \<and> p_tenant_id p = tenant \<and> current_epoch \<le> p_routing_epoch p \<and> provenance_ok (p_provenance p)
    \<and> money_ok ?t \<and> money_ok (p_verification_reserve p)
    \<and> m_currency (p_verification_reserve p) = m_currency ?t
    \<and> m_minor_units (p_verification_reserve p) \<le> m_minor_units ?t
    \<and> p_max_total_attempts p \<noteq> 0 \<and> ?ss \<noteq> []
    \<and> (\<exists>r sum. check_slots [] ?zero 0 ?ss = Inr (r, 1)
        \<and> money_add r (p_verification_reserve p) ''reserved+verification'' = Inr sum
        \<and> m_minor_units sum \<le> m_minor_units ?t)
    \<and> (\<forall>s \<in> set ?ss. walk_up ?ss s [] s = Inr ())
    \<and> (p_content_digest p = [] \<or> p_content_digest p = plan_digest c p)"
    unfolding plan_validate_def Let_def rbind_ok checks_ok version_ok [symmetric]
    by (auto simp: checks_ok money_validate_ok provenance_validate_ok split: prod.splits)
  moreover have "(\<exists>!i. i < length ?ss \<and> sl_trigger (?ss ! i) = Initial) \<Longrightarrow> ?ss \<noteq> []" by fastforce
  moreover have "same_unit ?t (p_verification_reserve p) \<Longrightarrow>
      m_currency (p_verification_reserve p) = m_currency ?t" by (simp add: same_unit_def)
  moreover have "sum_list (map slot_cost ?ss) + unat (m_minor_units (p_verification_reserve p))
      \<le> unat (m_minor_units ?t) \<Longrightarrow> m_minor_units (p_verification_reserve p) \<le> m_minor_units ?t"
    by (simp add: word_le_nat_alt)
  ultimately show ?thesis
    unfolding reservations_ok one_initial plan_valid_def ball_conj_distrib
    using walks_ok [of ?ss] by argo
qed

text \<open>C23: \<open>validate\<close> accepts exactly the plans that are valid in the declarative sense: known version,
  named inputs, own tenant, current epoch, sound slots with different ids of which exactly one is
  initial and from each of which predecessors lead to a slot without one, one currency and scale
  throughout, and reservations that together with the verification reserve stay within the total,
  counted without overflow.\<close>

theorem validate_iff_valid:
  "plan_validate c p tenant current_epoch = Inr () \<longleftrightarrow> plan_valid c p tenant current_epoch"
  by (rule validate_ok)

lemma money_zero_fields [simp]:
  "m_currency (money_zero u n) = u" "m_scale (money_zero u n) = n" "m_minor_units (money_zero u n) = 0"
  by (simp_all add: money_zero_def)

lemma plan_digest_sealed [simp]: "plan_digest c (sealed c p) = plan_digest c p"
  by (simp add: plan_digest_def sealed_def)

lemma sealed_fields [simp]:
  "p_schema_version (sealed c p) = p_schema_version p" "p_plan_id (sealed c p) = p_plan_id p"
  "p_input_digest (sealed c p) = p_input_digest p" "p_tenant_id (sealed c p) = p_tenant_id p"
  "p_routing_epoch (sealed c p) = p_routing_epoch p" "p_provenance (sealed c p) = p_provenance p"
  "p_max_total_attempts (sealed c p) = p_max_total_attempts p" "p_total_budget (sealed c p) = p_total_budget p"
  "p_verification_reserve (sealed c p) = p_verification_reserve p" "p_slots (sealed c p) = p_slots p"
  "p_content_digest (sealed c p) = plan_digest c p"
  by (simp_all add: sealed_def)

text \<open>A sealed plan with one slot that reserves nothing.\<close>

lemma single_slot_valid:
  assumes "p_slots p = [s]" "sl_predecessor s = None" "sl_trigger s = Initial"
    and "b_reserved (sl_budget s) = money_zero (m_currency (p_total_budget p)) (m_scale (p_total_budget p))"
    and "p_verification_reserve p = money_zero (m_currency (p_total_budget p)) (m_scale (p_total_budget p))"
    and "p_schema_version p = 2" "p_max_total_attempts p \<noteq> 0" "length (p_input_digest p) = 64"
    and "trim (sl_slot_id s) \<noteq> []" "sl_max_activations s \<noteq> 0" "tenant = p_tenant_id p" "epoch = p_routing_epoch p"
  shows "plan_validate c (sealed c p) tenant epoch = Inr () \<longleftrightarrow>
      trim (p_plan_id p) \<noteq> [] \<and> provenance_ok (p_provenance p) \<and> money_ok (p_total_budget p)
    \<and> trim (sl_endpoint s) \<noteq> [] \<and> trim (sl_model s) \<noteq> []
    \<and> b_timeout_ms (sl_budget s) \<noteq> 0 \<and> b_max_output_tokens (sl_budget s) \<noteq> 0"
proof -
  have climb: "\<exists>n. climbs [s] s n" using climbs_top [OF assms(2)] by blast
  have one: "\<exists>!i. i < length [s] \<and> sl_trigger ([s] ! i) = Initial" using assms(3) by auto
  have money: "money_ok (money_zero (m_currency m) (m_scale m)) \<longleftrightarrow> money_ok m" for m
    by (simp add: money_ok_def money_zero_def)
  show ?thesis
    unfolding validate_ok plan_valid_def sealed_fields plan_digest_sealed assms(1,5)
    using climb one assms by (auto simp: money slot_ok_def slot_cost_def same_unit_def money_zero_def money_ok_def)
qed

lemma written_names:
  "trim DIRECT_NOT_CONSULTED \<noteq> []" "trim DIRECT_COMPILER_VERSION \<noteq> []" "trim DIRECT_SLOT \<noteq> []"
  "trim (direct_plan_id c run) \<noteq> []" "trim ''initial'' \<noteq> []"
  by (simp_all add: trim_Nil_iff DIRECT_NOT_CONSULTED_def DIRECT_COMPILER_VERSION_def DIRECT_SLOT_def
      direct_plan_id_def is_whitespace_def)

lemma max_one_pos: "max n 1 \<noteq> (0 :: 'a::len word)"
  by (simp add: word_unat_eq_iff word_nat)

lemma direct_plan_ok:
  assumes "\<And>s. length (pc_sha256_hex c s) = 64"
  shows "plan_validate c (direct_plan c tenant session task run lease created path) tenant 0 = Inr () \<longleftrightarrow>
      trim (dp_endpoint path) \<noteq> [] \<and> trim (dp_model path) \<noteq> [] \<and> dp_timeout_ms path \<noteq> 0
      \<and> dp_max_output_tokens path \<noteq> 0"
proof -
  have usd: "money_ok (money_zero ''USD'' 2)"
    by (simp add: money_ok_def money_zero_def is_ascii_uppercase_def word_le_nat_alt)
  show ?thesis
    unfolding direct_plan_def
    by (rule trans [OF single_slot_valid [OF plan.select_convs(12)]])
      (simp_all add: assms written_names usd max_one_pos digest_def ROUTING_SCHEMA_VERSION_def provenance_ok_def)
qed

lemma decode_legacy_ok:
  assumes "\<And>s. length (pc_sha256_hex c s) = 64"
  shows "plan_validate c (decode_legacy c legacy plan_id scope prov budget) (ps_tenant_id scope) 0 = Inr () \<longleftrightarrow>
      trim plan_id \<noteq> [] \<and> provenance_ok prov \<and> money_ok budget
      \<and> trim (lp_endpoint legacy) \<noteq> [] \<and> trim (lp_model legacy) \<noteq> []"
  unfolding decode_legacy_def
  by (rule trans [OF single_slot_valid [OF plan.select_convs(12)]])
    (simp_all add: assms written_names max_one_pos digest_def ROUTING_SCHEMA_VERSION_def provenance_ok_def)

text \<open>C24: The plan written for the direct path of a run passes validation at its own epoch exactly when
  the path names an endpoint and a model and has a positive timeout and output ceiling; a decoded
  legacy plan exactly when it names an endpoint and a model and its caller gave a plan id, complete
  provenance and a sound total. The digest is 64 characters long, as SHA-256 in hexadecimal is.\<close>

theorem written_plans_validate:
  assumes "\<And>s. length (pc_sha256_hex c s) = 64"
  shows "(plan_validate c (direct_plan c tenant session task run lease created path) tenant 0 = Inr () \<longleftrightarrow>
      trim (dp_endpoint path) \<noteq> [] \<and> trim (dp_model path) \<noteq> [] \<and> dp_timeout_ms path \<noteq> 0
      \<and> dp_max_output_tokens path \<noteq> 0)
    \<and> (plan_validate c (decode_legacy c legacy plan_id scope prov budget) (ps_tenant_id scope) 0 = Inr () \<longleftrightarrow>
      trim plan_id \<noteq> [] \<and> provenance_ok prov \<and> money_ok budget
      \<and> trim (lp_endpoint legacy) \<noteq> [] \<and> trim (lp_model legacy) \<noteq> [])"
  using direct_plan_ok [OF assms] decode_legacy_ok [OF assms] by blast

definition sample_plan_codec :: plan_codec where
  "sample_plan_codec = \<lparr>pc_sha256_hex = (\<lambda>s. replicate 64 CHR ''a''), pc_json = (\<lambda>p. p_plan_id p), pc_id = show_nat\<rparr>"

definition sample_path :: direct_path where
  "sample_path = \<lparr>dp_endpoint = ''e'', dp_model = ''m'', dp_timeout_ms = 1000, dp_max_output_tokens = 4096,
     dp_max_retries = 1, dp_max_turns = 8\<rparr>"

theorem written_plans_validate_witness:
  "plan_validate sample_plan_codec (direct_plan sample_plan_codec 1 2 3 4 5 6 sample_path) 1 0 = Inr ()"
proof -
  have sha: "\<And>s. length (pc_sha256_hex sample_plan_codec s) = 64" by (simp add: sample_plan_codec_def)
  have "trim (dp_endpoint sample_path) \<noteq> [] \<and> trim (dp_model sample_path) \<noteq> [] \<and> dp_timeout_ms sample_path \<noteq> 0
      \<and> dp_max_output_tokens sample_path \<noteq> 0"
    by (simp add: sample_path_def trim_Nil_iff is_whitespace_def)
  then show ?thesis
    using written_plans_validate [OF sha, of 1 2 3 4 5 6 sample_path] by blast
qed

end
