(* ===== verification/Admission.thy ===== *)
theory Admission
  imports Routing
begin

text \<open>
  \<open>crates/core-runtime/src/admission.rs\<close>: admission of a whole plan and of one activation of one of its
  slots, and the ledger \<open>services/modbit-core/src/escalation.rs\<close> reads off the log before it asks.
  A transaction is the recorded activations of the plan with the money spent; \<open>txn_step\<close> is one
  admitted activation, recorded, or some spending of the leg that runs.
\<close>

section \<open>Refusals and records\<close>

datatype refused =
    PlanInvalid invalid
  | LegacyTemplate string
  | RequiredContinuationUnavailable string "string list"
  | ActivationsExhausted string u32
  | DuplicateActivation string u32
  | AttemptsExhausted u32 u32
  | AllowanceExceeded string money money

fun refused_code :: "refused \<Rightarrow> string" where
  "refused_code (PlanInvalid _) = ''PLAN_INVALID''"
| "refused_code (LegacyTemplate _) = ''LEGACY_TEMPLATE_AUTHORIZES_NOTHING''"
| "refused_code (RequiredContinuationUnavailable _ _) = ''REQUIRED_CONTINUATION_UNAVAILABLE''"
| "refused_code (ActivationsExhausted _ _) = ''ACTIVATIONS_EXHAUSTED''"
| "refused_code (DuplicateActivation _ _) = ''DUPLICATE_ACTIVATION''"
| "refused_code (AttemptsExhausted _ _) = ''ATTEMPTS_EXHAUSTED''"
| "refused_code (AllowanceExceeded _ _ _) = ''ALLOWANCE_EXCEEDED''"

record admission =
  ad_plan_id :: string
  ad_validation_digest :: string
  ad_reserved :: money
  ad_routing_epoch :: u64
  ad_lease_generation :: u64

record run_ledger =
  rl_activations :: "(string \<times> u32) list"
  rl_attempts :: u32
  rl_spent :: money
  rl_in_flight :: money

definition ledger_empty :: "string \<Rightarrow> u8 \<Rightarrow> run_ledger" where
  "ledger_empty currency scale = \<lparr>rl_activations = [], rl_attempts = 0,
     rl_spent = money_zero currency scale, rl_in_flight = money_zero currency scale\<rparr>"

definition activations_of :: "run_ledger \<Rightarrow> string \<Rightarrow> u32" where
  "activations_of l sid = (case find (\<lambda>(s, _). s = sid) (rl_activations l) of None \<Rightarrow> 0 | Some (_, n) \<Rightarrow> n)"

record activation =
  av_slot_id :: string
  av_activation :: u32
  av_reserved :: money

section \<open>Admission\<close>

fun sum_reserved :: "money \<Rightarrow> slot list \<Rightarrow> invalid + money" where
  "sum_reserved acc [] = Inr acc"
| "sum_reserved acc (s # ss) =
     rbind (money_add acc (b_reserved (sl_budget s)) ''slots[].budget.reserved'') (\<lambda>acc'. sum_reserved acc' ss)"

definition admit_validated :: "plan_codec \<Rightarrow> plan \<Rightarrow> uuid \<Rightarrow> u64 \<Rightarrow> refused + admission" where
  "admit_validated c p tenant current_epoch =
     rbind (map_err PlanInvalid (plan_validate c p tenant current_epoch)) (\<lambda>_.
     rbind (map_err PlanInvalid (sum_reserved
       (money_zero (m_currency (p_total_budget p)) (m_scale (p_total_budget p))) (p_slots p))) (\<lambda>reserved.
     rbind (map_err PlanInvalid (money_add reserved (p_verification_reserve p) ''verification_reserve'')) (\<lambda>sum.
       Inr \<lparr>ad_plan_id = p_plan_id p, ad_validation_digest = plan_digest c p, ad_reserved = sum,
         ad_routing_epoch = p_routing_epoch p, ad_lease_generation = p_lease_generation p\<rparr>)))"

definition admit_plan :: "plan_codec \<Rightarrow> plan \<Rightarrow> uuid \<Rightarrow> u64 \<Rightarrow> refused + admission" where
  "admit_plan c p tenant current_epoch =
     (case pv_legacy_decode (p_provenance p) of
        Some legacy \<Rightarrow> if length (p_slots p) > 1 then Inl (LegacyTemplate (ld_template_label legacy))
          else admit_validated c p tenant current_epoch
      | None \<Rightarrow> admit_validated c p tenant current_epoch)"

definition admit_activation :: "plan \<Rightarrow> run_ledger \<Rightarrow> string \<Rightarrow> trigger \<Rightarrow> refused + activation" where
  "admit_activation p l sid trig =
     (case find (\<lambda>s. sl_slot_id s = sid) (p_slots p) of
        None \<Rightarrow> Inl (RequiredContinuationUnavailable sid (map sl_slot_id (p_slots p)))
      | Some s \<Rightarrow>
          rbind (checks [
            ensure (sl_trigger s = trig) (RequiredContinuationUnavailable (sid @ '' on '' @ trigger_debug trig)
              (map (\<lambda>s. sl_slot_id s @ '' on '' @ trigger_debug (sl_trigger s)) (p_slots p))),
            ensure (activations_of l sid < sl_max_activations s) (ActivationsExhausted sid (sl_max_activations s)),
            ensure (rl_attempts l < p_max_total_attempts p)
              (AttemptsExhausted (p_max_total_attempts p) (rl_attempts l))]) (\<lambda>_.
          rbind (map_err PlanInvalid (rbind (money_add (rl_spent l) (rl_in_flight l) ''spent+in_flight'')
              (\<lambda>m. money_add m (p_verification_reserve p) ''held+verification''))) (\<lambda>held.
            (let allowance = \<lparr>m_minor_units = saturating_sub (m_minor_units (p_total_budget p)) (m_minor_units held),
                   m_currency = m_currency (p_total_budget p), m_scale = m_scale (p_total_budget p)\<rparr>
             in if m_minor_units (b_reserved (sl_budget s)) > m_minor_units allowance
                then Inl (AllowanceExceeded sid (b_reserved (sl_budget s)) allowance)
                else Inr \<lparr>av_slot_id = sid, av_activation = activations_of l sid + 1,
                  av_reserved = b_reserved (sl_budget s)\<rparr>))))"

definition check_not_replayed :: "run_ledger \<Rightarrow> string \<Rightarrow> u32 \<Rightarrow> refused + unit" where
  "check_not_replayed l sid n =
     ensure (activations_of l sid < n) (DuplicateActivation sid n)"

section \<open>The ledger read off the log\<close>

text \<open>The fold over the recorded activations: the largest ordinal per slot.\<close>

fun add_activation :: "(string \<times> u32) list \<Rightarrow> string \<times> u32 \<Rightarrow> (string \<times> u32) list" where
  "add_activation acc (sid, n) =
     (if find (\<lambda>(s, _). s = sid) acc = None then acc @ [(sid, n)]
      else upd_first (\<lambda>(s, _). s = sid) (\<lambda>(s, m). (s, max m n)) acc)"

text \<open>\<open>legs\<close> counts the activations of every plan of the run; \<open>elsewhere\<close> those of the other plans.\<close>

record txn =
  tx_log :: "(string \<times> u32) list"
  tx_elsewhere :: nat
  tx_spent :: money

definition ledger_of :: "plan \<Rightarrow> txn \<Rightarrow> run_ledger" where
  "ledger_of p t = \<lparr>rl_activations = foldl add_activation [] (tx_log t),
     rl_attempts = of_nat (length (tx_log t) + tx_elsewhere t), rl_spent = tx_spent t,
     rl_in_flight = money_zero (m_currency (p_total_budget p)) (m_scale (p_total_budget p))\<rparr>"

definition lookup_activation :: "(string \<times> u32) list \<Rightarrow> string \<Rightarrow> u32" where
  "lookup_activation acc sid = (case find (\<lambda>(s, _). s = sid) acc of None \<Rightarrow> 0 | Some (_, n) \<Rightarrow> n)"

lemma find_upd_other:
  "sid' \<noteq> sid \<Longrightarrow> find (\<lambda>(s, _). s = sid') (upd_first (\<lambda>(s, _). s = sid) (\<lambda>(s, m). (s, max m n)) acc) =
     find (\<lambda>(s, _). s = sid') acc"
  by (induction acc) auto

lemma find_upd_same:
  "find (\<lambda>(s, _). s = sid) acc = Some (s0, m) \<Longrightarrow>
   find (\<lambda>(s, _). s = sid) (upd_first (\<lambda>(s, _). s = sid) (\<lambda>(s, m). (s, max m n)) acc) = Some (sid, max m n)"
  by (induction acc) (auto split: if_splits)

lemma find_append_single:
  "find P (xs @ [x]) = (case find P xs of None \<Rightarrow> (if P x then Some x else None) | Some y \<Rightarrow> Some y)"
  by (induction xs) auto

lemma lookup_add_activation:
  "lookup_activation (add_activation acc (sid, n)) sid' =
     (if sid' = sid then max (lookup_activation acc sid) n else lookup_activation acc sid')"
  by (cases "find (\<lambda>(s, _). s = sid) acc")
    (auto simp: lookup_activation_def find_append_single find_upd_other find_upd_same split: option.split)

definition ordinals :: "(string \<times> u32) list \<Rightarrow> string \<Rightarrow> u32 list" where
  "ordinals log sid = map snd (filter (\<lambda>(s, _). s = sid) log)"

lemma lookup_fold: "lookup_activation (foldl add_activation [] log) sid = foldl max 0 (ordinals log sid)"
proof (induction log rule: rev_induct)
  case Nil
  then show ?case by (simp add: lookup_activation_def ordinals_def)
next
  case (snoc x log)
  then show ?case by (cases x) (auto simp: lookup_add_activation ordinals_def simp del: add_activation.simps)
qed

lemma foldl_max_upto:
  "k < 2 ^ 32 \<Longrightarrow> foldl max 0 (map of_nat [1..<Suc k]) = (of_nat k :: u32)"
proof (induction k)
  case (Suc k)
  have "unat (of_nat n :: u32) = n" if "n < 2 ^ 32" for n
    using that by (simp add: unat_of_nat take_bit_nat_eq_self_iff)
  then have "(of_nat k :: u32) \<le> of_nat (Suc k)"
    using Suc.prems unfolding word_le_nat_alt by (simp del: of_nat_Suc)
  then show ?case using Suc by (simp add: max_def upt_Suc_append del: of_nat_Suc upt_Suc)
qed simp

lemma activations_of_ledger:
  assumes "ordinals (tx_log t) sid = map of_nat [1..<Suc k]" "k < 2 ^ 32"
  shows "activations_of (ledger_of p t) sid = of_nat k"
  using lookup_fold [of "tx_log t" sid] foldl_max_upto [OF assms(2)] assms(1)
  by (simp add: activations_of_def ledger_of_def lookup_activation_def)

section \<open>Histories of a transaction\<close>

text \<open>A state is the transaction with what the leg that runs may still spend.\<close>

inductive txn_step :: "plan \<Rightarrow> txn \<times> nat \<Rightarrow> txn \<times> nat \<Rightarrow> bool" for p where
  txn_activate: "admit_activation p (ledger_of p t) sid trig = Inr a \<Longrightarrow>
     txn_step p (t, left) (t\<lparr>tx_log := tx_log t @ [(av_slot_id a, av_activation a)]\<rparr>,
       unat (m_minor_units (av_reserved a)))"
| txn_spend: "money_add (tx_spent t) m f = Inr spent \<Longrightarrow> unat (m_minor_units m) \<le> left \<Longrightarrow>
     txn_step p (t, left) (t\<lparr>tx_spent := spent\<rparr>, left - unat (m_minor_units m))"

definition slot_runs :: "plan \<Rightarrow> string \<Rightarrow> nat" where
  "slot_runs p sid = (case find (\<lambda>s. sl_slot_id s = sid) (p_slots p) of None \<Rightarrow> 0
     | Some s \<Rightarrow> unat (sl_max_activations s))"

lemma slot_runs_less: "slot_runs p sid < 2 ^ 32"
proof (cases "find (\<lambda>s. sl_slot_id s = sid) (p_slots p)")
  case (Some s)
  then show ?thesis using unat_less_exp [of "sl_max_activations s"] by (simp add: slot_runs_def)
qed (simp add: slot_runs_def)

definition txn_ok :: "plan \<Rightarrow> txn \<times> nat \<Rightarrow> bool" where
  "txn_ok p = (\<lambda>(t, left).
     (\<forall>sid. \<exists>k \<le> slot_runs p sid. ordinals (tx_log t) sid = map of_nat [1..<Suc k])
   \<and> tx_elsewhere t < 2 ^ 32
   \<and> (tx_log t \<noteq> [] \<longrightarrow> length (tx_log t) + tx_elsewhere t \<le> unat (p_max_total_attempts p))
   \<and> same_unit (p_total_budget p) (tx_spent t)
   \<and> unat (m_minor_units (tx_spent t)) + left + unat (m_minor_units (p_verification_reserve p))
       \<le> unat (m_minor_units (p_total_budget p)))"

lemma admit_activation_ok:
  "admit_activation p l sid trig = Inr a \<longleftrightarrow>
     (\<exists>s m held. find (\<lambda>s. sl_slot_id s = sid) (p_slots p) = Some s \<and> sl_trigger s = trig
       \<and> activations_of l sid < sl_max_activations s \<and> rl_attempts l < p_max_total_attempts p
       \<and> money_add (rl_spent l) (rl_in_flight l) ''spent+in_flight'' = Inr m
       \<and> money_add m (p_verification_reserve p) ''held+verification'' = Inr held
       \<and> unat (m_minor_units (b_reserved (sl_budget s)))
           \<le> unat (m_minor_units (p_total_budget p)) - unat (m_minor_units held)
       \<and> a = \<lparr>av_slot_id = sid, av_activation = activations_of l sid + 1, av_reserved = b_reserved (sl_budget s)\<rparr>)"
  by (auto simp: admit_activation_def checks_ok Let_def not_less word_le_nat_alt word_nat split: option.split)

lemma txn_activate_ok:
  assumes ok: "txn_ok p (t, left)" and a: "admit_activation p (ledger_of p t) sid trig = Inr a"
  shows "txn_ok p (t\<lparr>tx_log := tx_log t @ [(av_slot_id a, av_activation a)]\<rparr>, unat (m_minor_units (av_reserved a)))"
proof -
  let ?l = "ledger_of p t"
  obtain s m held where s: "find (\<lambda>s. sl_slot_id s = sid) (p_slots p) = Some s"
    and lim: "activations_of ?l sid < sl_max_activations s" "rl_attempts ?l < p_max_total_attempts p"
    and held: "money_add (rl_spent ?l) (rl_in_flight ?l) ''spent+in_flight'' = Inr m"
      "money_add m (p_verification_reserve p) ''held+verification'' = Inr held"
    and fits: "unat (m_minor_units (b_reserved (sl_budget s)))
      \<le> unat (m_minor_units (p_total_budget p)) - unat (m_minor_units held)"
    and a': "a = \<lparr>av_slot_id = sid, av_activation = activations_of ?l sid + 1, av_reserved = b_reserved (sl_budget s)\<rparr>"
    using a unfolding admit_activation_ok by blast
  obtain k where k: "k \<le> slot_runs p sid" "ordinals (tx_log t) sid = map of_nat [1..<Suc k]"
    using ok by (auto simp: txn_ok_def)
  have runs: "slot_runs p sid = unat (sl_max_activations s)" by (simp add: slot_runs_def s)
  then have "k < 2 ^ 32" using k(1) unat_less_exp [of "sl_max_activations s"] by simp
  then have done_k: "activations_of ?l sid = of_nat k" using activations_of_ledger [OF k(2)] by blast
  have "k < unat (sl_max_activations s)"
    using lim(1) \<open>k < 2 ^ 32\<close> unfolding done_k by (simp add: word_less_nat_alt unat_of_nat)
  moreover have "ordinals (tx_log t @ [(sid, of_nat k + 1)]) sid = map of_nat [1..<Suc (Suc k)]"
    using k(2) by (simp add: ordinals_def add.commute)
  moreover have "ordinals (tx_log t @ [(sid, of_nat k + 1)]) sid' = ordinals (tx_log t) sid'" if "sid' \<noteq> sid" for sid'
    using that by (simp add: ordinals_def)
  ultimately have ords: "\<exists>k' \<le> slot_runs p sid'. ordinals (tx_log t @ [(sid, of_nat k + 1)]) sid' = map of_nat [1..<Suc k']"
    for sid' using ok runs by (cases "sid' = sid") (auto simp: txn_ok_def intro: Suc_leI simp del: upt_Suc)
  have "length (tx_log t) + tx_elsewhere t < 2 ^ 32"
    using ok unat_less_exp [of "p_max_total_attempts p"] by (cases "tx_log t = []") (auto simp: txn_ok_def)
  then have "Suc (length (tx_log t) + tx_elsewhere t) \<le> unat (p_max_total_attempts p)"
    using lim(2) by (simp add: ledger_of_def word_less_nat_alt unat_of_nat del: of_nat_add)
  moreover have "unat (m_minor_units (tx_spent t)) + unat (m_minor_units (b_reserved (sl_budget s)))
      + unat (m_minor_units (p_verification_reserve p)) \<le> unat (m_minor_units (p_total_budget p))"
  proof -
    have "unat (m_minor_units held) = unat (m_minor_units (tx_spent t)) + unat (m_minor_units (p_verification_reserve p))"
      using held by (simp add: money_add_ok ledger_of_def money_zero_def)
    then show ?thesis using fits ok by (auto simp: txn_ok_def)
  qed
  ultimately show ?thesis using ok ords unfolding txn_ok_def a' done_k by simp
qed

lemma txn_step_ok: "txn_step p st st' \<Longrightarrow> txn_ok p st \<Longrightarrow> txn_ok p st'"
proof (induction rule: txn_step.induct)
  case (txn_activate t sid trig a left)
  then show ?case using txn_activate_ok by blast
next
  case (txn_spend t m f spent left)
  then show ?case by (auto simp: txn_ok_def money_add_ok same_unit_def)
qed

interpretation txn: invariant_system "txn_ok p" "txn_step p" for p
  by unfold_locales (metis txn_step_ok)

definition txn_start :: "plan \<Rightarrow> nat \<Rightarrow> txn \<times> nat" where
  "txn_start p elsewhere = (\<lparr>tx_log = [], tx_elsewhere = elsewhere,
     tx_spent = money_zero (m_currency (p_total_budget p)) (m_scale (p_total_budget p))\<rparr>, 0)"

lemma txn_start_ok:
  assumes "plan_valid c p tenant epoch" "elsewhere < 2 ^ 32"
  shows "txn_ok p (txn_start p elsewhere)"
proof -
  have "unat (m_minor_units (p_verification_reserve p)) \<le> unat (m_minor_units (p_total_budget p))"
    using assms(1) by (simp add: plan_valid_def)
  moreover have "\<exists>k \<le> slot_runs p sid. ordinals [] sid = map of_nat [1..<Suc k]" for sid
    by (rule exI [of _ 0]) (simp add: ordinals_def)
  ultimately show ?thesis
    using assms(2) by (simp add: txn_ok_def txn_start_def same_unit_def money_zero_def)
qed

section \<open>What admission promises\<close>

lemma sum_reserved_ok:
  "sum_reserved acc ss = Inr r \<longleftrightarrow> (\<forall>s \<in> set ss. same_unit acc (b_reserved (sl_budget s))) \<and> same_unit acc r
     \<and> unat (m_minor_units r) = unat (m_minor_units acc) + sum_list (map slot_cost ss)"
proof (induction ss arbitrary: acc)
  case Nil
  show ?case by (cases acc; cases r) (auto simp: same_unit_def word_unat_eq_iff)
next
  case (Cons s ss)
  let ?cost = "b_reserved (sl_budget s)"
  show ?case
  proof (cases "same_unit acc ?cost \<and> unat (m_minor_units acc) + slot_cost s < 2 ^ 64")
    case True
    then obtain r1 where r1: "money_add acc ?cost ''slots[].budget.reserved'' = Inr r1"
      using money_add_exists [of acc ?cost] by (auto simp: slot_cost_def)
    then have u: "same_unit acc r1" "unat (m_minor_units r1) = unat (m_minor_units acc) + slot_cost s"
      by (auto simp: money_add_ok slot_cost_def)
    have "sum_reserved acc (s # ss) = sum_reserved r1 ss" using r1 by (simp add: rbind_def)
    then show ?thesis using Cons True same_unit_trans [OF u(1)] u(2) by auto
  next
    case False
    have "money_add acc ?cost f \<noteq> Inr r1" for f r1
      using False unat_less_exp [of "m_minor_units r1"] by (auto simp: money_add_ok slot_cost_def)
    then have "sum_reserved acc (s # ss) \<noteq> Inr r" by auto
    moreover have "\<not> (unat (m_minor_units r) = unat (m_minor_units acc) + sum_list (map slot_cost (s # ss))
        \<and> same_unit acc ?cost)"
      using False unat_less_exp [of "m_minor_units r"] by auto
    ultimately show ?thesis by auto
  qed
qed

lemma admit_validated_ok:
  "admit_validated c p tenant epoch = Inr a \<longleftrightarrow>
     plan_valid c p tenant epoch
   \<and> ad_plan_id a = p_plan_id p \<and> ad_validation_digest a = plan_digest c p
   \<and> ad_routing_epoch a = p_routing_epoch p \<and> ad_lease_generation a = p_lease_generation p
   \<and> same_unit (p_total_budget p) (ad_reserved a)
   \<and> unat (m_minor_units (ad_reserved a)) =
       sum_list (map slot_cost (p_slots p)) + unat (m_minor_units (p_verification_reserve p))"
proof (cases "plan_valid c p tenant epoch")
  case valid: True
  let ?t = "p_total_budget p" and ?v = "p_verification_reserve p"
  let ?zero = "money_zero (m_currency ?t) (m_scale ?t)"
  let ?sum = "sum_list (map slot_cost (p_slots p))"
  have zero: "same_unit ?zero ?t" "unat (m_minor_units ?zero) = 0"
    by (simp_all add: same_unit_def money_zero_def)
  have lt: "?sum + unat (m_minor_units ?v) < 2 ^ 64"
    using valid unat_less_exp [of "m_minor_units ?t"] by (simp add: plan_valid_def)
  define r where "r = \<lparr>m_minor_units = of_nat ?sum, m_currency = m_currency ?t, m_scale = m_scale ?t\<rparr>"
  have r: "same_unit ?zero r" "unat (m_minor_units r) = ?sum" "same_unit r ?v" "same_unit ?t r"
    using lt valid by (auto simp: r_def same_unit_def money_zero_def unat_of_nat plan_valid_def)
  have sum: "sum_reserved ?zero (p_slots p) = Inr r"
    unfolding sum_reserved_ok zero using valid r same_unit_trans [OF zero(1)]
    by (auto simp: plan_valid_def slot_ok_def)
  obtain total where total: "money_add r ?v ''verification_reserve'' = Inr total"
    using money_add_exists [OF r(3)] lt r(2) by auto
  then have "admit_validated c p tenant epoch = Inr \<lparr>ad_plan_id = p_plan_id p,
      ad_validation_digest = plan_digest c p, ad_reserved = total,
      ad_routing_epoch = p_routing_epoch p, ad_lease_generation = p_lease_generation p\<rparr>"
    using iffD2 [OF validate_ok valid] sum by (simp add: admit_validated_def rbind_def map_err_def)
  moreover have "same_unit ?t total" "unat (m_minor_units total) = ?sum + unat (m_minor_units ?v)"
    using total r by (auto simp: money_add_ok same_unit_def)
  ultimately show ?thesis using valid
    by (cases a; cases "ad_reserved a"; cases total) (auto simp: same_unit_def word_unat_eq_iff)
qed (simp add: admit_validated_def validate_ok)

text \<open>C25: A plan is admitted exactly when it is valid and, if it was decoded from a legacy shape, has
  a single slot. The admission carries the digest of the plan that was validated and reserves the
  exact sum of the slots and the verification reserve, which the total covers.\<close>

theorem admit_plan_exact:
  "admit_plan c p tenant epoch = Inr a \<longleftrightarrow>
     plan_valid c p tenant epoch
   \<and> (pv_legacy_decode (p_provenance p) = None \<or> length (p_slots p) = 1)
   \<and> ad_plan_id a = p_plan_id p \<and> ad_validation_digest a = plan_digest c p
   \<and> ad_routing_epoch a = p_routing_epoch p \<and> ad_lease_generation a = p_lease_generation p
   \<and> same_unit (p_total_budget p) (ad_reserved a)
   \<and> unat (m_minor_units (ad_reserved a)) =
       sum_list (map slot_cost (p_slots p)) + unat (m_minor_units (p_verification_reserve p))"
proof -
  have "plan_valid c p tenant epoch \<Longrightarrow> p_slots p \<noteq> []" unfolding plan_valid_def by fastforce
  then have "plan_valid c p tenant epoch \<Longrightarrow> length (p_slots p) = 1 \<longleftrightarrow> \<not> 1 < length (p_slots p)"
    by (cases "p_slots p") auto
  then show ?thesis
    unfolding admit_plan_def using admit_validated_ok [of c p tenant epoch a]
    by (auto split: option.split)
qed

text \<open>C26: In a valid plan, through any admitted activations and any spending of a leg within its
  reservation, what is spent and what the running leg may still spend leave the verification
  reserve inside the total budget; no slot runs more often than the plan allows, and the
  transaction makes no more legs than its ceiling.\<close>

theorem transaction_within_budget:
  assumes "plan_valid c p tenant epoch" "elsewhere < 2 ^ 32"
    and "(txn_step p)\<^sup>*\<^sup>* (txn_start p elsewhere) (t, left)"
  shows "unat (m_minor_units (tx_spent t)) + left + unat (m_minor_units (p_verification_reserve p))
      \<le> unat (m_minor_units (p_total_budget p))
    \<and> length (ordinals (tx_log t) sid) \<le> slot_runs p sid
    \<and> (tx_log t \<noteq> [] \<longrightarrow> length (tx_log t) + tx_elsewhere t \<le> unat (p_max_total_attempts p))"
proof -
  have "txn_ok p (t, left)" by (rule txn.steps_inv [OF assms(3) txn_start_ok [OF assms(1,2)]])
  then show ?thesis unfolding txn_ok_def prod.case by (metis length_map length_upt diff_Suc_1)
qed

text \<open>C27: The replay check refuses exactly the activations the log holds: through any admitted
  activations the ordinals of a slot are recorded as 1, 2, 3 and so on, and a caller that asks for
  an ordinal from 1 on is told it is a duplicate if and only if that ordinal is recorded.\<close>

theorem replay_refused_iff_recorded:
  assumes "plan_valid c p tenant epoch" "elsewhere < 2 ^ 32"
    and "(txn_step p)\<^sup>*\<^sup>* (txn_start p elsewhere) (t, left)" "n \<noteq> 0"
  shows "check_not_replayed (ledger_of p t) sid n = (if (sid, n) \<in> set (tx_log t)
      then Inl (DuplicateActivation sid n) else Inr ())"
proof -
  have "txn_ok p (t, left)" by (rule txn.steps_inv [OF assms(3) txn_start_ok [OF assms(1,2)]])
  then obtain k where k: "k \<le> slot_runs p sid" "ordinals (tx_log t) sid = map of_nat [1..<Suc k]"
    by (auto simp: txn_ok_def)
  have k32: "k < 2 ^ 32" using k(1) slot_runs_less [of p sid] by simp
  have small: "unat (of_nat j :: u32) = j" if "j \<le> k" for j
    using that k32 by (simp add: unat_of_nat take_bit_nat_eq_self_iff)
  have "(sid, n) \<in> set (tx_log t) \<longleftrightarrow> n \<in> set (ordinals (tx_log t) sid)"
    by (force simp: ordinals_def)
  also have "\<dots> \<longleftrightarrow> (\<exists>j \<in> {1..k}. n = of_nat j)" unfolding k(2) by auto
  also have "\<dots> \<longleftrightarrow> unat n \<le> k"
  proof
    assume "unat n \<le> k"
    then show "\<exists>j \<in> {1..k}. n = of_nat j"
      using assms(4) by (intro bexI [of _ "unat n"]) (auto simp: Suc_le_eq word_unat_eq_iff)
  qed (use small in auto)
  also have "\<dots> \<longleftrightarrow> \<not> activations_of (ledger_of p t) sid < n"
    unfolding activations_of_ledger [OF k(2) k32] word_less_nat_alt by (auto simp: small)
  finally show ?thesis by (simp add: check_not_replayed_def ensure_def)
qed

section \<open>A sample transaction\<close>

definition usd :: "u64 \<Rightarrow> money" where
  "usd n = \<lparr>m_minor_units = n, m_currency = ''USD'', m_scale = 2\<rparr>"

lemma usd_fields [simp]:
  "m_minor_units (usd n) = n" "m_currency (usd n) = ''USD''" "m_scale (usd n) = 2" "money_zero ''USD'' 2 = usd 0"
  by (simp_all add: usd_def money_zero_def)

definition sample_slot :: slot where
  "sample_slot = \<lparr>sl_slot_id = ''a'', sl_predecessor = None, sl_trigger = Initial, sl_max_activations = 1,
     sl_endpoint = ''e'', sl_model = ''m'', sl_role = ''solver'',
     sl_budget = \<lparr>b_timeout_ms = 1, b_max_output_tokens = 1, b_max_retries = 0, b_reserved = usd 40\<rparr>\<rparr>"

definition sample_next :: slot where
  "sample_next = sample_slot\<lparr>sl_slot_id := ''b'', sl_predecessor := Some ''a'', sl_trigger := QualityRejected\<rparr>"

definition sample_plan :: plan where
  "sample_plan = (direct_plan sample_plan_codec 1 2 3 4 5 6 sample_path)\<lparr>p_slots := [sample_slot, sample_next],
     p_verification_reserve := usd 10, p_total_budget := usd 100, p_content_digest := []\<rparr>"

lemma sample_plan_slots: "p_slots sample_plan = [sample_slot, sample_next]"
  by (simp add: sample_plan_def)

lemma sample_plan_valid: "plan_valid sample_plan_codec sample_plan 1 0"
proof -
  have money: "money_ok (usd n)" for n
    by (simp add: money_ok_def usd_def is_ascii_uppercase_def word_le_nat_alt)
  have slots: "slot_ok (usd 100) sample_slot" "slot_ok (usd 100) sample_next"
    using money by (simp_all add: slot_ok_def sample_slot_def sample_next_def trim_Nil_iff is_whitespace_def
        same_unit_def usd_def)
  have climb: "climbs [sample_slot, sample_next] sample_slot 0"
    by (rule climbs_top) (simp add: sample_slot_def)
  then have next_climb: "climbs [sample_slot, sample_next] sample_next (Suc 0)"
    by (rule climbs_up [rotated 2]) (simp_all add: sample_slot_def sample_next_def)
  have one: "\<exists>!i. i < length [sample_slot, sample_next] \<and> sl_trigger ([sample_slot, sample_next] ! i) = Initial"
    by (rule ex1I [of _ 0]) (auto simp: sample_slot_def sample_next_def less_Suc_eq)
  have "plan_validate sample_plan_codec (direct_plan sample_plan_codec 1 2 3 4 5 6 sample_path) 1 0 = Inr ()"
    by (subst direct_plan_ok)
      (simp_all add: sample_plan_codec_def sample_path_def trim_Nil_iff is_whitespace_def)
  then have direct: "plan_valid sample_plan_codec (direct_plan sample_plan_codec 1 2 3 4 5 6 sample_path) 1 0"
    by (rule iffD1 [OF validate_ok])
  show ?thesis
    using direct money slots climb next_climb one unfolding plan_valid_def
    by (auto simp: sample_plan_def same_unit_def usd_def slot_cost_def sample_slot_def sample_next_def)
qed

definition sample_txn :: txn where
  "sample_txn = \<lparr>tx_log = [(''a'', 1)], tx_elsewhere = 0, tx_spent = usd 0\<rparr>"

lemma sample_txn_reached: "(txn_step sample_plan)\<^sup>*\<^sup>* (txn_start sample_plan 0) (sample_txn, 40)"
proof (rule r_into_rtranclp)
  let ?t = "fst (txn_start sample_plan 0)"
  have budget: "p_total_budget sample_plan = usd 100" "p_verification_reserve sample_plan = usd 10"
    "p_max_total_attempts sample_plan = 8"
    by (simp_all add: sample_plan_def direct_plan_def sealed_def sample_path_def max_def word_le_nat_alt)
  have t: "?t = \<lparr>tx_log = [], tx_elsewhere = 0, tx_spent = usd 0\<rparr>"
    by (simp add: txn_start_def budget)
  have "money_add (usd 0) (usd 0) f = Inr (usd 0)" "money_add (usd 0) (usd 10) f = Inr (usd 10)" for f
    by (simp_all add: money_add_ok same_unit_def)
  then have "admit_activation sample_plan (ledger_of sample_plan ?t) ''a'' Initial =
      Inr \<lparr>av_slot_id = ''a'', av_activation = 1, av_reserved = usd 40\<rparr>"
    unfolding t admit_activation_ok sample_plan_slots
    by (simp add: budget ledger_of_def activations_of_def sample_slot_def word_less_nat_alt)
  from txn_activate [OF this] show "txn_step sample_plan (txn_start sample_plan 0) (sample_txn, 40)"
    by (simp add: txn_start_def sample_txn_def budget)
qed

theorem transaction_within_budget_witness:
  "unat (m_minor_units (tx_spent sample_txn)) + 40 + unat (m_minor_units (p_verification_reserve sample_plan))
     \<le> unat (m_minor_units (p_total_budget sample_plan)) \<and> tx_log sample_txn \<noteq> []"
  using transaction_within_budget [OF sample_plan_valid _ sample_txn_reached, of "''a''"]
  by (simp add: sample_txn_def)

theorem replay_refused_iff_recorded_witness:
  "check_not_replayed (ledger_of sample_plan sample_txn) ''a'' 1 = Inl (DuplicateActivation ''a'' 1)
   \<and> check_not_replayed (ledger_of sample_plan sample_txn) ''a'' 2 = Inr ()"
  using replay_refused_iff_recorded [OF sample_plan_valid _ sample_txn_reached, of 1 "''a''"]
    replay_refused_iff_recorded [OF sample_plan_valid _ sample_txn_reached, of 2 "''a''"]
  by (simp add: sample_txn_def)

end
