(* ===== verification/Input_Queue.thy ===== *)
theory Input_Queue
  imports Task "HOL-Library.Multiset"
begin

text \<open>
  \<open>crates/core-runtime/src/input_queue.rs\<close>: the queue of a task's inputs folded from its log.
  \<open>iq_apply\<close> is the fold of one record over the vector of all inputs ever queued. The
  abstract queue \<open>line\<close> keeps only the inputs that wait, in order, and the ids that are
  settled; \<open>line_of\<close> reads it off the vector, and every record acts on it as \<open>line_apply\<close> says.
\<close>

section \<open>The fold\<close>

datatype item_state = Queued | Dispatched | Removed

fun item_state_name :: "item_state \<Rightarrow> string" where
  "item_state_name Queued = ''QUEUED''"
| "item_state_name Dispatched = ''DISPATCHED''"
| "item_state_name Removed = ''REMOVED''"

record queue_item =
  qi_input_id :: string
  qi_mode :: input_mode
  qi_text :: string
  qi_provenance :: string
  qi_untrusted :: bool
  qi_model :: string
  qi_state :: item_state
  qi_edited :: bool
  qi_sent_now :: bool
  qi_queued_offset :: nat
  qi_changed_offset :: nat

record interrupt_record =
  ir_interrupt_id :: string
  ir_kind :: string
  ir_input_id :: string
  ir_requested_offset :: nat
  ir_applied :: bool

record send_behavior =
  sb_while_running :: string
  sb_send_now :: string

definition send_behavior_default :: send_behavior where
  "send_behavior_default = \<lparr>sb_while_running = ''QUEUE'', sb_send_now = ''INTERRUPT''\<rparr>"

definition WHILE_RUNNING :: "string list" where
  "WHILE_RUNNING = [''QUEUE'', ''COLLECT'', ''STEER'', ''STOP_AND_SEND'']"

definition SEND_NOW :: "string list" where
  "SEND_NOW = [''INTERRUPT'', ''STEER'']"

record input_queue =
  iq_items :: "queue_item list"
  iq_interrupts :: "interrupt_record list"
  iq_behavior :: send_behavior
  iq_behavior_offset :: nat

definition iq_new :: input_queue where
  "iq_new = \<lparr>iq_items = [], iq_interrupts = [], iq_behavior = send_behavior_default, iq_behavior_offset = 0\<rparr>"

text \<open>\<open>queued_mut\<close> finds the first waiting input of an id; a write through it updates that one.\<close>

definition waits :: "string \<Rightarrow> queue_item \<Rightarrow> bool" where
  "waits inp i \<longleftrightarrow> qi_input_id i = inp \<and> qi_state i = Queued"

definition is_queued :: "string \<Rightarrow> queue_item list \<Rightarrow> bool" where
  "is_queued inp items \<longleftrightarrow> find (waits inp) items \<noteq> None"

definition queued_mut :: "string \<Rightarrow> (queue_item \<Rightarrow> queue_item) \<Rightarrow> queue_item list \<Rightarrow> queue_item list" where
  "queued_mut inp f items = upd_first (waits inp) f items"

definition move_before :: "string \<Rightarrow> string \<Rightarrow> queue_item list \<Rightarrow> queue_item list" where
  "move_before inp before items = (case position (\<lambda>i. qi_input_id i = inp) items of
     None \<Rightarrow> items
   | Some k \<Rightarrow>
       (let item = items ! k; rest = remove_at k items;
            at = (if before = [] \<or> before = inp then None else position (waits before) rest)
        in case at of Some j \<Rightarrow> insert_at j item rest | None \<Rightarrow> rest @ [item]))"

definition promote :: "string \<Rightarrow> queue_item list \<Rightarrow> queue_item list" where
  "promote inp items = (case position (\<lambda>i. qi_input_id i = inp) items of
     None \<Rightarrow> items
   | Some k \<Rightarrow>
       (let item = items ! k; rest = remove_at k items
        in case position (\<lambda>i. qi_state i = Queued \<and> \<not> qi_sent_now i) rest of
             Some j \<Rightarrow> insert_at j item rest | None \<Rightarrow> rest @ [item]))"

text \<open>\<open>filter(Queued).min_by_key(queued_offset)\<close>: the first of the smallest.\<close>

definition oldest_queued :: "queue_item list \<Rightarrow> nat option" where
  "oldest_queued items = (case filter (\<lambda>k. qi_state (items ! k) = Queued) [0..<length items] of
     [] \<Rightarrow> None
   | k # ks \<Rightarrow> Some (foldl (\<lambda>b j. if qi_queued_offset (items ! j) < qi_queued_offset (items ! b) then j else b) k ks))"

definition dispatch :: "nat \<Rightarrow> queue_item \<Rightarrow> queue_item" where
  "dispatch offset i = i\<lparr>qi_state := Dispatched, qi_changed_offset := offset\<rparr>"

definition steer :: "nat \<Rightarrow> string list \<Rightarrow> queue_item list \<Rightarrow> queue_item list" where
  "steer offset ids is = foldl (\<lambda>is inp. queued_mut inp (dispatch offset) is) is ids"

definition edit_item :: "nat \<Rightarrow> string \<Rightarrow> input_mode option \<Rightarrow> string \<Rightarrow> queue_item \<Rightarrow> queue_item" where
  "edit_item offset txt mode model i = i\<lparr>
     qi_text := (if txt = [] then qi_text i else txt),
     qi_mode := (case mode of None \<Rightarrow> qi_mode i | Some m \<Rightarrow> m),
     qi_model := (if model = [] then qi_model i else model),
     qi_edited := True, qi_changed_offset := offset\<rparr>"

definition new_item :: "nat \<Rightarrow> string \<Rightarrow> input_mode \<Rightarrow> string \<Rightarrow> string \<Rightarrow> bool \<Rightarrow> queue_item" where
  "new_item offset inp mode txt prov untrusted = \<lparr>qi_input_id = inp, qi_mode = mode, qi_text = txt,
     qi_provenance = prov, qi_untrusted = untrusted, qi_model = [], qi_state = Queued, qi_edited = False,
     qi_sent_now = False, qi_queued_offset = offset, qi_changed_offset = offset\<rparr>"

fun iq_apply :: "input_queue \<Rightarrow> nat \<Rightarrow> task_event \<Rightarrow> input_queue" where
  "iq_apply q offset (SendBehaviorSet while_running send_now) =
     q\<lparr>iq_behavior := \<lparr>
         sb_while_running = (if while_running \<in> set WHILE_RUNNING then while_running
           else sb_while_running (iq_behavior q)),
         sb_send_now = (if send_now \<in> set SEND_NOW then send_now else sb_send_now (iq_behavior q))\<rparr>,
       iq_behavior_offset := offset\<rparr>"
| "iq_apply q offset (TaskInputQueued inp mode txt prov untrusted) =
     (if \<exists>i \<in> set (iq_items q). qi_input_id i = inp then q
      else q\<lparr>iq_items := iq_items q @ [new_item offset inp mode txt prov untrusted]\<rparr>)"
| "iq_apply q offset (TaskInputEdited inp txt mode model) =
     q\<lparr>iq_items := queued_mut inp (edit_item offset txt mode model) (iq_items q)\<rparr>"
| "iq_apply q offset (TaskInputRemoved inp _) =
     q\<lparr>iq_items := queued_mut inp (\<lambda>i. i\<lparr>qi_state := Removed, qi_changed_offset := offset\<rparr>) (iq_items q)\<rparr>"
| "iq_apply q offset (TaskInputReordered inp before) =
     (if is_queued inp (iq_items q)
      then q\<lparr>iq_items := queued_mut inp (\<lambda>i. i\<lparr>qi_changed_offset := offset\<rparr>) (move_before inp before (iq_items q))\<rparr>
      else q)"
| "iq_apply q offset (TaskInterruptRequested iid kind inp _) =
     (if \<exists>r \<in> set (iq_interrupts q). ir_interrupt_id r = iid then q
      else (let q1 = q\<lparr>iq_interrupts := iq_interrupts q @ [\<lparr>ir_interrupt_id = iid, ir_kind = kind,
                  ir_input_id = inp, ir_requested_offset = offset, ir_applied = False\<rparr>]\<rparr>
            in if kind = ''SEND_NOW'' \<and> is_queued inp (iq_items q1)
               then q1\<lparr>iq_items := queued_mut inp (\<lambda>i. i\<lparr>qi_sent_now := True, qi_changed_offset := offset\<rparr>)
                      (promote inp (iq_items q1))\<rparr>
               else q1))"
| "iq_apply q offset (TaskInterruptApplied iid _ _ _ _ _) =
     q\<lparr>iq_interrupts := upd_first (\<lambda>r. ir_interrupt_id r = iid) (\<lambda>r. r\<lparr>ir_applied := True\<rparr>) (iq_interrupts q)\<rparr>"
| "iq_apply q offset (TaskSteered _ _ _ ids) =
     (let items = (if ids \<noteq> [] then iq_items q
            else (case oldest_queued (iq_items q) of None \<Rightarrow> iq_items q
                  | Some k \<Rightarrow> (iq_items q)[k := dispatch offset (iq_items q ! k)]))
      in q\<lparr>iq_items := steer offset ids items\<rparr>)"
| "iq_apply q offset _ = q"

definition pending :: "input_queue \<Rightarrow> queue_item list" where
  "pending q = filter (\<lambda>i. qi_state i = Queued) (iq_items q)"

definition iq_all :: "input_queue \<Rightarrow> queue_item list" where
  "iq_all q = pending q @ sort_key qi_queued_offset (filter (\<lambda>i. qi_state i \<noteq> Queued) (iq_items q))"

definition iq_get :: "input_queue \<Rightarrow> string \<Rightarrow> queue_item option" where
  "iq_get q inp = find (\<lambda>i. qi_input_id i = inp) (iq_items q)"

definition unapplied_interrupts :: "input_queue \<Rightarrow> interrupt_record list" where
  "unapplied_interrupts q = filter (\<lambda>r. \<not> ir_applied r) (iq_interrupts q)"

definition iq_interrupt :: "input_queue \<Rightarrow> string \<Rightarrow> interrupt_record option" where
  "iq_interrupt q inp = find (\<lambda>r. ir_interrupt_id r = inp) (iq_interrupts q)"

section \<open>The queue as a line\<close>

record line =
  ln_waiting :: "queue_item list"
  ln_settled :: "string set"
  ln_interrupts :: "string set"

abbreviation ids_of :: "queue_item list \<Rightarrow> string set" where
  "ids_of is \<equiv> qi_input_id ` set is"

definition line_of :: "input_queue \<Rightarrow> line" where
  "line_of q = \<lparr>ln_waiting = pending q,
     ln_settled = ids_of (filter (\<lambda>i. qi_state i \<noteq> Queued) (iq_items q)),
     ln_interrupts = ir_interrupt_id ` set (iq_interrupts q)\<rparr>"

definition upd_id :: "string \<Rightarrow> (queue_item \<Rightarrow> queue_item) \<Rightarrow> queue_item list \<Rightarrow> queue_item list" where
  "upd_id inp f is = map (\<lambda>i. if qi_input_id i = inp then f i else i) is"

definition drop_id :: "string \<Rightarrow> queue_item list \<Rightarrow> queue_item list" where
  "drop_id inp is = filter (\<lambda>i. qi_input_id i \<noteq> inp) is"

text \<open>Take an input out of the line and put it back in front of the first one that satisfies \<open>p\<close>.\<close>

definition put_before :: "(queue_item \<Rightarrow> bool) \<Rightarrow> string \<Rightarrow> queue_item list \<Rightarrow> queue_item list" where
  "put_before p inp is = (let rest = drop_id inp is in
     takeWhile (\<lambda>i. \<not> p i) rest @ filter (\<lambda>i. qi_input_id i = inp) is @ dropWhile (\<lambda>i. \<not> p i) rest)"

fun line_apply :: "line \<Rightarrow> nat \<Rightarrow> task_event \<Rightarrow> line" where
  "line_apply l offset (TaskInputQueued inp mode txt prov untrusted) =
     (if inp \<in> ids_of (ln_waiting l) \<union> ln_settled l then l
      else l\<lparr>ln_waiting := ln_waiting l @ [new_item offset inp mode txt prov untrusted]\<rparr>)"
| "line_apply l offset (TaskInputEdited inp txt mode model) =
     l\<lparr>ln_waiting := upd_id inp (edit_item offset txt mode model) (ln_waiting l)\<rparr>"
| "line_apply l offset (TaskInputRemoved inp _) =
     (if inp \<in> ids_of (ln_waiting l)
      then l\<lparr>ln_waiting := drop_id inp (ln_waiting l), ln_settled := insert inp (ln_settled l)\<rparr> else l)"
| "line_apply l offset (TaskInputReordered inp before) =
     l\<lparr>ln_waiting := upd_id inp (\<lambda>i. i\<lparr>qi_changed_offset := offset\<rparr>)
        (put_before (\<lambda>i. before \<noteq> [] \<and> qi_input_id i = before) inp (ln_waiting l))\<rparr>"
| "line_apply l offset (TaskInterruptRequested iid kind inp _) =
     (if iid \<in> ln_interrupts l then l
      else (let l1 = l\<lparr>ln_interrupts := insert iid (ln_interrupts l)\<rparr>
            in if kind = ''SEND_NOW''
               then l1\<lparr>ln_waiting := upd_id inp (\<lambda>i. i\<lparr>qi_sent_now := True, qi_changed_offset := offset\<rparr>)
                      (put_before (\<lambda>i. \<not> qi_sent_now i) inp (ln_waiting l1))\<rparr>
               else l1))"
| "line_apply l offset (TaskSteered _ _ _ ids) =
     (let gone = (if ids \<noteq> [] then set ids \<inter> ids_of (ln_waiting l)
            else ids_of (take 1 (sort_key qi_queued_offset (ln_waiting l))))
      in l\<lparr>ln_waiting := filter (\<lambda>i. qi_input_id i \<notin> gone) (ln_waiting l), ln_settled := ln_settled l \<union> gone\<rparr>)"
| "line_apply l offset _ = l"

section \<open>The vector refines the line\<close>

abbreviation waiting :: "queue_item list \<Rightarrow> queue_item list" where
  "waiting is \<equiv> filter (\<lambda>i. qi_state i = Queued) is"

abbreviation settled :: "queue_item list \<Rightarrow> string set" where
  "settled is \<equiv> ids_of (filter (\<lambda>i. qi_state i \<noteq> Queued) is)"

abbreviation distinct_ids :: "queue_item list \<Rightarrow> bool" where
  "distinct_ids is \<equiv> distinct (map qi_input_id is)"

lemma position_obtain:
  assumes "position p xs = Some k"
  obtains A x B where "xs = A @ x # B" "length A = k" "p x" "\<forall>a \<in> set A. \<not> p a"
proof -
  have k: "k < length xs" "p (xs ! k)" "\<forall>j < k. \<not> p (xs ! j)" using assms by (auto simp: position_Some)
  have "\<forall>a \<in> set (take k xs). \<not> p a" using k by (auto simp: in_set_conv_nth)
  then show ?thesis using that [of "take k xs" "xs ! k" "drop (Suc k) xs"] k id_take_nth_drop [OF k(1)] by simp
qed

lemma is_queued_iff: "is_queued inp is \<longleftrightarrow> inp \<in> ids_of (waiting is)"
  by (auto simp: is_queued_def find_None_iff_ball waits_def image_iff)

lemma upd_id_other: "inp \<notin> ids_of is \<Longrightarrow> upd_id inp f is = is"
  unfolding upd_id_def by (rule map_idI) auto

lemma drop_id_other: "inp \<notin> ids_of is \<Longrightarrow> drop_id inp is = is"
  unfolding drop_id_def by (rule filter_True) auto

lemma waiting_queued_mut:
  assumes "distinct_ids is" "\<And>i. qi_state (f i) = qi_state i"
  shows "waiting (queued_mut inp f is) = upd_id inp f (waiting is)"
  using assms(1)
proof (induction "is")
  case (Cons x xs)
  have "waits inp x \<Longrightarrow> upd_id inp f (waiting xs) = waiting xs"
    using Cons.prems by (intro upd_id_other) (auto simp: waits_def)
  then show ?case using Cons assms(2) by (auto simp: queued_mut_def waits_def upd_id_def)
qed (simp add: queued_mut_def upd_id_def)

lemma settled_queued_mut:
  assumes "\<And>i. qi_state (f i) = qi_state i" "\<And>i. qi_input_id (f i) = qi_input_id i"
  shows "settled (queued_mut inp f is) = settled is"
proof (induction "is")
  case (Cons x xs)
  then show ?case using assms by (auto simp: queued_mut_def waits_def)
qed (simp add: queued_mut_def)

lemma settle_queued_mut:
  assumes "distinct_ids is" "\<And>i. qi_state (f i) \<noteq> Queued" "\<And>i. qi_input_id (f i) = qi_input_id i"
  shows "waiting (queued_mut inp f is) = drop_id inp (waiting is)"
    "settled (queued_mut inp f is) = settled is \<union> ({inp} \<inter> ids_of (waiting is))"
proof -
  have "waiting (queued_mut inp f is) = drop_id inp (waiting is)
    \<and> settled (queued_mut inp f is) = settled is \<union> ({inp} \<inter> ids_of (waiting is))"
    using assms(1)
  proof (induction "is")
    case (Cons x xs)
    have drop: "waits inp x \<Longrightarrow> inp \<notin> ids_of (waiting xs)" "waits inp x \<Longrightarrow> drop_id inp (waiting xs) = waiting xs"
      using Cons.prems by (auto simp: waits_def intro!: drop_id_other)
    show ?case
    proof (cases "waits inp x")
      case True
      then have "settled (f x # xs) = insert inp (settled xs)" using assms(2,3) by (simp add: waits_def)
      then show ?thesis using Cons True assms(2) drop by (simp add: queued_mut_def waits_def drop_id_def insert_commute)
    next
      case False
      then show ?thesis using Cons by (auto simp: queued_mut_def waits_def drop_id_def)
    qed
  qed (simp add: queued_mut_def drop_id_def)
  then show "waiting (queued_mut inp f is) = drop_id inp (waiting is)"
    "settled (queued_mut inp f is) = settled is \<union> ({inp} \<inter> ids_of (waiting is))" by blast+
qed

text \<open>Both ways of moving an input are one insertion of the waiting inputs.\<close>

lemma waiting_insert:
  assumes "\<forall>c \<in> set C. qi_state c = Queued \<longrightarrow> \<not> p c" "qi_state y = Queued" "p y" "qi_state x = Queued"
  shows "waiting (C @ x # y # D) =
    takeWhile (\<lambda>i. \<not> p i) (waiting (C @ y # D)) @ x # dropWhile (\<lambda>i. \<not> p i) (waiting (C @ y # D))"
proof -
  have "\<forall>c \<in> set (waiting C). \<not> p c" using assms(1) by auto
  then have "takeWhile (\<lambda>i. \<not> p i) (waiting C @ y # waiting D) = waiting C"
    "dropWhile (\<lambda>i. \<not> p i) (waiting C @ y # waiting D) = y # waiting D"
    using assms(3) by (auto simp: takeWhile_append dropWhile_append)
  then show ?thesis using assms(2-4) by simp
qed

lemma put_before_split:
  assumes "distinct_ids (A @ x # B)" "qi_state x = Queued" "qi_input_id x = inp"
  shows "put_before p inp (waiting (A @ x # B)) =
    takeWhile (\<lambda>i. \<not> p i) (waiting (A @ B)) @ x # dropWhile (\<lambda>i. \<not> p i) (waiting (A @ B))"
proof -
  have no: "inp \<notin> ids_of (waiting A)" "inp \<notin> ids_of (waiting B)" using assms by auto
  then have "drop_id inp (waiting A) = waiting A" "drop_id inp (waiting B) = waiting B"
    using drop_id_other by blast+
  moreover have "filter (\<lambda>i. qi_input_id i = inp) (waiting A) = []" "filter (\<lambda>i. qi_input_id i = inp) (waiting B) = []"
    using no by (auto simp: filter_empty_conv)
  ultimately show ?thesis using assms(2,3) by (simp add: put_before_def Let_def drop_id_def)
qed

definition place :: "(queue_item \<Rightarrow> bool) \<Rightarrow> queue_item \<Rightarrow> queue_item list \<Rightarrow> queue_item list" where
  "place p x rest = (case position (\<lambda>i. qi_state i = Queued \<and> p i) rest of
     Some j \<Rightarrow> insert_at j x rest | None \<Rightarrow> rest @ [x])"

lemma place_mset: "mset (place p x rest) = add_mset x (mset rest)"
proof (cases "position (\<lambda>i. qi_state i = Queued \<and> p i) rest")
  case (Some j)
  have "mset (take j rest) + mset (drop j rest) = mset rest" by (metis append_take_drop_id mset_append)
  then show ?thesis using Some by (simp add: place_def insert_at_def)
qed (simp add: place_def)

lemma waiting_place:
  assumes "distinct_ids (A @ x # B)" "qi_state x = Queued" "qi_input_id x = inp"
  shows "waiting (place p x (A @ B)) = put_before p inp (waiting (A @ x # B))"
proof (cases "position (\<lambda>i. qi_state i = Queued \<and> p i) (A @ B)")
  case None
  then have "\<forall>i \<in> set (waiting (A @ B)). \<not> p i" by (auto simp: position_None)
  then have "takeWhile (\<lambda>i. \<not> p i) (waiting (A @ B)) = waiting (A @ B)"
    "dropWhile (\<lambda>i. \<not> p i) (waiting (A @ B)) = []"
    by (auto simp: takeWhile_eq_all_conv)
  then have "put_before p inp (waiting (A @ x # B)) = waiting (A @ B) @ [x]"
    unfolding put_before_split [OF assms] by metis
  then show ?thesis using None assms(2) by (simp add: place_def)
next
  case (Some j)
  from position_obtain [OF Some] obtain C y D where split: "A @ B = C @ y # D" "length C = j"
    and y: "qi_state y = Queued" "p y" and C: "\<forall>c \<in> set C. \<not> (qi_state c = Queued \<and> p c)" by metis
  have "place p x (A @ B) = C @ x # y # D"
    using Some split by (simp add: place_def insert_at_def)
  then show ?thesis
    unfolding put_before_split [OF assms] split(1) using waiting_insert [of C p y x D] C y assms(2) by simp
qed

lemma at_id:
  assumes "distinct_ids is" "inp \<in> ids_of (waiting is)"
  obtains A x B where "is = A @ x # B" "qi_state x = Queued" "qi_input_id x = inp"
    "position (\<lambda>i. qi_input_id i = inp) is = Some (length A)" "inp \<notin> ids_of (A @ B)"
proof -
  obtain x where x: "x \<in> set is" "qi_state x = Queued" "qi_input_id x = inp" using assms(2) by auto
  then obtain A B where split: "is = A @ x # B" by (metis split_list)
  then have no: "inp \<notin> ids_of (A @ B)" using assms(1) x(3) by auto
  have "position (\<lambda>i. qi_input_id i = inp) is = Some (length A)"
    unfolding position_Some split using x no by (auto simp: nth_append image_iff) (metis UnI1 nth_mem)
  then show ?thesis using that split x no by blast
qed

text \<open>Moving keeps the inputs and places the moved one in the line.\<close>

lemma move_before_place:
  assumes "distinct_ids is" "inp \<in> ids_of (waiting is)"
  shows "waiting (move_before inp before is) =
      put_before (\<lambda>i. before \<noteq> [] \<and> qi_input_id i = before) inp (waiting is)"
    "mset (move_before inp before is) = mset is"
proof -
  obtain A x B where x: "is = A @ x # B" "qi_state x = Queued" "qi_input_id x = inp"
      "position (\<lambda>i. qi_input_id i = inp) is = Some (length A)" "inp \<notin> ids_of (A @ B)"
    using at_id [OF assms] by blast
  let ?p = "\<lambda>i. before \<noteq> [] \<and> qi_input_id i = before"
  have "(if before = [] \<or> before = inp then None else position (waits before) (A @ B)) =
      position (\<lambda>i. qi_state i = Queued \<and> ?p i) (A @ B)"
  proof (cases "before = [] \<or> before = inp")
    case True
    then have "position (\<lambda>i. qi_state i = Queued \<and> ?p i) (A @ B) = None"
      using x(5) by (auto simp: position_None)
    then show ?thesis using True by simp
  next
    case False
    have "waits before = (\<lambda>i. qi_state i = Queued \<and> ?p i)" using False by (auto simp: waits_def)
    then show ?thesis using False by simp
  qed
  then have "move_before inp before is = place ?p x (A @ B)"
    using x by (simp add: move_before_def place_def remove_at_def Let_def)
  then show "waiting (move_before inp before is) = put_before ?p inp (waiting is)"
    "mset (move_before inp before is) = mset is"
    using waiting_place [of A x B] place_mset assms(1) x by auto
qed

lemma promote_place:
  assumes "distinct_ids is" "inp \<in> ids_of (waiting is)"
  shows "waiting (promote inp is) = put_before (\<lambda>i. \<not> qi_sent_now i) inp (waiting is)"
    "mset (promote inp is) = mset is"
proof -
  obtain A x B where x: "is = A @ x # B" "qi_state x = Queued" "qi_input_id x = inp"
      "position (\<lambda>i. qi_input_id i = inp) is = Some (length A)" "inp \<notin> ids_of (A @ B)"
    using at_id [OF assms] by blast
  have "promote inp is = place (\<lambda>i. \<not> qi_sent_now i) x (A @ B)"
    using x by (simp add: promote_def place_def remove_at_def Let_def)
  then show "waiting (promote inp is) = put_before (\<lambda>i. \<not> qi_sent_now i) inp (waiting is)"
    "mset (promote inp is) = mset is"
    using waiting_place [of A x B] place_mset assms(1) x by auto
qed

lemma same_inputs:
  assumes "mset js = mset is"
  shows "settled js = settled is" "ids_of js = ids_of is" "distinct_ids js = distinct_ids is"
proof -
  show "settled js = settled is" "ids_of js = ids_of is" using mset_eq_setD [OF assms] by auto
  show "distinct_ids js = distinct_ids is"
    using assms by (metis mset_eq_imp_distinct_iff mset_map)
qed

text \<open>The first of the smallest is the head of the stable sort.\<close>

definition first_min :: "('a \<Rightarrow> nat) \<Rightarrow> 'a \<Rightarrow> 'a list \<Rightarrow> 'a" where
  "first_min f x xs = foldl (\<lambda>b y. if f y < f b then y else b) x xs"

lemma first_min_sort: "first_min f x xs = hd (sort_key f (x # xs))"
proof (induction xs arbitrary: x)
  case (Cons y ys)
  have hd_insort: "hd (insort_key f a bs) = (if bs = [] \<or> f a \<le> f (hd bs) then a else hd bs)" for a bs
    by (cases bs) auto
  have y: "first_min f y ys = hd (sort_key f (y # ys))" and x: "first_min f x ys = hd (sort_key f (x # ys))"
    using Cons by blast+
  have "first_min f x (y # ys) = first_min f (if f y < f x then y else x) ys" by (simp add: first_min_def)
  then show ?case using x y by (auto simp: hd_insort insort_not_Nil split: if_splits)
qed (simp add: first_min_def)

lemma foldl_index:
  "xs ! foldl (\<lambda>b j. if f (xs ! j) < f (xs ! b) then j else b) k ks = first_min f (xs ! k) (map ((!) xs) ks)
   \<and> foldl (\<lambda>b j. if f (xs ! j) < f (xs ! b) then j else b) k ks \<in> set (k # ks)"
proof (induction ks arbitrary: k)
  case (Cons j ks)
  then show ?case using Cons [of j] Cons [of k] by (auto simp: first_min_def)
qed (simp add: first_min_def)

lemma filter_index: "map ((!) xs) (filter (\<lambda>k. P (xs ! k)) [0..<length xs]) = filter P xs"
  by (metis (no_types, lifting) filter_map map_nth comp_apply filter_cong)

lemma oldest_queued_spec:
  "case oldest_queued is of None \<Rightarrow> waiting is = []
   | Some k \<Rightarrow> k < length is \<and> qi_state (is ! k) = Queued \<and> take 1 (sort_key qi_queued_offset (waiting is)) = [is ! k]"
proof (cases "filter (\<lambda>k. qi_state (is ! k) = Queued) [0..<length is]")
  case Nil
  then show ?thesis using filter_index [where xs = "is" and P = "\<lambda>i. qi_state i = Queued"]
    by (simp add: oldest_queued_def)
next
  case (Cons k ks)
  let ?m = "foldl (\<lambda>b j. if qi_queued_offset (is ! j) < qi_queued_offset (is ! b) then j else b) k ks"
  have w: "waiting is = is ! k # map ((!) is) ks"
    using filter_index [where xs = "is" and P = "\<lambda>i. qi_state i = Queued"] by (simp add: Cons)
  have m: "?m \<in> set (filter (\<lambda>k. qi_state (is ! k) = Queued) [0..<length is])"
    and "is ! ?m = first_min qi_queued_offset (is ! k) (map ((!) is) ks)"
    using foldl_index [of "is" qi_queued_offset k ks] unfolding Cons by blast+
  then have "is ! ?m = hd (sort_key qi_queued_offset (waiting is))" unfolding w first_min_sort by simp
  moreover have "sort_key qi_queued_offset (waiting is) \<noteq> []" using w by (metis length_sort list.distinct(1) length_0_conv)
  ultimately have "take 1 (sort_key qi_queued_offset (waiting is)) = [is ! ?m]"
    by (cases "sort_key qi_queued_offset (waiting is)") auto
  moreover have "?m < length is" "qi_state (is ! ?m) = Queued" using m by simp_all
  ultimately show ?thesis by (simp add: oldest_queued_def Cons)
qed

lemma ids_queued_mut: "(\<And>i. qi_input_id (f i) = qi_input_id i) \<Longrightarrow>
    map qi_input_id (queued_mut inp f is) = map qi_input_id is"
  by (simp add: queued_mut_def map_upd_first)

lemma dispatch_fields [simp]: "qi_input_id (dispatch off i) = qi_input_id i" "qi_state (dispatch off i) \<noteq> Queued"
  by (simp_all add: dispatch_def)

lemma steer_ids:
  assumes "distinct_ids is"
  shows "map qi_input_id (steer offset ids is) = map qi_input_id is"
    "waiting (steer offset ids is) = filter (\<lambda>i. qi_input_id i \<notin> set ids) (waiting is)"
    "settled (steer offset ids is) = settled is \<union> (set ids \<inter> ids_of (waiting is))"
proof -
  have "map qi_input_id (steer offset ids is) = map qi_input_id is
    \<and> waiting (steer offset ids is) = filter (\<lambda>i. qi_input_id i \<notin> set ids) (waiting is)
    \<and> settled (steer offset ids is) = settled is \<union> (set ids \<inter> ids_of (waiting is))"
    using assms
  proof (induction ids arbitrary: "is")
    case (Cons inp ids)
    let ?is = "queued_mut inp (dispatch offset) is"
    have ids: "map qi_input_id ?is = map qi_input_id is" by (rule ids_queued_mut) simp
    then have "distinct_ids ?is" using Cons.prems by simp
    note IH = Cons.IH [OF this]
    note settle = settle_queued_mut [OF Cons.prems, of "dispatch offset" inp, simplified]
    have "steer offset (inp # ids) is = steer offset ids ?is" by (simp add: steer_def)
    then show ?case using IH settle ids by (auto simp: drop_id_def)
  qed (auto simp: steer_def)
  then show "map qi_input_id (steer offset ids is) = map qi_input_id is"
    "waiting (steer offset ids is) = filter (\<lambda>i. qi_input_id i \<notin> set ids) (waiting is)"
    "settled (steer offset ids is) = settled is \<union> (set ids \<inter> ids_of (waiting is))" by blast+
qed

lemma update_waiting:
  fixes "is" :: "queue_item list" and offset k :: nat
  assumes "distinct_ids is" "k < length is" "qi_state (is ! k) = Queued"
  defines "js \<equiv> is[k := dispatch offset (is ! k)]"
  shows "map qi_input_id js = map qi_input_id is"
    "waiting js = drop_id (qi_input_id (is ! k)) (waiting is)"
    "settled js = insert (qi_input_id (is ! k)) (settled is)"
proof -
  let ?A = "take k is" and ?x = "is ! k" and ?B = "drop (Suc k) is"
  have split: "is = ?A @ ?x # ?B" by (rule id_take_nth_drop [OF assms(2)])
  have js: "js = ?A @ dispatch offset ?x # ?B" using assms(2) by (simp add: js_def upd_conv_take_nth_drop)
  have "distinct_ids (?A @ ?x # ?B)" using assms(1) split by simp
  then have no: "qi_input_id ?x \<notin> ids_of (waiting ?A)" "qi_input_id ?x \<notin> ids_of (waiting ?B)" by auto
  show "map qi_input_id js = map qi_input_id is"
    unfolding js by (subst (4) split) simp
  have "waiting is = waiting ?A @ ?x # waiting ?B" by (subst split) (simp add: assms(3))
  then show "waiting js = drop_id (qi_input_id ?x) (waiting is)"
    unfolding js using drop_id_other [OF no(1)] drop_id_other [OF no(2)] by (simp add: drop_id_def)
  have "settled is = settled ?A \<union> settled ?B" by (subst split) (auto simp: assms(3))
  then show "settled js = insert (qi_input_id ?x) (settled is)" unfolding js by auto
qed

section \<open>Refinement\<close>

definition iq_ok :: "input_queue \<Rightarrow> bool" where
  "iq_ok q \<longleftrightarrow> distinct_ids (iq_items q)"

text \<open>The records the fold ignores.\<close>

lemma iq_apply_cases:
  obtains (behavior) w n where "e = SendBehaviorSet w n"
  | (queued) inp m t p u where "e = TaskInputQueued inp m t p u"
  | (edited) inp t m md where "e = TaskInputEdited inp t m md"
  | (removed) inp r where "e = TaskInputRemoved inp r"
  | (reordered) inp b where "e = TaskInputReordered inp b"
  | (interrupt) i k inp r where "e = TaskInterruptRequested i k inp r"
  | (applied) i a b c d n where "e = TaskInterruptApplied i a b c d n"
  | (steered) a b c ids where "e = TaskSteered a b c ids"
  | (other) "\<And>q off. iq_apply q off e = q" "\<And>l off. line_apply l off e = l"
  by (cases e) auto

lemma moved_distinct:
  assumes "mset js = mset is" "\<And>i. qi_input_id (f i) = qi_input_id i"
  shows "distinct_ids (queued_mut inp f js) = distinct_ids is"
  using same_inputs(3) [OF assms(1)] ids_queued_mut [of f inp js] assms(2) by simp

lemma iq_apply_ok:
  assumes "iq_ok q"
  shows "iq_ok (iq_apply q offset e)"
proof -
  have d: "distinct_ids (iq_items q)" using assms by (simp add: iq_ok_def)
  show ?thesis
  proof (cases e rule: iq_apply_cases)
    case (queued inp m t p u)
    then show ?thesis using d by (auto simp: iq_ok_def new_item_def)
  next
    case (reordered inp b)
    then show ?thesis using d move_before_place(2) [OF d]
      by (auto simp: iq_ok_def is_queued_iff moved_distinct)
  next
    case (interrupt i k inp r)
    then show ?thesis using d promote_place(2) [OF d]
      by (auto simp: iq_ok_def is_queued_iff moved_distinct Let_def)
  next
    case (steered a b c ids)
    let ?js = "case oldest_queued (iq_items q) of None \<Rightarrow> iq_items q
      | Some k \<Rightarrow> (iq_items q)[k := dispatch offset (iq_items q ! k)]"
    have "distinct_ids ?js"
      using oldest_queued_spec [of "iq_items q"] update_waiting(1) [OF d] d by (auto split: option.splits)
    then show ?thesis using steered d steer_ids(1) by (simp add: iq_ok_def Let_def)
  qed (use d in \<open>simp_all add: iq_ok_def ids_queued_mut edit_item_def\<close>)
qed

lemma line_of_items:
  "line_of (q\<lparr>iq_items := is\<rparr>) = (line_of q)\<lparr>ln_waiting := waiting is, ln_settled := settled is\<rparr>"
  by (simp add: line_of_def pending_def)

lemma line_of_fields [simp]:
  "ln_waiting (line_of q) = waiting (iq_items q)" "ln_settled (line_of q) = settled (iq_items q)"
  by (simp_all add: line_of_def pending_def)

lemma put_before_other:
  assumes "inp \<notin> ids_of is"
  shows "upd_id inp f (put_before p inp is) = is"
proof -
  have "filter (\<lambda>i. qi_input_id i = inp) is = []" using assms by (auto simp: filter_empty_conv)
  then have "put_before p inp is = is"
    by (simp add: put_before_def Let_def drop_id_other [OF assms])
  then show ?thesis using upd_id_other [OF assms] by simp
qed

lemma line_moved:
  assumes "distinct_ids (iq_items q)" "waiting js = put_before p inp (waiting (iq_items q))"
    "mset js = mset (iq_items q)"
    "\<And>i. qi_state (f i) = qi_state i" "\<And>i. qi_input_id (f i) = qi_input_id i"
  shows "line_of (q\<lparr>iq_items := queued_mut inp f js\<rparr>) =
    (line_of q)\<lparr>ln_waiting := upd_id inp f (put_before p inp (waiting (iq_items q)))\<rparr>"
proof -
  have d: "distinct_ids js" using same_inputs(3) [OF assms(3)] assms(1) by simp
  show ?thesis
    unfolding line_of_items waiting_queued_mut [OF d assms(4)] settled_queued_mut [of f, OF assms(4,5)]
      same_inputs(1) [OF assms(3)] assms(2)
    by (simp add: line_of_def)
qed

lemma line_steered:
  assumes "distinct_ids (iq_items q)"
  shows "line_of (iq_apply q offset (TaskSteered a b c ids)) = line_apply (line_of q) offset (TaskSteered a b c ids)"
proof (cases "ids = []")
  case False
  have "filter (\<lambda>i. qi_input_id i \<notin> set ids \<inter> ids_of (waiting (iq_items q))) (waiting (iq_items q)) =
      filter (\<lambda>i. qi_input_id i \<notin> set ids) (waiting (iq_items q))" by (rule filter_cong) auto
  moreover have step: "iq_apply q offset (TaskSteered a b c ids) = q\<lparr>iq_items := steer offset ids (iq_items q)\<rparr>"
    using False by simp
  ultimately show ?thesis using False
    unfolding step line_of_items steer_ids(2,3) [OF assms] by (simp add: Let_def)
next
  case True
  let ?is = "iq_items q"
  let ?old = "take 1 (sort_key qi_queued_offset (waiting ?is))"
  show ?thesis
  proof (cases "oldest_queued ?is")
    case None
    then have "waiting ?is = []" using oldest_queued_spec [of ?is] by simp
    then show ?thesis using None True by (simp add: steer_def line_of_def pending_def)
  next
    case (Some k)
    have k: "k < length ?is" "qi_state (?is ! k) = Queued" "?old = [?is ! k]"
      using oldest_queued_spec [of ?is] unfolding Some by simp_all
    have step: "iq_apply q offset (TaskSteered a b c ids) = q\<lparr>iq_items := ?is[k := dispatch offset (?is ! k)]\<rparr>"
      by (simp add: True Some steer_def)
    show ?thesis
      unfolding step line_of_items update_waiting(2,3) [OF assms k(1,2)]
      by (simp add: True k(3) [simplified] drop_id_def Let_def)
  qed
qed

lemma line_interrupted:
  assumes d: "distinct_ids (iq_items q)"
  shows "line_of (iq_apply q offset (TaskInterruptRequested i k inp r)) =
    line_apply (line_of q) offset (TaskInterruptRequested i k inp r)"
proof (cases "\<exists>r \<in> set (iq_interrupts q). ir_interrupt_id r = i")
  case True
  then have "i \<in> ln_interrupts (line_of q)" by (auto simp: line_of_def)
  then show ?thesis using True by simp
next
  case False
  define q1 where "q1 = q\<lparr>iq_interrupts := iq_interrupts q @ [\<lparr>ir_interrupt_id = i, ir_kind = k,
    ir_input_id = inp, ir_requested_offset = offset, ir_applied = False\<rparr>]\<rparr>"
  have fresh: "i \<notin> ln_interrupts (line_of q)" using False by (auto simp: line_of_def)
  have q1: "line_of q1 = (line_of q)\<lparr>ln_interrupts := insert i (ln_interrupts (line_of q))\<rparr>"
    "iq_items q1 = iq_items q" by (simp_all add: q1_def line_of_def pending_def)
  have same1: "line_of q1 = (line_of q1)\<lparr>ln_waiting := waiting (iq_items q)\<rparr>"
    unfolding q1(1) by (simp add: line_of_def pending_def)
  let ?f = "\<lambda>j :: queue_item. j\<lparr>qi_sent_now := True, qi_changed_offset := offset\<rparr>"
  have new: "iq_apply q offset (TaskInterruptRequested i k inp r) = (if k = ''SEND_NOW'' \<and> is_queued inp (iq_items q)
      then q1\<lparr>iq_items := queued_mut inp ?f (promote inp (iq_items q))\<rparr> else q1)"
    using False by (simp add: q1_def Let_def)
  have spec: "line_apply (line_of q) offset (TaskInterruptRequested i k inp r) = (if k = ''SEND_NOW''
      then (line_of q1)\<lparr>ln_waiting := upd_id inp ?f (put_before (\<lambda>i. \<not> qi_sent_now i) inp (waiting (iq_items q)))\<rparr>
      else line_of q1)"
    using fresh by (simp add: q1(1) Let_def)
  show ?thesis
  proof (cases "inp \<in> ids_of (waiting (iq_items q))")
    case True
    have "line_of (q1\<lparr>iq_items := queued_mut inp ?f (promote inp (iq_items q))\<rparr>) =
      (line_of q1)\<lparr>ln_waiting := upd_id inp ?f (put_before (\<lambda>i. \<not> qi_sent_now i) inp (waiting (iq_items q)))\<rparr>"
      using line_moved [of q1 "promote inp (iq_items q)", unfolded q1(2), OF d promote_place [OF d True]] by simp
    then show ?thesis unfolding new spec using True by (simp add: is_queued_iff)
  next
    case False
    show ?thesis unfolding new spec put_before_other [OF False] same1 [symmetric]
      using False by (simp add: is_queued_iff)
  qed
qed

lemma line_of_apply:
  assumes "iq_ok q"
  shows "line_of (iq_apply q offset e) = line_apply (line_of q) offset e"
proof -
  have d: "distinct_ids (iq_items q)" using assms by (simp add: iq_ok_def)
  have same: "line_of q = (line_of q)\<lparr>ln_waiting := waiting (iq_items q)\<rparr>" by (simp add: line_of_def pending_def)
  show ?thesis
  proof (cases e rule: iq_apply_cases)
    case (queued inp m t p u)
    have "ids_of (iq_items q) = ids_of (waiting (iq_items q)) \<union> settled (iq_items q)" by auto
    then show ?thesis using queued by (auto simp: line_of_items new_item_def)
  next
    case (edited inp t m md)
    have keeps: "\<And>i. qi_state (edit_item offset t m md i) = qi_state i"
      "\<And>i. qi_input_id (edit_item offset t m md i) = qi_input_id i" by (simp_all add: edit_item_def)
    show ?thesis
      unfolding edited iq_apply.simps line_of_items waiting_queued_mut [OF d keeps(1)]
        settled_queued_mut [of "edit_item offset t m md", OF keeps] by (simp add: line_of_def pending_def)
  next
    case (removed inp r)
    let ?f = "\<lambda>i :: queue_item. i\<lparr>qi_state := Removed, qi_changed_offset := offset\<rparr>"
    have settle: "waiting (queued_mut inp ?f (iq_items q)) = drop_id inp (waiting (iq_items q))"
      "settled (queued_mut inp ?f (iq_items q)) = settled (iq_items q) \<union> ({inp} \<inter> ids_of (waiting (iq_items q)))"
      using settle_queued_mut [OF d, of ?f inp] by simp_all
    show ?thesis
      unfolding removed iq_apply.simps line_of_items settle
      using drop_id_other [of inp "waiting (iq_items q)"] by (auto simp: line_of_def pending_def)
  next
    case (reordered inp b)
    show ?thesis
    proof (cases "inp \<in> ids_of (waiting (iq_items q))")
      case True
      then show ?thesis using line_moved [OF d move_before_place [OF d True]] reordered
        by (simp add: is_queued_iff)
    next
      case False
      then show ?thesis using reordered put_before_other [OF False] same by (simp add: is_queued_iff)
    qed
  next
    case (interrupt i k inp r)
    then show ?thesis using line_interrupted [OF d] by simp
  next
    case (steered a b c ids)
    then show ?thesis using line_steered [OF d] by simp
  qed (auto simp: line_of_def pending_def map_upd_first simp flip: set_map)
qed

abbreviation fold_record :: "input_queue \<Rightarrow> nat \<times> task_event \<Rightarrow> input_queue" where
  "fold_record q \<equiv> \<lambda>(offset, e). iq_apply q offset e"

abbreviation line_record :: "line \<Rightarrow> nat \<times> task_event \<Rightarrow> line" where
  "line_record l \<equiv> \<lambda>(offset, e). line_apply l offset e"

interpretation inputs: fold_refinement iq_ok line_of fold_record line_record
  by unfold_locales (auto simp: iq_apply_ok line_of_apply)

lemma iq_new_ok: "iq_ok iq_new" "line_of iq_new = \<lparr>ln_waiting = [], ln_settled = {}, ln_interrupts = {}\<rparr>"
  by (simp_all add: iq_ok_def iq_new_def line_of_def pending_def)

text \<open>C28: Folding any log gives the line the log describes: the inputs that wait, in dispatch order with
  their edits, are exactly those of a plain list on which each record queues, edits, removes, moves
  before another, moves to the front of those not sent now, or takes out what was dispatched; the
  settled ids are those removed or dispatched so far.\<close>

theorem queue_refines_line:
  "line_of (foldl fold_record iq_new log) =
     foldl line_record \<lparr>ln_waiting = [], ln_settled = {}, ln_interrupts = {}\<rparr> log"
  using inputs.fold_refines [OF iq_new_ok(1), of log] unfolding iq_new_ok(2) .

section \<open>A settled input stays as it is\<close>

lemma find_by_id:
  "i \<in> set is \<Longrightarrow> distinct_ids is \<Longrightarrow> qi_input_id i = inp \<Longrightarrow> find (\<lambda>j. qi_input_id j = inp) is = Some i"
  by (induction "is") auto

lemma in_queued_mut: "i \<in> set is \<Longrightarrow> qi_state i \<noteq> Queued \<Longrightarrow> i \<in> set (queued_mut inp f is)"
  unfolding queued_mut_def by (induction "is") (auto simp: waits_def)

lemma in_steer: "i \<in> set is \<Longrightarrow> qi_state i \<noteq> Queued \<Longrightarrow> i \<in> set (steer offset ids is)"
  unfolding steer_def by (induction ids arbitrary: "is") (auto intro: in_queued_mut)

lemma in_update:
  assumes "i \<in> set is" "qi_state i \<noteq> Queued" "k < length is" "qi_state (is ! k) = Queued"
  shows "i \<in> set (is[k := x])"
proof -
  obtain j where "j < length is" "is ! j = i" using assms(1) by (auto simp: in_set_conv_nth)
  moreover from this have "j \<noteq> k" using assms(2,4) by auto
  ultimately show ?thesis by (metis length_list_update nth_list_update_neq nth_mem)
qed

lemma settled_kept:
  assumes "iq_ok q" "i \<in> set (iq_items q)" "qi_state i \<noteq> Queued"
  shows "i \<in> set (iq_items (iq_apply q offset e))"
proof -
  have d: "distinct_ids (iq_items q)" using assms(1) by (simp add: iq_ok_def)
  show ?thesis
  proof (cases e rule: iq_apply_cases)
    case (reordered inp b)
    then show ?thesis using assms mset_eq_setD [OF move_before_place(2) [OF d]]
      by (auto simp: is_queued_iff intro!: in_queued_mut)
  next
    case (interrupt n k inp r)
    then show ?thesis using assms mset_eq_setD [OF promote_place(2) [OF d]]
      by (auto simp: is_queued_iff Let_def intro!: in_queued_mut)
  next
    case (steered a b c ids)
    then show ?thesis using assms oldest_queued_spec [of "iq_items q"]
      by (auto simp: Let_def intro!: in_steer in_update split: option.splits)
  qed (use assms in \<open>auto intro: in_queued_mut\<close>)
qed

text \<open>C29: Once the log has removed or dispatched an input, no later record changes it: whatever follows,
  asking for it by its id returns the same input with the same text, mode and outcome, so it is
  dispatched at most once and a repeated queueing of the id adds nothing.\<close>

theorem settled_input_final:
  assumes "iq_get (foldl fold_record iq_new log) inp = Some i" "qi_state i \<noteq> Queued"
  shows "iq_get (foldl fold_record iq_new (log @ later)) inp = Some i"
proof -
  let ?q = "foldl fold_record iq_new log" and ?r = "foldl fold_record iq_new (log @ later)"
  have i: "i \<in> set (iq_items ?q)" "qi_input_id i = inp"
    using find_SomeD [OF assms(1) [unfolded iq_get_def]] by auto
  have "i \<in> set (iq_items (foldl fold_record q later))" if "iq_ok q" "i \<in> set (iq_items q)" for q
    using that
  proof (induction later arbitrary: q)
    case (Cons e later)
    then show ?case using settled_kept [of q i "fst e" "snd e"] inputs.keeps [of q e] assms(2)
      by (auto simp: case_prod_unfold)
  qed simp
  then have "i \<in> set (iq_items ?r)" using i(1) inputs.fold_inv [OF iq_new_ok(1), of log] by simp
  moreover have "distinct_ids (iq_items ?r)"
    using inputs.fold_inv [OF iq_new_ok(1), of "log @ later"] by (simp add: iq_ok_def)
  ultimately show ?thesis using i(2) unfolding iq_get_def by (rule find_by_id)
qed

definition sample_log :: "(nat \<times> task_event) list" where
  "sample_log = [(1, TaskInputQueued ''a'' FollowUp ''x'' [] False), (2, TaskInputQueued ''b'' Steer ''y'' [] False),
     (3, TaskInterruptRequested ''n'' ''SEND_NOW'' ''b'' []), (4, TaskSteered ''y'' [] False [''b''])]"

theorem settled_input_final_witness:
  "\<exists>i. qi_state i = Dispatched \<and> iq_get (foldl fold_record iq_new
      (sample_log @ [(5, TaskInputEdited ''b'' ''z'' None []), (6, TaskInputQueued ''b'' Steer ''w'' [] False)])) ''b'' = Some i"
proof -
  have "map_option qi_state (iq_get (foldl fold_record iq_new sample_log) ''b'') = Some Dispatched" by code_simp
  then obtain i where "iq_get (foldl fold_record iq_new sample_log) ''b'' = Some i" "qi_state i = Dispatched" by auto
  then show ?thesis using settled_input_final [of sample_log "''b''" i] by (metis item_state.distinct(1))
qed

end
