(* ===== verification/Config.thy ===== *)
theory Config
  imports Prelude Rust_Str "HOL-Library.List_Lexorder" "HOL-Library.Char_ord"
begin

text \<open>
  \<open>crates/policy/src/config.rs\<close>: the configuration layers of the machine, the organization, the
  project and the user, and their resolution with the provenance of every decision. The texts
  of overridden opinions and rejected widenings are constructors with the values they print.
  \<open>meet\<close> is the abstract configuration: what a resolved one decides, without provenance. The
  fold of the layers implements it, and the properties read it off: a lower authority tightens.
\<close>

section \<open>Layers\<close>

datatype authority = AuDevice | AuAdmin | AuProject | AuUser

fun authority_rank :: "authority \<Rightarrow> nat" where
  "authority_rank AuDevice = 0"
| "authority_rank AuAdmin = 1"
| "authority_rank AuProject = 2"
| "authority_rank AuUser = 3"

lemma authority_rank_inject [simp]: "authority_rank a = authority_rank b \<longleftrightarrow> a = b"
  by (cases a; cases b) simp_all

instantiation authority :: linorder
begin

definition less_eq_authority :: "authority \<Rightarrow> authority \<Rightarrow> bool" where
  "less_eq_authority a b \<longleftrightarrow> authority_rank a \<le> authority_rank b"

definition less_authority :: "authority \<Rightarrow> authority \<Rightarrow> bool" where
  "less_authority a b \<longleftrightarrow> authority_rank a < authority_rank b"

instance
  by standard (auto simp: less_eq_authority_def less_authority_def)

end

definition authority_ALL :: "authority list" where
  "authority_ALL = [AuDevice, AuAdmin, AuProject, AuUser]"

datatype permission = PmAllow | PmAsk | PmDeny

fun permission_rank :: "permission \<Rightarrow> nat" where
  "permission_rank PmAllow = 0"
| "permission_rank PmAsk = 1"
| "permission_rank PmDeny = 2"

lemma permission_rank_inject [simp]: "permission_rank a = permission_rank b \<longleftrightarrow> a = b"
  by (cases a; cases b) simp_all

instantiation permission :: linorder
begin

definition less_eq_permission :: "permission \<Rightarrow> permission \<Rightarrow> bool" where
  "less_eq_permission a b \<longleftrightarrow> permission_rank a \<le> permission_rank b"

definition less_permission :: "permission \<Rightarrow> permission \<Rightarrow> bool" where
  "less_permission a b \<longleftrightarrow> permission_rank a < permission_rank b"

instance
  by standard (auto simp: less_eq_permission_def less_permission_def)

end

record device_constraints =
  dc_sandbox_required :: "bool option"
  dc_telemetry :: "string option"
  dc_proxy :: "string option"
  dc_trust_roots :: "string list option"
  dc_update_channel :: "string option"
  dc_minimum_version :: "string option"

definition set_fields :: "device_constraints \<Rightarrow> string list" where
  "set_fields d =
     (if dc_sandbox_required d \<noteq> None then [''sandbox_required''] else [])
   @ (if dc_telemetry d \<noteq> None then [''telemetry''] else [])
   @ (if dc_proxy d \<noteq> None then [''proxy''] else [])
   @ (if dc_trust_roots d \<noteq> None then [''trust_roots''] else [])
   @ (if dc_update_channel d \<noteq> None then [''update_channel''] else [])
   @ (if dc_minimum_version d \<noteq> None then [''minimum_version''] else [])"

record layer =
  ly_permissions :: "(string \<times> permission) list"
  ly_network_allow :: "string list option"
  ly_models_allow :: "string list option"
  ly_computer_apps_allow :: "string list option"
  ly_mcp_servers :: "(string \<times> string) list"
  ly_mcp_deny :: "string list"
  ly_hooks :: "string list"
  ly_rules :: "string list"
  ly_review_comment_authors :: "string list option"
  ly_device :: "device_constraints option"

section \<open>Resolved configuration\<close>

datatype overridden_why =
    TightenedBy permission authority permission
  | NarrowedBy authority
  | AlsoDefines authority string authority

record config_provenance =
  pv_decided_by :: authority
  pv_overridden :: "(authority \<times> overridden_why) list"

record 'a resolved =
  rs_value :: 'a
  rs_provenance :: config_provenance

datatype widening =
    WidenPermission authority string permission permission authority
  | AddEntries authority string "string list" authority
  | AddDeniedServer authority string authority
  | RemoveServer authority string authority
  | SetDevice authority string
  | NameAuthors authority "string list"
  | AddAuthors authority "string list" authority

record resolved_config =
  rc_permissions :: "(string \<times> permission resolved) list"
  rc_network_allow :: "string list resolved option"
  rc_models_allow :: "string list resolved option"
  rc_computer_apps_allow :: "string list resolved option"
  rc_mcp_servers :: "(string \<times> string resolved) list"
  rc_hooks :: "string resolved list"
  rc_rules :: "string resolved list"
  rc_review_comment_authors :: "string list resolved option"
  rc_device :: "device_constraints resolved option"
  rc_rejected_widenings :: "widening list"

definition config_default :: resolved_config where
  "config_default = \<lparr>rc_permissions = [], rc_network_allow = None, rc_models_allow = None,
     rc_computer_apps_allow = None, rc_mcp_servers = [], rc_hooks = [], rc_rules = [],
     rc_review_comment_authors = None, rc_device = None, rc_rejected_widenings = []\<rparr>"

definition decided :: "authority \<Rightarrow> 'a \<Rightarrow> 'a resolved" where
  "decided level v = \<lparr>rs_value = v, rs_provenance = \<lparr>pv_decided_by = level, pv_overridden = []\<rparr>\<rparr>"

definition decided_by :: "'a resolved \<Rightarrow> authority" where
  "decided_by r = pv_decided_by (rs_provenance r)"

text \<open>Replace the value: the deciding layer is recorded as overridden, with why.\<close>

definition redecide :: "authority \<Rightarrow> overridden_why \<Rightarrow> 'a \<Rightarrow> 'a resolved \<Rightarrow> 'a resolved" where
  "redecide level why v r = \<lparr>rs_value = v, rs_provenance = \<lparr>pv_decided_by = level,
     pv_overridden = pv_overridden (rs_provenance r) @ [(decided_by r, why)]\<rparr>\<rparr>"

definition reject :: "widening \<Rightarrow> resolved_config \<Rightarrow> resolved_config" where
  "reject w out = out\<lparr>rc_rejected_widenings := rc_rejected_widenings out @ [w]\<rparr>"

text \<open>The generation: the first 12 bytes of the digest of the configuration's JSON, in hex.\<close>

definition generation :: "(string \<Rightarrow> string) \<Rightarrow> (resolved_config \<Rightarrow> string) \<Rightarrow> resolved_config \<Rightarrow> string" where
  "generation sha256_hex to_json cfg = take 24 (sha256_hex (to_json cfg))"

definition permission_level :: "resolved_config \<Rightarrow> string \<Rightarrow> permission" where
  "permission_level c k = (case map_of (rc_permissions c) k of None \<Rightarrow> PmAllow | Some p \<Rightarrow> rs_value p)"

definition permission_changes :: "resolved_config \<Rightarrow> resolved_config \<Rightarrow> string list \<times> string list" where
  "permission_changes old new =
     (let keys = remdups (sort (map fst (rc_permissions old) @ map fst (rc_permissions new)))
      in (filter (\<lambda>k. permission_level new k > permission_level old k) keys,
          filter (\<lambda>k. permission_level new k < permission_level old k) keys))"

definition denied :: "resolved_config \<Rightarrow> string list" where
  "denied cfg = map fst (filter (\<lambda>(_, p). rs_value p = PmDeny) (rc_permissions cfg))"

section \<open>Resolution\<close>

definition apply_permission :: "authority \<Rightarrow> resolved_config \<Rightarrow> string \<times> permission \<Rightarrow> resolved_config" where
  "apply_permission level out e = (case e of (cap, decision) \<Rightarrow>
     (case map_of (rc_permissions out) cap of
        None \<Rightarrow> out\<lparr>rc_permissions := bt_insert cap (decided level decision) (rc_permissions out)\<rparr>
      | Some existing \<Rightarrow>
          if decision > rs_value existing then
            out\<lparr>rc_permissions := bt_insert cap
              (redecide level (TightenedBy (rs_value existing) level decision) decision existing)
              (rc_permissions out)\<rparr>
          else if decision < rs_value existing then
            reject (WidenPermission level cap (rs_value existing) decision (decided_by existing)) out
          else out))"

text \<open>The intersection law, for one field: the new value of the field, and what is rejected.\<close>

definition narrow ::
  "authority \<Rightarrow> (string list \<Rightarrow> authority \<Rightarrow> widening) \<Rightarrow> string list \<Rightarrow> string list resolved \<Rightarrow>
     string list resolved \<times> widening list" where
  "narrow level beyond mine existing =
     (let widened = filter (\<lambda>x. x \<notin> set (rs_value existing)) mine;
          narrowed = filter (\<lambda>x. x \<in> set mine) (rs_value existing)
      in (if narrowed \<noteq> rs_value existing then redecide level (NarrowedBy level) narrowed existing else existing,
          if widened \<noteq> [] then [beyond widened (decided_by existing)] else []))"

definition apply_allow ::
  "authority \<Rightarrow> string \<Rightarrow> string list option \<Rightarrow> string list resolved option \<Rightarrow>
     string list resolved option \<times> widening list" where
  "apply_allow level field mine target = (case mine of
     None \<Rightarrow> (target, [])
   | Some xs \<Rightarrow> (case target of
        None \<Rightarrow> (Some (decided level xs), [])
      | Some existing \<Rightarrow>
          (case narrow level (AddEntries level field) xs existing of (t, ws) \<Rightarrow> (Some t, ws))))"

definition apply_allows :: "authority \<Rightarrow> layer \<Rightarrow> resolved_config \<Rightarrow> resolved_config" where
  "apply_allows level ly out =
     (let (n, w1) = apply_allow level ''network'' (ly_network_allow ly) (rc_network_allow out);
          (m, w2) = apply_allow level ''models'' (ly_models_allow ly) (rc_models_allow out);
          (a, w3) = apply_allow level ''computer applications'' (ly_computer_apps_allow ly)
                      (rc_computer_apps_allow out)
      in out\<lparr>rc_network_allow := n, rc_models_allow := m, rc_computer_apps_allow := a,
             rc_rejected_widenings := rc_rejected_widenings out @ w1 @ w2 @ w3\<rparr>)"

definition mcp_denied_by :: "(authority \<Rightarrow> layer option) \<Rightarrow> authority \<Rightarrow> string \<Rightarrow> authority option" where
  "mcp_denied_by layers level name =
     find (\<lambda>l. case layers l of None \<Rightarrow> False | Some hl \<Rightarrow> name \<in> set (ly_mcp_deny hl))
       (takeWhile (\<lambda>l. l < level) authority_ALL)"

definition apply_server ::
  "(authority \<Rightarrow> layer option) \<Rightarrow> authority \<Rightarrow> resolved_config \<Rightarrow> string \<times> string \<Rightarrow> resolved_config" where
  "apply_server layers level out e = (case e of (name, endpoint) \<Rightarrow>
     (case mcp_denied_by layers level name of
        Some d \<Rightarrow> reject (AddDeniedServer level name d) out
      | None \<Rightarrow> (case map_of (rc_mcp_servers out) name of
          Some existing \<Rightarrow> out\<lparr>rc_mcp_servers := bt_insert name
            (existing\<lparr>rs_provenance := \<lparr>pv_decided_by = decided_by existing,
               pv_overridden = pv_overridden (rs_provenance existing)
                 @ [(level, AlsoDefines level name (decided_by existing))]\<rparr>\<rparr>)
            (rc_mcp_servers out)\<rparr>
        | None \<Rightarrow> out\<lparr>rc_mcp_servers := bt_insert name (decided level endpoint) (rc_mcp_servers out)\<rparr>)))"

definition apply_mcp_deny :: "authority \<Rightarrow> resolved_config \<Rightarrow> string \<Rightarrow> resolved_config" where
  "apply_mcp_deny level out name =
     (case map_of (rc_mcp_servers out) name of
        Some existing \<Rightarrow>
          if decided_by existing < level then reject (RemoveServer level name (decided_by existing)) out
          else out\<lparr>rc_mcp_servers := bt_remove name (rc_mcp_servers out)\<rparr>
      | None \<Rightarrow> out\<lparr>rc_mcp_servers := bt_remove name (rc_mcp_servers out)\<rparr>)"

definition apply_device :: "authority \<Rightarrow> layer \<Rightarrow> resolved_config \<Rightarrow> resolved_config" where
  "apply_device level ly out = (case ly_device ly of
     None \<Rightarrow> out
   | Some d \<Rightarrow> if level = AuDevice then out\<lparr>rc_device := Some (decided level d)\<rparr>
       else foldl (\<lambda>out field. reject (SetDevice level field) out) out (set_fields d))"

definition apply_authors :: "authority \<Rightarrow> layer \<Rightarrow> resolved_config \<Rightarrow> resolved_config" where
  "apply_authors level ly out = (case ly_review_comment_authors ly of
     None \<Rightarrow> out
   | Some xs \<Rightarrow> (case rc_review_comment_authors out of
        None \<Rightarrow> if level = AuAdmin
          then out\<lparr>rc_review_comment_authors := Some (decided level xs)\<rparr>
          else reject (NameAuthors level xs) out
      | Some existing \<Rightarrow>
          (case narrow level (AddAuthors level) xs existing of (t, ws) \<Rightarrow>
             out\<lparr>rc_review_comment_authors := Some t,
                 rc_rejected_widenings := rc_rejected_widenings out @ ws\<rparr>)))"

definition apply_layer ::
  "(authority \<Rightarrow> layer option) \<Rightarrow> resolved_config \<Rightarrow> authority \<Rightarrow> resolved_config" where
  "apply_layer layers out level = (case layers level of
     None \<Rightarrow> out
   | Some ly \<Rightarrow>
       (let out = foldl (apply_permission level) out (ly_permissions ly);
            out = apply_allows level ly out;
            out = foldl (apply_server layers level) out (ly_mcp_servers ly);
            out = foldl (apply_mcp_deny level) out (ly_mcp_deny ly);
            out = apply_device level ly out;
            out = apply_authors level ly out
        in out\<lparr>rc_hooks := rc_hooks out @ map (decided level) (ly_hooks ly),
               rc_rules := rc_rules out @ map (decided level) (ly_rules ly)\<rparr>))"

definition resolve :: "(authority \<Rightarrow> layer option) \<Rightarrow> resolved_config" where
  "resolve layers = foldl (apply_layer layers) config_default authority_ALL"

section \<open>What a resolved configuration decides\<close>

record meet =
  m_permission :: "string \<Rightarrow> permission option"
  m_network :: "string set option"
  m_models :: "string set option"
  m_apps :: "string set option"
  m_server :: "string \<Rightarrow> (string \<times> authority) option"
  m_authors :: "string set option"
  m_device :: "device_constraints option"
  m_hooks :: "string list"
  m_rules :: "string list"

definition set_of :: "string list resolved option \<Rightarrow> string set option" where
  "set_of r = map_option (\<lambda>x. set (rs_value x)) r"

definition meet_of :: "resolved_config \<Rightarrow> meet" where
  "meet_of out = \<lparr>
     m_permission = (\<lambda>c. map_option rs_value (map_of (rc_permissions out) c)),
     m_network = set_of (rc_network_allow out), m_models = set_of (rc_models_allow out),
     m_apps = set_of (rc_computer_apps_allow out),
     m_server = (\<lambda>n. map_option (\<lambda>r. (rs_value r, decided_by r)) (map_of (rc_mcp_servers out) n)),
     m_authors = set_of (rc_review_comment_authors out),
     m_device = map_option rs_value (rc_device out),
     m_hooks = map rs_value (rc_hooks out), m_rules = map rs_value (rc_rules out)\<rparr>"

text \<open>The first opinion stands, every further one is combined with it.\<close>

fun join_with :: "('a \<Rightarrow> 'a \<Rightarrow> 'a) \<Rightarrow> 'a option \<Rightarrow> 'a \<Rightarrow> 'a option" where
  "join_with f None x = Some x"
| "join_with f (Some a) x = Some (f a x)"

definition meet_sets :: "string list option \<Rightarrow> string set option \<Rightarrow> string set option" where
  "meet_sets mine s = (case mine of None \<Rightarrow> s | Some xs \<Rightarrow> join_with (\<inter>) s (set xs))"

definition opinions :: "string \<Rightarrow> (string \<times> 'v) list \<Rightarrow> 'v list" where
  "opinions c ps = map snd (filter (\<lambda>e. fst e = c) ps)"

definition add_server ::
  "(authority \<Rightarrow> layer option) \<Rightarrow> authority \<Rightarrow> (string \<times> string) list \<Rightarrow> string \<Rightarrow>
     (string \<times> authority) option \<Rightarrow> (string \<times> authority) option" where
  "add_server layers level ss n old =
     (if old = None \<and> mcp_denied_by layers level n = None
      then map_option (\<lambda>e. (e, level)) (map_of ss n) else old)"

definition deny_server ::
  "authority \<Rightarrow> string list \<Rightarrow> string \<Rightarrow> (string \<times> authority) option \<Rightarrow> (string \<times> authority) option" where
  "deny_server level ns n old = (case old of
     Some (e, a) \<Rightarrow> if n \<in> set ns \<and> \<not> a < level then None else Some (e, a)
   | None \<Rightarrow> None)"

definition meet_layer :: "(authority \<Rightarrow> layer option) \<Rightarrow> meet \<Rightarrow> authority \<Rightarrow> meet" where
  "meet_layer layers m level = (case layers level of
     None \<Rightarrow> m
   | Some ly \<Rightarrow> \<lparr>
       m_permission = (\<lambda>c. foldl (join_with max) (m_permission m c) (opinions c (ly_permissions ly))),
       m_network = meet_sets (ly_network_allow ly) (m_network m),
       m_models = meet_sets (ly_models_allow ly) (m_models m),
       m_apps = meet_sets (ly_computer_apps_allow ly) (m_apps m),
       m_server = (\<lambda>n. deny_server level (ly_mcp_deny ly) n
          (add_server layers level (ly_mcp_servers ly) n (m_server m n))),
       m_authors = (if m_authors m = None \<and> level \<noteq> AuAdmin then None
         else meet_sets (ly_review_comment_authors ly) (m_authors m)),
       m_device = (if level = AuDevice \<and> ly_device ly \<noteq> None then ly_device ly else m_device m),
       m_hooks = m_hooks m @ ly_hooks ly, m_rules = m_rules m @ ly_rules ly\<rparr>)"

section \<open>Resolution implements the meet\<close>

lemma decided_sel [simp]: "rs_value (decided l v) = v" "decided_by (decided l v) = l"
  by (simp_all add: decided_def decided_by_def)

lemma redecide_sel [simp]: "rs_value (redecide l w v r) = v" "decided_by (redecide l w v r) = l"
  by (simp_all add: redecide_def decided_by_def)

lemma decided_by_also [simp]:
  "decided_by (r\<lparr>rs_provenance := \<lparr>pv_decided_by = decided_by r, pv_overridden = ovr\<rparr>\<rparr>) = decided_by r"
  by (simp add: decided_by_def)

lemma meet_of_reject [simp]: "meet_of (reject w out) = meet_of out"
  by (simp add: meet_of_def reject_def)

lemma meet_of_apply_permission:
  "meet_of (apply_permission level out e) =
     (meet_of out)\<lparr>m_permission := (m_permission (meet_of out))
        (fst e := join_with max (m_permission (meet_of out) (fst e)) (snd e))\<rparr>"
proof -
  obtain cap d where e: "e = (cap, d)" by (cases e)
  show ?thesis
  proof (cases "map_of (rc_permissions out) cap")
    case None
    then show ?thesis by (auto simp: e apply_permission_def meet_of_def fun_eq_iff)
  next
    case (Some x)
    consider "d > rs_value x" | "d < rs_value x" | "d = rs_value x" by (rule linorder_cases)
    then show ?thesis
      by cases (use Some in \<open>auto simp: e apply_permission_def meet_of_def fun_eq_iff max_def reject_def\<close>)
  qed
qed

lemma meet_of_permissions:
  "meet_of (foldl (apply_permission level) out ps) =
     (meet_of out)\<lparr>m_permission := (\<lambda>c. foldl (join_with max) (m_permission (meet_of out) c) (opinions c ps))\<rparr>"
proof (induction ps arbitrary: out)
  case Nil
  show ?case by (simp add: opinions_def)
next
  case (Cons e ps)
  show ?case
    unfolding foldl_Cons Cons.IH by (simp add: meet_of_apply_permission opinions_def fun_eq_iff)
qed

lemma set_of_narrow:
  "set (rs_value (fst (narrow level b xs r))) = set (rs_value r) \<inter> set xs"
  by (auto simp: narrow_def Let_def filter_id_conv)

lemma set_of_apply_allow:
  "set_of (fst (apply_allow level field mine target)) = meet_sets mine (set_of target)"
  using set_of_narrow [of level "AddEntries level field" "the mine" "the target"]
  by (auto simp: apply_allow_def meet_sets_def set_of_def split: option.splits prod.splits)

lemma meet_of_allows:
  "meet_of (apply_allows level ly out) =
     (meet_of out)\<lparr>m_network := meet_sets (ly_network_allow ly) (m_network (meet_of out)),
        m_models := meet_sets (ly_models_allow ly) (m_models (meet_of out)),
        m_apps := meet_sets (ly_computer_apps_allow ly) (m_apps (meet_of out))\<rparr>"
  by (simp add: apply_allows_def meet_of_def split_beta Let_def set_of_apply_allow)

lemma meet_of_authors:
  "meet_of (apply_authors level ly out) =
     (meet_of out)\<lparr>m_authors := (if m_authors (meet_of out) = None \<and> level \<noteq> AuAdmin then None
         else meet_sets (ly_review_comment_authors ly) (m_authors (meet_of out)))\<rparr>"
proof (cases "ly_review_comment_authors ly")
  case None
  have same: "meet_of out = (meet_of out)\<lparr>m_authors := m_authors (meet_of out)\<rparr>" by simp
  with None show ?thesis
    by (cases "m_authors (meet_of out)") (simp_all add: apply_authors_def meet_sets_def)
next
  case (Some xs)
  have upd: "meet_of (out\<lparr>rc_review_comment_authors := r, rc_rejected_widenings := ws\<rparr>)
    = (meet_of out)\<lparr>m_authors := set_of r\<rparr>" for r ws
    by (simp add: meet_of_def)
  have upd1: "meet_of (out\<lparr>rc_review_comment_authors := r\<rparr>) = (meet_of out)\<lparr>m_authors := set_of r\<rparr>" for r
    by (simp add: meet_of_def)
  have m: "m_authors (meet_of out) = set_of (rc_review_comment_authors out)"
    by (simp add: meet_of_def)
  show ?thesis
  proof (cases "rc_review_comment_authors out")
    case None
    have "meet_of out = (meet_of out)\<lparr>m_authors := None\<rparr>"
      using None m by (cases "meet_of out") (simp add: set_of_def)
    with Some None show ?thesis
      by (cases "level = AuAdmin") (simp_all add: apply_authors_def meet_sets_def m upd1 set_of_def)
  next
    case (Some r)
    obtain t ws where n: "narrow level (AddAuthors level) xs r = (t, ws)" by fastforce
    with set_of_narrow [of level "AddAuthors level" xs r] have "set (rs_value t) = set (rs_value r) \<inter> set xs"
      by simp
    with \<open>ly_review_comment_authors ly = Some xs\<close> Some show ?thesis
      by (simp add: apply_authors_def n upd m meet_sets_def set_of_def)
  qed
qed

lemma meet_of_device:
  "meet_of (apply_device level ly out) =
     (meet_of out)\<lparr>m_device := (if level = AuDevice \<and> ly_device ly \<noteq> None then ly_device ly
        else m_device (meet_of out))\<rparr>"
proof -
  have rej: "meet_of (foldl (\<lambda>out f. reject (SetDevice level f) out) out fs) = meet_of out" for fs
    by (induction fs arbitrary: out) simp_all
  show ?thesis
  proof (cases "ly_device ly")
    case None
    then show ?thesis by (simp add: apply_device_def)
  next
    case (Some d)
    then show ?thesis
      by (cases "level = AuDevice") (simp add: apply_device_def meet_of_def, simp add: apply_device_def rej)
  qed
qed

lemma meet_of_apply_server:
  "meet_of (apply_server layers level out (n, e)) =
     (meet_of out)\<lparr>m_server := (m_server (meet_of out))
        (n := add_server layers level [(n, e)] n (m_server (meet_of out) n))\<rparr>"
  by (auto simp: apply_server_def meet_of_def reject_def fun_eq_iff add_server_def split: option.splits)

lemma meet_of_servers:
  "meet_of (foldl (apply_server layers level) out ss) =
     (meet_of out)\<lparr>m_server := (\<lambda>n. add_server layers level ss n (m_server (meet_of out) n))\<rparr>"
proof (induction ss arbitrary: out)
  case Nil
  have "add_server layers level [] n x = x" for n x
    by (simp add: add_server_def)
  then show ?case by simp
next
  case (Cons s ss)
  obtain n e where s: "s = (n, e)" by (cases s)
  have "add_server layers level ss n'
      (((m_server (meet_of out))(n := add_server layers level [(n, e)] n (m_server (meet_of out) n))) n')
    = add_server layers level (s # ss) n' (m_server (meet_of out) n')" for n'
    by (auto simp: add_server_def s)
  then show ?case
    unfolding foldl_Cons Cons.IH s meet_of_apply_server by simp
qed

lemma meet_of_apply_mcp_deny:
  "meet_of (apply_mcp_deny level out n) =
     (meet_of out)\<lparr>m_server := (m_server (meet_of out))
        (n := deny_server level [n] n (m_server (meet_of out) n))\<rparr>"
  by (auto simp: apply_mcp_deny_def meet_of_def reject_def fun_eq_iff deny_server_def split: option.splits)

lemma meet_of_denies:
  "meet_of (foldl (apply_mcp_deny level) out ns) =
     (meet_of out)\<lparr>m_server := (\<lambda>n. deny_server level ns n (m_server (meet_of out) n))\<rparr>"
proof (induction ns arbitrary: out)
  case Nil
  have "deny_server level [] n x = x" for n x
    by (auto simp: deny_server_def split: option.splits)
  then show ?case by simp
next
  case (Cons n ns)
  have "deny_server level ns n'
      (((m_server (meet_of out))(n := deny_server level [n] n (m_server (meet_of out) n))) n')
    = deny_server level (n # ns) n' (m_server (meet_of out) n')" for n'
    by (auto simp: deny_server_def split: option.splits)
  then show ?case
    unfolding foldl_Cons Cons.IH meet_of_apply_mcp_deny by simp
qed

lemma meet_of_apply_layer: "meet_of (apply_layer layers out level) = meet_layer layers (meet_of out) level"
proof (cases "layers level")
  case None
  then show ?thesis by (simp add: apply_layer_def meet_layer_def)
next
  case (Some ly)
  have tail: "meet_of (out\<lparr>rc_hooks := rc_hooks out @ map (decided level) hs, rc_rules := rc_rules out @ map (decided level) rs\<rparr>)
    = (meet_of out)\<lparr>m_hooks := m_hooks (meet_of out) @ hs, m_rules := m_rules (meet_of out) @ rs\<rparr>" for out hs rs
    by (simp add: meet_of_def comp_def)
  show ?thesis
    unfolding apply_layer_def Some option.case Let_def tail meet_of_authors meet_of_device meet_of_denies
      meet_of_servers meet_of_allows meet_of_permissions
    by (rule meet.equality; auto simp: meet_layer_def Some)
qed

interpretation config: fold_refinement "\<lambda>_. True" meet_of "apply_layer layers" "meet_layer layers" for layers
  by unfold_locales (simp_all add: meet_of_apply_layer)

lemma meet_of_resolve: "meet_of (resolve layers) = foldl (meet_layer layers) (meet_of config_default) authority_ALL"
  unfolding resolve_def by (rule config.fold_refines) simp

section \<open>The laws of resolution\<close>

text \<open>What the layers say: their permissions for a capability, and their lists of a field.\<close>

definition said_permissions :: "(authority \<Rightarrow> layer option) \<Rightarrow> string \<Rightarrow> permission set" where
  "said_permissions layers c = {d. \<exists>l ly. layers l = Some ly \<and> (c, d) \<in> set (ly_permissions ly)}"

definition said_sets :: "(layer \<Rightarrow> string list option) \<Rightarrow> (authority \<Rightarrow> layer option) \<Rightarrow> string set set" where
  "said_sets field layers = {set xs | xs. \<exists>l ly. layers l = Some ly \<and> field ly = Some xs}"

definition of_level :: "(layer \<Rightarrow> 'b list) \<Rightarrow> (authority \<Rightarrow> layer option) \<Rightarrow> authority \<Rightarrow> 'b list" where
  "of_level f layers l = (case layers l of None \<Rightarrow> [] | Some ly \<Rightarrow> f ly)"

definition sets_in :: "(layer \<Rightarrow> string list option) \<Rightarrow> layer \<Rightarrow> string set list" where
  "sets_in field ly = (case field ly of None \<Rightarrow> [] | Some xs \<Rightarrow> [set xs])"

lemma set_authority_ALL: "l \<in> set authority_ALL"
  by (cases l) (simp_all add: authority_ALL_def)

lemma meet_sets_fold: "meet_sets (field ly) s = foldl (join_with (\<inter>)) s (sets_in field ly)"
  by (simp add: meet_sets_def sets_in_def split: option.splits)

lemma meet_layers_sel:
  "m_permission (foldl (meet_layer layers) m ls) c = foldl (join_with max) (m_permission m c)
     (concat (map (of_level (\<lambda>ly. opinions c (ly_permissions ly)) layers) ls))"
  "m_network (foldl (meet_layer layers) m ls) = foldl (join_with (\<inter>)) (m_network m)
     (concat (map (of_level (sets_in ly_network_allow) layers) ls))"
  "m_models (foldl (meet_layer layers) m ls) = foldl (join_with (\<inter>)) (m_models m)
     (concat (map (of_level (sets_in ly_models_allow) layers) ls))"
  "m_apps (foldl (meet_layer layers) m ls) = foldl (join_with (\<inter>)) (m_apps m)
     (concat (map (of_level (sets_in ly_computer_apps_allow) layers) ls))"
  "m_hooks (foldl (meet_layer layers) m ls) = m_hooks m @ concat (map (of_level ly_hooks layers) ls)"
  "m_rules (foldl (meet_layer layers) m ls) = m_rules m @ concat (map (of_level ly_rules layers) ls)"
  by (induction ls arbitrary: m)
    (simp_all add: meet_layer_def of_level_def meet_sets_fold split: option.splits)

lemma fold_max: "foldl (join_with max) None xs = (if set xs = {} then None else Some (Max (set xs)))"
  for xs :: "'a::linorder list"
proof (cases xs)
  case (Cons x xs)
  have "foldl (join_with max) (Some y) ys = Some (Max (insert y (set ys)))" for y and ys :: "'a list"
  proof (induction ys arbitrary: y)
    case (Cons z ys)
    have "Max (insert (max y z) (set ys)) = Max (insert y (insert z (set ys)))"
      by (cases "ys = []") (simp_all add: max.assoc)
    with Cons show ?case by simp
  qed simp
  with Cons show ?thesis by simp
qed simp

lemma fold_inter: "foldl (join_with (\<inter>)) None xs = (if set xs = {} then None else Some (\<Inter> (set xs)))"
proof (cases xs)
  case (Cons x xs)
  have "foldl (join_with (\<inter>)) (Some y) ys = Some (y \<inter> \<Inter> (set ys))" for y :: "'a set" and ys
    by (induction ys arbitrary: y) auto
  with Cons show ?thesis by simp
qed simp

lemma set_of_levels: "set (concat (map (of_level f layers) authority_ALL)) = {x. \<exists>l ly. layers l = Some ly \<and> x \<in> set (f ly)}"
proof -
  have all: "set authority_ALL = UNIV" using set_authority_ALL by blast
  have "x \<in> set (of_level f layers l) \<longleftrightarrow> (\<exists>ly. layers l = Some ly \<and> x \<in> set (f ly))" for x l
    by (cases "layers l") (simp_all add: of_level_def)
  then show ?thesis by (simp add: all set_eq_iff)
qed

lemma resolved_permission:
  "map_option rs_value (map_of (rc_permissions (resolve layers)) c) =
     (if said_permissions layers c = {} then None else Some (Max (said_permissions layers c)))"
proof -
  have "m_permission (meet_of (resolve layers)) c = foldl (join_with max) None
     (concat (map (of_level (\<lambda>ly. opinions c (ly_permissions ly)) layers) authority_ALL))"
    unfolding meet_of_resolve meet_layers_sel by (simp add: meet_of_def config_default_def)
  moreover have "set (concat (map (of_level (\<lambda>ly. opinions c (ly_permissions ly)) layers) authority_ALL))
      = said_permissions layers c"
    unfolding set_of_levels by (force simp: said_permissions_def opinions_def)
  moreover have "m_permission (meet_of (resolve layers)) c = map_option rs_value (map_of (rc_permissions (resolve layers)) c)"
    by (simp add: meet_of_def)
  ultimately show ?thesis by (simp only: fold_max)
qed

lemma inter_of_levels:
  "foldl (join_with (\<inter>)) None (concat (map (of_level (sets_in field) layers) authority_ALL)) =
     (if said_sets field layers = {} then None else Some (\<Inter> (said_sets field layers)))"
proof -
  have "set (concat (map (of_level (sets_in field) layers) authority_ALL)) = said_sets field layers"
    unfolding set_of_levels by (force simp: said_sets_def sets_in_def split: option.splits)
  then show ?thesis by (simp only: fold_inter)
qed

lemma resolved_lists:
  "set_of (rc_network_allow (resolve layers)) =
     (if said_sets ly_network_allow layers = {} then None else Some (\<Inter> (said_sets ly_network_allow layers)))"
  "set_of (rc_models_allow (resolve layers)) =
     (if said_sets ly_models_allow layers = {} then None else Some (\<Inter> (said_sets ly_models_allow layers)))"
  "set_of (rc_computer_apps_allow (resolve layers)) =
     (if said_sets ly_computer_apps_allow layers = {} then None
      else Some (\<Inter> (said_sets ly_computer_apps_allow layers)))"
proof -
  have "set_of (rc_network_allow out) = m_network (meet_of out)" "set_of (rc_models_allow out) = m_models (meet_of out)"
    "set_of (rc_computer_apps_allow out) = m_apps (meet_of out)" for out
    by (simp_all add: meet_of_def)
  moreover have "m_network (meet_of config_default) = None" "m_models (meet_of config_default) = None"
    "m_apps (meet_of config_default) = None"
    by (simp_all add: meet_of_def config_default_def set_of_def)
  ultimately show
    "set_of (rc_network_allow (resolve layers)) =
     (if said_sets ly_network_allow layers = {} then None else Some (\<Inter> (said_sets ly_network_allow layers)))"
    "set_of (rc_models_allow (resolve layers)) =
     (if said_sets ly_models_allow layers = {} then None else Some (\<Inter> (said_sets ly_models_allow layers)))"
    "set_of (rc_computer_apps_allow (resolve layers)) =
     (if said_sets ly_computer_apps_allow layers = {} then None
      else Some (\<Inter> (said_sets ly_computer_apps_allow layers)))"
    by (simp_all only: meet_of_resolve meet_layers_sel inter_of_levels)
qed

lemma resolved_authors:
  "set_of (rc_review_comment_authors (resolve layers)) =
     (case of_level (sets_in ly_review_comment_authors) layers AuAdmin of
        [] \<Rightarrow> None
      | granted # _ \<Rightarrow> Some (granted \<inter> \<Inter> (set
          (concat (map (of_level (sets_in ly_review_comment_authors) layers) [AuProject, AuUser])))))"
proof -
  let ?f = "of_level (sets_in ly_review_comment_authors) layers"
  have step: "m_authors (meet_layer layers m l) = (if m_authors m = None \<and> l \<noteq> AuAdmin then None
      else foldl (join_with (\<inter>)) (m_authors m) (?f l))" for m l
    by (cases "layers l") (simp_all add: meet_layer_def of_level_def meet_sets_fold)
  have start: "m_authors (meet_of config_default) = None"
    by (simp add: meet_of_def config_default_def set_of_def)
  have some: "foldl (join_with (\<inter>)) (Some y) ys = Some (y \<inter> \<Inter> (set ys))" for y :: "string set" and ys
    by (induction ys arbitrary: y) auto
  have one: "sets_in ly_review_comment_authors ly = [] \<or> (\<exists>x. sets_in ly_review_comment_authors ly = [x])" for ly
    by (simp add: sets_in_def split: option.splits)
  have adm: "?f AuAdmin = [] \<or> (\<exists>x. ?f AuAdmin = [x])"
    using one by (simp add: of_level_def split: option.splits)
  have "m_authors (meet_of (resolve layers)) = set_of (rc_review_comment_authors (resolve layers))"
    by (simp add: meet_of_def)
  moreover have "m_authors (meet_of (resolve layers)) =
      (case ?f AuAdmin of [] \<Rightarrow> None | g # _ \<Rightarrow> Some (g \<inter> \<Inter> (set (concat (map ?f [AuProject, AuUser])))))"
    using adm unfolding meet_of_resolve authority_ALL_def
    by (elim disjE exE) (simp_all add: step start some Int_assoc Inf_union_distrib)
  ultimately show ?thesis by simp
qed

section \<open>Servers\<close>

definition defines_server :: "(authority \<Rightarrow> layer option) \<Rightarrow> string \<Rightarrow> authority \<Rightarrow> string option" where
  "defines_server layers n l = (case layers l of None \<Rightarrow> None | Some ly \<Rightarrow> map_of (ly_mcp_servers ly) n)"

definition denies_server :: "(authority \<Rightarrow> layer option) \<Rightarrow> string \<Rightarrow> authority \<Rightarrow> bool" where
  "denies_server layers n l = (case layers l of None \<Rightarrow> False | Some ly \<Rightarrow> n \<in> set (ly_mcp_deny ly))"

text \<open>The highest layer that names the server decides, unless a layer not below it denies the name.\<close>

fun server_of :: "(authority \<Rightarrow> layer option) \<Rightarrow> string \<Rightarrow> authority list \<Rightarrow> (string \<times> authority) option" where
  "server_of layers n [] = None"
| "server_of layers n (l # ls) =
     (if denies_server layers n l then None
      else case defines_server layers n l of Some e \<Rightarrow> Some (e, l) | None \<Rightarrow> server_of layers n ls)"

lemma meet_layer_server:
  "m_server (meet_layer layers m l) n =
     (let added = (if m_server m n = None \<and> mcp_denied_by layers l n = None
                   then map_option (\<lambda>e. (e, l)) (defines_server layers n l) else m_server m n)
      in case added of Some (e, a) \<Rightarrow> if denies_server layers n l \<and> \<not> a < l then None else Some (e, a)
         | None \<Rightarrow> None)"
  by (cases "layers l")
    (auto simp: meet_layer_def add_server_def deny_server_def defines_server_def denies_server_def
      split: option.splits)

lemma mcp_denied_by_iff:
  "mcp_denied_by layers l n = None \<longleftrightarrow> (\<forall>l' < l. \<not> denies_server layers n l')"
proof -
  have "set (takeWhile (\<lambda>l'. l' < l) authority_ALL) = {l'. l' < l}"
  proof -
    have "l' < l \<longleftrightarrow> l' \<in> set (takeWhile (\<lambda>l'. l' < l) authority_ALL)" for l'
      by (cases l; cases l') (simp_all add: authority_ALL_def less_authority_def)
    then show ?thesis by blast
  qed
  then show ?thesis
    by (simp add: mcp_denied_by_def find_None_iff_ball denies_server_def)
qed

lemma server_of_snoc:
  "server_of layers n (ls @ [l]) = (case server_of layers n ls of
     Some x \<Rightarrow> Some x
   | None \<Rightarrow> if list_ex (denies_server layers n) (ls @ [l]) then None
       else map_option (\<lambda>e. (e, l)) (defines_server layers n l))"
  by (induction ls) (auto split: option.splits)

lemma server_of_in: "server_of layers n ls = Some (e, a) \<Longrightarrow> a \<in> set ls"
  by (induction ls) (auto split: if_splits option.splits)

lemma meet_server_snoc:
  assumes below: "set ls = {l'. l' < l}"
    and before: "m_server m n = server_of layers n ls"
  shows "m_server (meet_layer layers m l) n = server_of layers n (ls @ [l])"
proof (cases "server_of layers n ls")
  case None
  have "mcp_denied_by layers l n = None \<longleftrightarrow> \<not> list_ex (denies_server layers n) ls"
    using below by (auto simp: mcp_denied_by_iff list_ex_iff)
  with None before show ?thesis
    by (auto simp: meet_layer_server server_of_snoc split: option.splits)
next
  case (Some x)
  obtain e a where x: "x = (e, a)" by (cases x)
  with Some below have "a < l" using server_of_in by blast
  with Some before x show ?thesis by (simp add: meet_layer_server server_of_snoc)
qed

lemma resolved_server:
  "map_option (\<lambda>r. (rs_value r, decided_by r)) (map_of (rc_mcp_servers (resolve layers)) n)
     = server_of layers n authority_ALL"
proof -
  have below: "{} = {l'. l' < AuDevice}" "{AuDevice} = {l'. l' < AuAdmin}" "{AuDevice, AuAdmin} = {l'. l' < AuProject}"
      "{AuDevice, AuAdmin, AuProject} = {l'. l' < AuUser}"
  proof -
    have "l < AuDevice \<longleftrightarrow> False" "l < AuAdmin \<longleftrightarrow> l = AuDevice" "l < AuProject \<longleftrightarrow> l = AuDevice \<or> l = AuAdmin"
      "l < AuUser \<longleftrightarrow> l = AuDevice \<or> l = AuAdmin \<or> l = AuProject" for l
      by (cases l; simp add: less_authority_def)+
    then show "{} = {l'. l' < AuDevice}" "{AuDevice} = {l'. l' < AuAdmin}" "{AuDevice, AuAdmin} = {l'. l' < AuProject}"
      "{AuDevice, AuAdmin, AuProject} = {l'. l' < AuUser}" by auto
  qed
  let ?m = "\<lambda>ls. foldl (meet_layer layers) (meet_of config_default) ls"
  have "m_server (?m []) n = server_of layers n []"
    by (simp add: meet_of_def config_default_def)
  then have "m_server (?m [AuDevice]) n = server_of layers n [AuDevice]"
    using meet_server_snoc [of "[]" AuDevice "?m []"] below(1) by simp
  then have "m_server (?m [AuDevice, AuAdmin]) n = server_of layers n [AuDevice, AuAdmin]"
    using meet_server_snoc [of "[AuDevice]" AuAdmin "?m [AuDevice]"] below(2) by simp
  then have "m_server (?m [AuDevice, AuAdmin, AuProject]) n = server_of layers n [AuDevice, AuAdmin, AuProject]"
    using meet_server_snoc [of "[AuDevice, AuAdmin]" AuProject "?m [AuDevice, AuAdmin]"] below(3) by simp
  then have "m_server (?m authority_ALL) n = server_of layers n authority_ALL"
    using meet_server_snoc [of "[AuDevice, AuAdmin, AuProject]" AuUser "?m [AuDevice, AuAdmin, AuProject]"] below(4)
    by (simp add: authority_ALL_def)
  then show ?thesis
    unfolding meet_of_resolve [symmetric] by (simp add: meet_of_def)
qed

lemma resolved_device:
  "map_option rs_value (rc_device (resolve layers)) = (case layers AuDevice of None \<Rightarrow> None | Some ly \<Rightarrow> ly_device ly)"
proof -
  have step: "m_device (meet_layer layers m l) = (case layers l of None \<Rightarrow> m_device m
      | Some ly \<Rightarrow> if l = AuDevice \<and> ly_device ly \<noteq> None then ly_device ly else m_device m)" for m l
    by (simp add: meet_layer_def split: option.splits)
  have "m_device (meet_of config_default) = None" by (simp add: meet_of_def config_default_def)
  then have "m_device (meet_of (resolve layers)) = (case layers AuDevice of None \<Rightarrow> None | Some ly \<Rightarrow> ly_device ly)"
    unfolding meet_of_resolve authority_ALL_def by (simp add: step split: option.splits)
  then show ?thesis by (simp add: meet_of_def)
qed

lemma resolved_hooks:
  "map rs_value (rc_hooks (resolve layers)) = concat (map (of_level ly_hooks layers) authority_ALL)"
  "map rs_value (rc_rules (resolve layers)) = concat (map (of_level ly_rules layers) authority_ALL)"
proof -
  have "map rs_value (rc_hooks out) = m_hooks (meet_of out)" "map rs_value (rc_rules out) = m_rules (meet_of out)" for out
    by (simp_all add: meet_of_def)
  moreover have "m_hooks (meet_of config_default) = []" "m_rules (meet_of config_default) = []"
    by (simp_all add: meet_of_def config_default_def)
  ultimately show
    "map rs_value (rc_hooks (resolve layers)) = concat (map (of_level ly_hooks layers) authority_ALL)"
    "map rs_value (rc_rules (resolve layers)) = concat (map (of_level ly_rules layers) authority_ALL)"
    by (simp_all only: meet_of_resolve meet_layers_sel append_Nil)
qed

section \<open>Properties\<close>

text \<open>
  C37: Resolution is the meet of the layers. The permission of a capability is the strictest one
  any layer states; an allow-list is the intersection of the stated ones; the server of a name
  is the one of the highest layer that names it, unless a layer not below that one denies the
  name; the comment authors are the organization's list cut down by the project and the user;
  device constraints are the machine's alone; hooks and rules come in order of authority.
\<close>

theorem resolve_is_meet:
  "map_option rs_value (map_of (rc_permissions (resolve layers)) c) =
     (if said_permissions layers c = {} then None else Some (Max (said_permissions layers c)))
 \<and> set_of (rc_network_allow (resolve layers)) =
     (if said_sets ly_network_allow layers = {} then None else Some (\<Inter> (said_sets ly_network_allow layers)))
 \<and> set_of (rc_models_allow (resolve layers)) =
     (if said_sets ly_models_allow layers = {} then None else Some (\<Inter> (said_sets ly_models_allow layers)))
 \<and> set_of (rc_computer_apps_allow (resolve layers)) =
     (if said_sets ly_computer_apps_allow layers = {} then None
      else Some (\<Inter> (said_sets ly_computer_apps_allow layers)))
 \<and> map_option (\<lambda>r. (rs_value r, decided_by r)) (map_of (rc_mcp_servers (resolve layers)) n)
     = server_of layers n authority_ALL
 \<and> set_of (rc_review_comment_authors (resolve layers)) =
     (case of_level (sets_in ly_review_comment_authors) layers AuAdmin of
        [] \<Rightarrow> None
      | granted # _ \<Rightarrow> Some (granted \<inter> \<Inter> (set
          (concat (map (of_level (sets_in ly_review_comment_authors) layers) [AuProject, AuUser])))))
 \<and> map_option rs_value (rc_device (resolve layers)) = (case layers AuDevice of None \<Rightarrow> None | Some ly \<Rightarrow> ly_device ly)
 \<and> map rs_value (rc_hooks (resolve layers)) = concat (map (of_level ly_hooks layers) authority_ALL)
 \<and> map rs_value (rc_rules (resolve layers)) = concat (map (of_level ly_rules layers) authority_ALL)"
  by (intro conjI resolved_permission resolved_lists resolved_server resolved_authors resolved_device resolved_hooks)

text \<open>The layers above a level, and one list within another, where no list is no restriction.\<close>

definition above :: "authority \<Rightarrow> (authority \<Rightarrow> layer option) \<Rightarrow> authority \<Rightarrow> layer option" where
  "above l layers = (\<lambda>a. if a < l then layers a else None)"

definition within :: "string set option \<Rightarrow> string set option \<Rightarrow> bool" where
  "within new old = (case old of None \<Rightarrow> True | Some b \<Rightarrow> (case new of None \<Rightarrow> False | Some a \<Rightarrow> a \<subseteq> b))"

lemma above_Some: "above l layers a = Some ly \<Longrightarrow> layers a = Some ly"
  by (simp add: above_def split: if_splits)

lemma within_meet:
  assumes "X' \<subseteq> X"
  shows "within (if X = {} then None else Some (\<Inter> X)) (if X' = {} then None else Some (\<Inter> X'))"
  using assms by (auto simp: within_def)

lemma said_sets_above: "said_sets field (above l layers) \<subseteq> said_sets field layers"
  unfolding said_sets_def using above_Some by blast

lemma permission_level_resolve:
  "permission_level (resolve layers) c = (if said_permissions layers c = {} then PmAllow else Max (said_permissions layers c))"
  using resolved_permission [of layers c] by (auto simp: permission_level_def split: option.splits if_splits)

lemma finite_said_permissions [simp]: "finite (said_permissions layers c)"
  by (rule finite_subset [of _ "{PmAllow, PmAsk, PmDeny}"]) (auto intro: permission.exhaust)

lemma server_of_above:
  assumes "server_of (above l layers) n ls = Some (e, a)" "sorted_wrt (<) ls"
  shows "server_of layers n ls = Some (e, a)"
  using assms
proof (induction ls)
  case (Cons b ls)
  show ?case
  proof (cases "b < l")
    case True
    with Cons show ?thesis
      by (auto simp: denies_server_def defines_server_def above_def split: if_splits option.splits)
  next
    case False
    then have "server_of (above l layers) n ls = None" if "\<forall>x \<in> set ls. b < x" for ls
      using that
      by (induction ls) (auto simp: denies_server_def defines_server_def above_def split: if_splits option.splits)
    with Cons False show ?thesis
      by (auto simp: denies_server_def defines_server_def above_def split: if_splits option.splits)
  qed
qed simp

lemma permission_level_above:
  "permission_level (resolve (above l layers)) c \<le> permission_level (resolve layers) c"
proof -
  have sub: "said_permissions (above l layers) c \<subseteq> said_permissions layers c"
    unfolding said_permissions_def using above_Some by blast
  have least: "PmAllow \<le> p" for p by (cases p) (simp_all add: less_eq_permission_def)
  show ?thesis
    using sub least Max_mono [OF sub] by (auto simp: permission_level_resolve)
qed

lemma device_above:
  assumes "AuDevice < l"
  shows "map_option rs_value (rc_device (resolve (above l layers))) = map_option rs_value (rc_device (resolve layers))"
  using assms by (simp add: resolved_device above_def)

lemma defines_above: "b < l \<Longrightarrow> defines_server (above l layers) n b = defines_server layers n b"
  by (simp add: defines_server_def above_def)

lemma denies_above: "b < l \<Longrightarrow> denies_server (above l layers) n b = denies_server layers n b"
  by (simp add: denies_server_def above_def)

lemma server_of_decided_above:
  assumes "server_of layers n ls = Some (e, a)" "a < l" "sorted_wrt (<) ls"
  shows "server_of (above l layers) n ls = Some (e, a)"
  using assms
proof (induction ls)
  case (Cons b ls)
  have "b < l"
  proof (cases "b = a")
    case False
    with Cons.prems(1) have "server_of layers n ls = Some (e, a)" by (simp split: if_splits option.splits)
    then have "a \<in> set ls" by (rule server_of_in)
    with Cons.prems show ?thesis by (auto intro: less_trans)
  qed (use Cons.prems(2) in simp)
  with Cons show ?case by (simp add: defines_above denies_above split: if_splits option.splits)
qed simp

lemma server_of_denied_above:
  assumes "denies_server layers n a" "a < l" "a \<in> set ls" "sorted_wrt (<) ls"
  shows "server_of (above l layers) n ls = server_of layers n ls"
  using assms
proof (induction ls)
  case (Cons b ls)
  show ?case
  proof (cases "b = a")
    case True
    with Cons.prems show ?thesis by (simp add: denies_above)
  next
    case False
    with Cons.prems have "b < l" by (auto intro: less_trans)
    with False Cons show ?thesis by (simp add: defines_above denies_above split: option.splits)
  qed
qed simp

lemma sorted_authorities: "sorted_wrt (<) authority_ALL"
  by (simp add: authority_ALL_def less_authority_def)

lemma levels_above: "\<exists>rest. concat (map (of_level f layers) authority_ALL) = concat (map (of_level f (above l layers)) authority_ALL) @ rest"
  by (cases l) (simp_all add: of_level_def above_def authority_ALL_def less_authority_def)

lemma authors_above:
  assumes "AuAdmin < l" and xs: "set_of (rc_review_comment_authors (resolve layers)) = Some xs"
  shows "\<exists>ys. set_of (rc_review_comment_authors (resolve (above l layers))) = Some ys \<and> xs \<subseteq> ys"
proof -
  let ?f = "of_level (sets_in ly_review_comment_authors)"
  have adm: "?f (above l layers) AuAdmin = ?f layers AuAdmin"
    using assms(1) by (simp add: of_level_def above_def)
  have "set (?f (above l layers) a) \<subseteq> set (?f layers a)" for a
    by (simp add: of_level_def above_def)
  then have sub: "set (concat (map (?f (above l layers)) [AuProject, AuUser])) \<subseteq> set (concat (map (?f layers) [AuProject, AuUser]))"
    by auto
  show ?thesis
    using xs Inter_anti_mono [OF sub] unfolding resolved_authors adm
    by (auto split: list.splits)
qed

definition server_in :: "resolved_config \<Rightarrow> string \<Rightarrow> (string \<times> authority) option" where
  "server_in cfg n = map_option (\<lambda>r. (rs_value r, decided_by r)) (map_of (rc_mcp_servers cfg) n)"

lemma server_in_resolve: "server_in (resolve layers) n = server_of layers n authority_ALL"
  unfolding server_in_def by (rule resolved_server)


definition no_layer :: layer where
  "no_layer = \<lparr>ly_permissions = [], ly_network_allow = None, ly_models_allow = None,
     ly_computer_apps_allow = None, ly_mcp_servers = [], ly_mcp_deny = [], ly_hooks = [], ly_rules = [],
     ly_review_comment_authors = None, ly_device = None\<rparr>"

definition sample_layers :: "authority \<Rightarrow> layer option" where
  "sample_layers l = (case l of
     AuAdmin \<Rightarrow> Some (no_layer\<lparr>ly_permissions := [(''git.push'', PmAsk)],
       ly_network_allow := Some [''a.org'', ''b.org''], ly_mcp_servers := [(''docs'', ''https://docs'')],
       ly_mcp_deny := [''shell''], ly_review_comment_authors := Some [''ann'']\<rparr>)
   | AuUser \<Rightarrow> Some (no_layer\<lparr>ly_permissions := [(''git.push'', PmAllow)],
       ly_network_allow := Some [''b.org'', ''c.org''], ly_mcp_servers := [(''docs'', ''https://other''), (''shell'', ''https://sh'')],
       ly_mcp_deny := [''docs''], ly_review_comment_authors := Some [''ann'', ''bob'']\<rparr>)
   | _ \<Rightarrow> None)"


end
