(* ===== verification/Mode.thy ===== *)
theory Mode
  imports Tool_Call Rust_Str
begin

text \<open>
  \<open>crates/domain/src/mode.rs\<close> and \<open>crates/domain/src/runmode.rs\<close>: the mode of a task with the
  posture it enforces, the execution preference, the run modes, the classes of effects that ask
  in every mode, and the durable allow rules. Refusal texts are constructors. The lemmas show
  that a posture only narrows and that the stable names read back.
\<close>

section \<open>Task mode and posture\<close>

definition READ_ONLY_CAPABILITIES :: "string list" where
  "READ_ONLY_CAPABILITIES = [''fs.read'', ''git.read'', ''memory.query'', ''external.list'']"

datatype task_mode = MAgent | MPlan | MDebug | MMultitask | MAsk

definition task_mode_ALL :: "task_mode list" where
  "task_mode_ALL = [MAgent, MPlan, MDebug, MMultitask, MAsk]"

fun task_mode_name :: "task_mode \<Rightarrow> string" where
  "task_mode_name MAgent = ''AGENT''"
| "task_mode_name MPlan = ''PLAN''"
| "task_mode_name MDebug = ''DEBUG''"
| "task_mode_name MMultitask = ''MULTITASK''"
| "task_mode_name MAsk = ''ASK''"

definition task_mode_parse :: "string \<Rightarrow> task_mode option" where
  "task_mode_parse name =
     (let name = trim name in find (\<lambda>m. eq_ignore_ascii_case (task_mode_name m) name) task_mode_ALL)"

record mode_posture =
  mp_effect_ceiling :: "effect_class option"
  mp_allowed_capabilities :: "string list option"
  mp_subagents :: bool
  mp_reproduction_first :: bool

fun posture :: "task_mode \<Rightarrow> mode_posture" where
  "posture MAgent = \<lparr>mp_effect_ceiling = None, mp_allowed_capabilities = None,
     mp_subagents = True, mp_reproduction_first = False\<rparr>"
| "posture MMultitask = \<lparr>mp_effect_ceiling = None, mp_allowed_capabilities = None,
     mp_subagents = True, mp_reproduction_first = False\<rparr>"
| "posture MDebug = \<lparr>mp_effect_ceiling = None, mp_allowed_capabilities = None,
     mp_subagents = True, mp_reproduction_first = True\<rparr>"
| "posture MPlan = \<lparr>mp_effect_ceiling = Some ReadOnly,
     mp_allowed_capabilities = Some READ_ONLY_CAPABILITIES,
     mp_subagents = False, mp_reproduction_first = False\<rparr>"
| "posture MAsk = \<lparr>mp_effect_ceiling = Some ReadOnly,
     mp_allowed_capabilities = Some READ_ONLY_CAPABILITIES,
     mp_subagents = False, mp_reproduction_first = False\<rparr>"

definition posture_writes :: "mode_posture \<Rightarrow> bool" where
  "posture_writes p \<longleftrightarrow> mp_effect_ceiling p \<noteq> Some ReadOnly"

datatype posture_refusal = ExceedsModeCeiling effect_class effect_class | OutsideMode string

definition refusal :: "mode_posture \<Rightarrow> effect_class \<Rightarrow> string list \<Rightarrow> posture_refusal option" where
  "refusal p effect capabilities =
     (case mp_effect_ceiling p of
        Some ceiling \<Rightarrow> if effect > ceiling then Some (ExceedsModeCeiling effect ceiling) else
          (case mp_allowed_capabilities p of
             Some allowed \<Rightarrow> map_option OutsideMode (find (\<lambda>c. c \<notin> set allowed) capabilities)
           | None \<Rightarrow> None)
      | None \<Rightarrow>
          (case mp_allowed_capabilities p of
             Some allowed \<Rightarrow> map_option OutsideMode (find (\<lambda>c. c \<notin> set allowed) capabilities)
           | None \<Rightarrow> None))"

section \<open>Execution preference\<close>

datatype objective = OCost | OBalance | OIntelligence

fun objective_name :: "objective \<Rightarrow> string" where
  "objective_name OCost = ''COST''"
| "objective_name OBalance = ''BALANCE''"
| "objective_name OIntelligence = ''INTELLIGENCE''"

definition objective_parse :: "string \<Rightarrow> objective option" where
  "objective_parse name =
     find (\<lambda>ob. eq_ignore_ascii_case (objective_name ob) (trim name)) [OCost, OBalance, OIntelligence]"

fun floor_mode :: "objective \<Rightarrow> string" where
  "floor_mode OCost = ''economy''"
| "floor_mode OBalance = ''auto''"
| "floor_mode OIntelligence = ''quality''"

definition EFFORTS :: "string list" where
  "EFFORTS = [''low'', ''medium'', ''high'']"

definition valid_effort :: "string \<Rightarrow> bool" where
  "valid_effort effort \<longleftrightarrow> effort \<in> set EFFORTS"

definition valid_tier :: "string \<Rightarrow> bool" where
  "valid_tier tier \<longleftrightarrow>
     tier \<noteq> [] \<and> length tier \<le> 32 \<and> list_all (\<lambda>c. is_ascii_alphanumeric c \<or> c = CHR ''_'') tier"

record execution_preference =
  xp_objective :: "objective option"
  xp_effort :: "string option"
  xp_service_tier :: "string option"
  xp_pin :: "(string \<times> string) option"

definition preference_is_empty :: "execution_preference \<Rightarrow> bool" where
  "preference_is_empty x \<longleftrightarrow>
     x = \<lparr>xp_objective = None, xp_effort = None, xp_service_tier = None, xp_pin = None\<rparr>"

section \<open>Run modes and allow rules\<close>

datatype run_mode = RmAsk | RmAllowlist | RmAllowlistSandbox | RmRunEverything | RmAutonomous

definition run_mode_ALL :: "run_mode list" where
  "run_mode_ALL = [RmAsk, RmAllowlist, RmAllowlistSandbox, RmRunEverything, RmAutonomous]"

fun run_mode_rank :: "run_mode \<Rightarrow> nat" where
  "run_mode_rank RmAsk = 0"
| "run_mode_rank RmAllowlist = 1"
| "run_mode_rank RmAllowlistSandbox = 2"
| "run_mode_rank RmRunEverything = 3"
| "run_mode_rank RmAutonomous = 4"

fun run_mode_name :: "run_mode \<Rightarrow> string" where
  "run_mode_name RmAsk = ''ASK''"
| "run_mode_name RmAllowlist = ''ALLOWLIST''"
| "run_mode_name RmAllowlistSandbox = ''ALLOWLIST_SANDBOX''"
| "run_mode_name RmRunEverything = ''RUN_EVERYTHING''"
| "run_mode_name RmAutonomous = ''AUTONOMOUS''"

definition run_mode_parse :: "string \<Rightarrow> run_mode option" where
  "run_mode_parse s = find (\<lambda>m. run_mode_name m = s) run_mode_ALL"

definition run_mode_durable :: "run_mode \<Rightarrow> bool" where
  "run_mode_durable m \<longleftrightarrow> m \<noteq> RmRunEverything"

datatype ask_class =
    AcOutsideWorkspaceWrite | AcNetwork | AcSecret | AcProtectedPath | AcDeletion | AcPush | AcEscalation

fun ask_class_name :: "ask_class \<Rightarrow> string" where
  "ask_class_name AcOutsideWorkspaceWrite = ''OUTSIDE_WORKSPACE_WRITE''"
| "ask_class_name AcNetwork = ''NETWORK''"
| "ask_class_name AcSecret = ''SECRET''"
| "ask_class_name AcProtectedPath = ''PROTECTED_PATH''"
| "ask_class_name AcDeletion = ''DELETION''"
| "ask_class_name AcPush = ''PUSH''"
| "ask_class_name AcEscalation = ''ESCALATION''"

text \<open>The derived order of the classes, in which a sorted vector of them is read.\<close>

fun ask_class_rank :: "ask_class \<Rightarrow> nat" where
  "ask_class_rank AcOutsideWorkspaceWrite = 0"
| "ask_class_rank AcNetwork = 1"
| "ask_class_rank AcSecret = 2"
| "ask_class_rank AcProtectedPath = 3"
| "ask_class_rank AcDeletion = 4"
| "ask_class_rank AcPush = 5"
| "ask_class_rank AcEscalation = 6"

lemma ask_class_rank_inject [simp]: "ask_class_rank a = ask_class_rank b \<longleftrightarrow> a = b"
  by (cases a; cases b) simp_all

instantiation ask_class :: linorder
begin

definition less_eq_ask_class :: "ask_class \<Rightarrow> ask_class \<Rightarrow> bool" where
  "less_eq_ask_class a b \<longleftrightarrow> ask_class_rank a \<le> ask_class_rank b"

definition less_ask_class :: "ask_class \<Rightarrow> ask_class \<Rightarrow> bool" where
  "less_ask_class a b \<longleftrightarrow> ask_class_rank a < ask_class_rank b"

instance
  by standard (auto simp: less_eq_ask_class_def less_ask_class_def)

end

datatype rule_scope = ScTask | ScRepo | ScUser

fun rule_scope_name :: "rule_scope \<Rightarrow> string" where
  "rule_scope_name ScTask = ''TASK''"
| "rule_scope_name ScRepo = ''REPO''"
| "rule_scope_name ScUser = ''USER''"

definition rule_scope_parse :: "string \<Rightarrow> rule_scope option" where
  "rule_scope_parse s = find (\<lambda>m. rule_scope_name m = s) [ScTask, ScRepo, ScUser]"

record allow_rule =
  ar_rule_id :: string
  ar_pattern :: "string list"
  ar_program_path :: string
  ar_scope :: rule_scope
  ar_scope_key :: string
  ar_created_by :: string
  ar_created_at_ms :: int
  ar_expires_at_ms :: "int option"
  ar_covers_always_ask :: bool
  ar_origin_task :: string

section \<open>Lemmas\<close>

lemma task_mode_parse_name: "task_mode_parse (task_mode_name m) = Some m"
  by (induct m) code_simp+

lemma objective_parse_name: "objective_parse (objective_name ob) = Some ob"
  by (induct ob) code_simp+

lemma run_mode_parse_name: "run_mode_parse (run_mode_name rm) = Some rm"
  by (induct rm) code_simp+

lemma rule_scope_parse_name: "rule_scope_parse (rule_scope_name sc) = Some sc"
  by (induct sc) code_simp+

lemma refusal_None_iff:
  "refusal p effect caps = None \<longleftrightarrow>
     (\<forall>ceiling. mp_effect_ceiling p = Some ceiling \<longrightarrow> effect \<le> ceiling)
   \<and> (\<forall>allowed. mp_allowed_capabilities p = Some allowed \<longrightarrow> set caps \<subseteq> set allowed)"
  by (auto simp: refusal_def find_None_iff_ball not_less split: option.splits if_splits)

text \<open>A mode without writes admits reads with read-only capabilities and nothing else.\<close>

lemma read_only_posture:
  assumes "\<not> posture_writes (posture m)"
  shows "refusal (posture m) effect caps = None \<longleftrightarrow>
    effect = ReadOnly \<and> set caps \<subseteq> set READ_ONLY_CAPABILITIES"
proof -
  have "effect \<le> ReadOnly \<longleftrightarrow> effect = ReadOnly"
    by (cases effect) (simp_all add: less_eq_effect_class_def)
  with assms show ?thesis
    by (cases m) (simp_all add: posture_writes_def refusal_None_iff)
qed

end
