(* ===== verification/Run_Mode.thy ===== *)
theory Run_Mode
  imports Mode "HOL-Library.List_Lexorder" "HOL-Library.Char_ord" "HOL-Library.Product_Lexorder"
begin

text \<open>
  \<open>crates/policy/src/runmode.rs\<close>: the durable allow rules and the run modes. A refusal of a rule
  is its stable code. Paths are Unix paths; whether a file can be run is the parameter
  \<open>is_runnable\<close>. White space at the end of a script is ASCII white space. The lemmas show what an approval without a person rests on, that a mode of a
  higher rank approves at least as much, and that the splitter of scripts recovers the commands
  of a quoted script.
\<close>

section \<open>Patterns\<close>

definition MAX_PATTERN_TOKENS :: nat where
  "MAX_PATTERN_TOKENS = 16"

definition MAX_TOKEN_BYTES :: nat where
  "MAX_TOKEN_BYTES = 512"

definition WRAPPERS :: "string list" where
  "WRAPPERS = [''sh'', ''bash'', ''zsh'', ''dash'', ''ksh'', ''ash'', ''fish'', ''csh'', ''tcsh'', ''busybox'',
     ''env'', ''sudo'', ''doas'', ''su'', ''xargs'', ''eval'', ''exec'', ''nohup'', ''time'', ''timeout'',
     ''nice'', ''ionice'', ''setsid'', ''stdbuf'', ''command'', ''builtin'', ''watch'', ''strace'', ''ltrace'',
     ''chroot'', ''unshare'', ''nsenter'', ''script'', ''screen'', ''tmux'', ''ssh'', ''find'', ''awk'', ''gawk'',
     ''cmd'', ''cmd.exe'', ''powershell'', ''powershell.exe'', ''pwsh'', ''pwsh.exe'', ''osascript'', ''expect'',
     ''parallel'', ''rlwrap'', ''trap'']"

definition INTERPRETERS :: "string list" where
  "INTERPRETERS = [''python'', ''python3'', ''python2'', ''node'', ''nodejs'', ''ruby'', ''perl'', ''php'',
     ''lua'', ''deno'', ''bun'', ''tclsh'', ''Rscript'', ''julia'']"

definition SUBCOMMAND_PROGRAMS :: "string list" where
  "SUBCOMMAND_PROGRAMS = [''git'', ''cargo'', ''npm'', ''pnpm'', ''yarn'', ''npx'', ''docker'', ''kubectl'',
     ''make'', ''go'', ''pip'', ''pip3'', ''brew'', ''apt'', ''apt-get'', ''gh'', ''aws'', ''gcloud'', ''az'',
     ''terraform'', ''helm'', ''rustup'', ''gradle'', ''mvn'', ''dotnet'', ''swift'', ''xcodebuild'',
     ''bundle'', ''gem'', ''poetry'', ''uv'', ''conda'', ''mise'']"

definition program_name :: "string \<Rightarrow> string" where
  "program_name token = trim_end_str ''.exe'' (last_piece [CHR ''/'', CHR 0x5C] token)"

definition SHELL_SYNTAX :: "char list" where
  "SHELL_SYNTAX = [CHR ''|'', CHR ''&'', CHR '';'', CHR ''<'', CHR ''>'', CHR ''('', CHR '')'', CHR 0x60,
     CHR ''$'', CHR 0x0A, CHR 0x0D, CHR 0x00]"

definition has_shell_syntax :: "string \<Rightarrow> bool" where
  "has_shell_syntax token \<longleftrightarrow> token = [] \<or> list_ex (\<lambda>c. c \<in> set SHELL_SYNTAX) token"

definition names_computer :: "string \<Rightarrow> bool" where
  "names_computer t \<longleftrightarrow>
     (let t = to_ascii_lowercase (trim t) in t = ''computer'' \<or> starts_with t ''computer.'')"

definition check_token :: "string \<Rightarrow> string + unit" where
  "check_token t =
     (if length t > MAX_TOKEN_BYTES then Inl ''PATTERN_TOKEN_TOO_LONG''
      else if has_shell_syntax t then Inl ''PATTERN_SHELL_SYNTAX''
      else Inr ())"

definition validate_pattern :: "string list \<Rightarrow> string + unit" where
  "validate_pattern pattern =
     (if pattern = [] then Inl ''EMPTY_PATTERN''
      else if length pattern > MAX_PATTERN_TOKENS then Inl ''PATTERN_TOO_LONG''
      else if list_ex names_computer pattern then Inl ''COMPUTER_NOT_ALLOWLISTABLE''
      else rbind (checks (map check_token pattern)) (\<lambda>_.
        let program = program_name (hd pattern) in
        if program \<in> set WRAPPERS then Inl ''PATTERN_WRAPPER''
        else if program \<in> set INTERPRETERS
             \<and> (length pattern < 2 \<or> starts_with (pattern ! 1) ''-''
                \<or> pattern ! 1 \<in> {''eval'', ''e'', ''c''})
          then Inl ''PATTERN_INTERPRETER''
        else if program \<in> set SUBCOMMAND_PROGRAMS \<and> length pattern < 2 then Inl ''PATTERN_TOO_BROAD''
        else Inr ()))"

definition validate_rule :: "allow_rule \<Rightarrow> string + unit" where
  "validate_rule r = rbind (validate_pattern (ar_pattern r)) (\<lambda>_.
     if ar_scope r \<in> {ScTask, ScRepo} \<and> trim (ar_scope_key r) = [] then Inl ''SCOPE_KEY_REQUIRED''
     else if ar_scope r = ScUser \<and> ar_scope_key r \<noteq> [] then Inl ''SCOPE_KEY_UNEXPECTED''
     else if ar_covers_always_ask r \<and> ar_scope r = ScUser then Inl ''ALWAYS_ASK_SCOPE''
     else if ar_covers_always_ask r \<and> length (ar_pattern r) < 2 then Inl ''ALWAYS_ASK_PATTERN''
     else Inr ())"

section \<open>Scripts\<close>

datatype quote = QNone | QSingle | QDouble

record splitter =
  sp_commands :: "string list list"
  sp_current :: "string list"
  sp_word :: string
  sp_in_word :: bool

definition end_word :: "splitter \<Rightarrow> splitter" where
  "end_word sp = (if sp_in_word sp
     then sp\<lparr>sp_current := sp_current sp @ [sp_word sp], sp_word := [], sp_in_word := False\<rparr> else sp)"

definition end_command :: "splitter \<Rightarrow> splitter" where
  "end_command sp = sp\<lparr>sp_commands := sp_commands sp @ [sp_current sp], sp_current := []\<rparr>"

definition push :: "char \<Rightarrow> splitter \<Rightarrow> splitter" where
  "push c sp = sp\<lparr>sp_word := sp_word sp @ [c]\<rparr>"

definition open_word :: "splitter \<Rightarrow> splitter" where
  "open_word sp = sp\<lparr>sp_in_word := True\<rparr>"

definition NOT_SIMPLE :: "char list" where
  "NOT_SIMPLE = [CHR ''<'', CHR ''>'', CHR ''('', CHR '')'', CHR 0x60, CHR ''$'', CHR ''{'', CHR ''}'', CHR 0x0D, CHR 0x00]"

fun split_loop :: "quote \<Rightarrow> splitter \<Rightarrow> string \<Rightarrow> (quote \<times> splitter) option" where
  "split_loop q sp [] = Some (q, sp)"
| "split_loop QSingle sp (c # cs) =
     (if c = CHR 0x27 then split_loop QNone sp cs else split_loop QSingle (push c sp) cs)"
| "split_loop QDouble sp (c # cs) =
     (if c = CHR 0x22 then split_loop QNone sp cs
      else if c = CHR ''$'' \<or> c = CHR 0x60 then None
      else if c = CHR 0x5C then
        (case cs of
           [] \<Rightarrow> None
         | n # cs' \<Rightarrow>
             if n \<in> {CHR 0x22, CHR 0x5C, CHR ''$'', CHR 0x60} then split_loop QDouble (push n sp) cs'
             else if n = CHR 0x0A then None
             else split_loop QDouble (push CHR 0x5C sp) cs)
      else split_loop QDouble (push c sp) cs)"
| "split_loop QNone sp (c # cs) =
     (if c = CHR '' '' \<or> c = CHR 0x09 then split_loop QNone (end_word sp) cs
      else if c = CHR 0x0A \<or> c = CHR '';'' then
        (let sp = end_word sp in
         if sp_current sp = [] then (if c = CHR '';'' then None else split_loop QNone sp cs)
         else split_loop QNone (end_command sp) cs)
      else if c = CHR ''&'' \<or> c = CHR ''|'' then
        (case cs of
           [] \<Rightarrow> None
         | n # cs' \<Rightarrow>
             if n \<noteq> c then None
             else (let sp = end_word sp in
               if sp_current sp = [] then None else split_loop QNone (end_command sp) cs'))
      else if c \<in> set NOT_SIMPLE then None
      else if (c = CHR ''#'' \<or> c = CHR ''!'') \<and> \<not> sp_in_word sp then None
      else if c = CHR 0x5C then
        (case cs of
           [] \<Rightarrow> None
         | n # cs' \<Rightarrow> if n = CHR 0x0A then None else split_loop QNone (open_word (push n sp)) cs')
      else if c = CHR 0x27 then split_loop QSingle (open_word sp) cs
      else if c = CHR 0x22 then split_loop QDouble (open_word sp) cs
      else split_loop QNone (open_word (push c sp)) cs)"

definition trim_end :: "string \<Rightarrow> string" where
  "trim_end s = rev (dropWhile is_whitespace (rev s))"

definition split_start :: splitter where
  "split_start = \<lparr>sp_commands = [], sp_current = [], sp_word = [], sp_in_word = False\<rparr>"

definition split_script :: "string \<Rightarrow> string list list option" where
  "split_script script = (case split_loop QNone split_start script of
     None \<Rightarrow> None
   | Some (quote, sp) \<Rightarrow>
       if quote \<noteq> QNone then None
       else
         (let sp = end_word sp;
              commands = (if sp_current sp \<noteq> [] then sp_commands sp @ [sp_current sp] else sp_commands sp);
              t = trim_end script;
              trailing_operator = (ends_with t ''&&'' \<or> ends_with t ''||'')
          in if commands \<noteq> [] \<and> \<not> trailing_operator then Some commands else None))"

definition SHELLS :: "string list" where
  "SHELLS = [''sh'', ''bash'', ''zsh'', ''dash'', ''ksh'', ''ash'']"

definition is_c_flag :: "string \<Rightarrow> bool" where
  "is_c_flag flag \<longleftrightarrow>
     length flag \<ge> 2 \<and> starts_with flag ''-'' \<and> \<not> starts_with flag ''--''
   \<and> list_all is_ascii_alphabetic (tl flag) \<and> CHR ''c'' \<in> set flag"

definition sub_commands :: "string list \<Rightarrow> string list list option" where
  "sub_commands argv = (case argv of
     [] \<Rightarrow> None
   | first # args \<Rightarrow>
       if program_name first \<notin> set SHELLS then Some [argv]
       else (case args of
           [] \<Rightarrow> None
         | flag # rest \<Rightarrow>
             if \<not> is_c_flag flag \<or> length argv \<noteq> 3 then None else split_script (argv ! 2)))"

definition prefix_matches :: "string list \<Rightarrow> string list \<Rightarrow> bool" where
  "prefix_matches pattern command \<longleftrightarrow>
     length command \<ge> length pattern \<and> list_all (\<lambda>(a, b). a = b) (zip command pattern)"

section \<open>Programs\<close>

type_synonym programs = "(string \<times> string option) list"

definition clean_step :: "string list \<Rightarrow> string \<Rightarrow> string list" where
  "clean_step out c =
     (if c = ''.'' then out
      else if c = ''..'' then (if out = [] \<or> out = [''/''] then out @ [''..''] else butlast out)
      else out @ [c])"

definition clean_path :: "string \<Rightarrow> string" where
  "clean_path p = path_of_components (foldl clean_step [] (path_components p))"

definition absolute :: "string \<Rightarrow> string \<Rightarrow> string" where
  "absolute cwd p = (if starts_with p ''/'' then clean_path p else clean_path (path_join cwd p))"

definition resolve_program :: "(string \<Rightarrow> bool) \<Rightarrow> string \<Rightarrow> string \<Rightarrow> string \<Rightarrow> string option" where
  "resolve_program is_runnable token cwd path =
     (let found = (\<lambda>dir. let c = absolute cwd (path_join dir token) in if is_runnable c then Some c else None) in
      if token = [] then None
      else if CHR ''/'' \<in> set token then found []
      else find_map (\<lambda>entry. found (if entry = [] then cwd else entry)) (split_on CHR '':'' path))"

definition resolve_programs :: "(string \<Rightarrow> bool) \<Rightarrow> string list \<Rightarrow> string \<Rightarrow> string \<Rightarrow> programs" where
  "resolve_programs is_runnable argv cwd path =
     (let tokens = take 1 argv
        @ concat (map (take 1) (case sub_commands argv of None \<Rightarrow> [] | Some cs \<Rightarrow> cs))
      in foldl (\<lambda>m t. bt_insert t (resolve_program is_runnable t cwd path) m) [] tokens)"

section \<open>Covering rules\<close>

datatype uncovered = NoRule | Pin string

fun get_or_insert :: "'a option \<Rightarrow> 'a \<Rightarrow> 'a option" where
  "get_or_insert None x = Some x"
| "get_or_insert (Some y) x = Some y"

fun covering_loop ::
  "string option \<Rightarrow> allow_rule list \<Rightarrow> string list \<Rightarrow> programs \<Rightarrow> uncovered + allow_rule" where
  "covering_loop why [] command programs = Inl (case why of None \<Rightarrow> NoRule | Some w \<Rightarrow> Pin w)"
| "covering_loop why (r # rs) command programs =
     (if \<not> prefix_matches (ar_pattern r) command then covering_loop why rs command programs
      else if ar_program_path r = [] then
        covering_loop (get_or_insert why ''RULE_NOT_PINNED'') rs command programs
      else (case (case command of [] \<Rightarrow> None | t # _ \<Rightarrow> map_of programs t) of
          Some (Some now) \<Rightarrow>
            if now = ar_program_path r then Inr r
            else covering_loop (get_or_insert why ''PROGRAM_PATH_CHANGED'') rs command programs
        | _ \<Rightarrow> covering_loop (get_or_insert why ''PROGRAM_NOT_FOUND'') rs command programs))"

definition covering_rule :: "allow_rule list \<Rightarrow> string list \<Rightarrow> programs \<Rightarrow> uncovered + allow_rule" where
  "covering_rule rules command programs = covering_loop None rules command programs"

fun cover_all ::
  "allow_rule list \<Rightarrow> programs \<Rightarrow> allow_rule list \<Rightarrow> string list list \<Rightarrow> uncovered + allow_rule list" where
  "cover_all rules programs used [] = Inr used"
| "cover_all rules programs used (command # commands) =
     rbind (covering_rule rules command programs) (\<lambda>r.
       cover_all rules programs
         (if list_ex (\<lambda>u. ar_rule_id u = ar_rule_id r) used then used else used @ [r]) commands)"

definition covering_rules :: "allow_rule list \<Rightarrow> string list \<Rightarrow> programs \<Rightarrow> uncovered + allow_rule list" where
  "covering_rules rules argv programs = (case sub_commands argv of
     None \<Rightarrow> Inl NoRule
   | Some commands \<Rightarrow> cover_all rules programs [] commands)"

definition ask_classes ::
  "effect_class \<Rightarrow> string list \<Rightarrow> bool \<Rightarrow> bool \<Rightarrow> string \<Rightarrow> ask_class list" where
  "ask_classes effect required outside_workspace_write protected_path declared_escalation =
     (let has = (\<lambda>c. list_ex (\<lambda>r. r = c) required);
          out = (if outside_workspace_write then [AcOutsideWorkspaceWrite] else [])
            @ (if has ''network.egress'' \<or> has ''external.call'' \<or> effect = ExternalSideEffect
               then [AcNetwork] else [])
            @ (if has ''secret.use'' \<or> effect = SecretAccess then [AcSecret] else [])
            @ (if protected_path then [AcProtectedPath] else [])
            @ (if effect = Destructive then [AcDeletion] else [])
            @ (if has ''git.push'' \<or> has ''deploy'' then [AcPush] else [])
            @ (if declared_escalation \<noteq> [] \<and> declared_escalation \<noteq> ''none'' then [AcEscalation] else [])
      in remdups_adj (sort out))"

section \<open>The decision of a run mode\<close>

record run_policy =
  rp_mode :: run_mode
  rp_task_id :: string
  rp_repo_root :: string
  rp_rules :: "allow_rule list"
  rp_argv :: "string list option"
  rp_programs :: programs
  rp_ask_classes :: "ask_class list"
  rp_dependency_install :: bool
  rp_contained :: bool

datatype run_decision = RunApprove string | RunAsk string

definition same_root :: "string \<Rightarrow> string \<Rightarrow> bool" where
  "same_root a b \<longleftrightarrow> a \<noteq> []
     \<and> path_eq (trim_end_chars [CHR ''/'', CHR 0x5C] a) (trim_end_chars [CHR ''/'', CHR 0x5C] b)"

definition live_rules :: "run_policy \<Rightarrow> int \<Rightarrow> allow_rule list" where
  "live_rules rp now_ms =
     sort_key (\<lambda>r. (ar_created_at_ms r, ar_rule_id r))
       (filter (\<lambda>r. case ar_scope r of
            ScTask \<Rightarrow> ar_scope_key r = rp_task_id rp
          | ScRepo \<Rightarrow> same_root (ar_scope_key r) (rp_repo_root rp)
          | ScUser \<Rightarrow> True)
         (filter (\<lambda>r. is_none_or (ar_expires_at_ms r) (\<lambda>e. e > now_ms)) (rp_rules rp)))"

definition asking :: "run_policy \<Rightarrow> ask_class list" where
  "asking rp =
     filter (\<lambda>c. \<not> (rp_mode rp = RmAutonomous \<and> rp_dependency_install rp \<and> c = AcNetwork)) (rp_ask_classes rp)"

definition wrapper_in_workspace :: "run_policy \<Rightarrow> string list \<Rightarrow> bool" where
  "wrapper_in_workspace rp argv = (case argv of
     [] \<Rightarrow> False
   | first # _ \<Rightarrow>
       if program_name first \<notin> set SHELLS \<or> rp_repo_root rp = [] then False
       else (case map_of (rp_programs rp) first of
           Some (Some resolved) \<Rightarrow>
             path_starts_with resolved (trim_end_chars [CHR ''/'', CHR 0x5C] (rp_repo_root rp))
         | _ \<Rightarrow> False))"

text \<open>The rules' part of the decision: an approval, or the code of why no rule covers the call.\<close>

definition decide_rules :: "run_policy \<Rightarrow> int \<Rightarrow> string option + string" where
  "decide_rules rp now_ms = (case rp_argv rp of
     None \<Rightarrow> Inl None
   | Some argv \<Rightarrow>
       if wrapper_in_workspace rp argv then Inl (Some ''PROGRAM_IN_WORKSPACE'')
       else (case covering_rules (live_rules rp now_ms) argv (rp_programs rp) of
           Inr used \<Rightarrow>
             if asking rp = [] \<or> list_all ar_covers_always_ask used
             then Inr (''allowlist:'' @ join ''+'' (map ar_rule_id used)) else Inl None
         | Inl (Pin code) \<Rightarrow> Inl (Some code)
         | Inl NoRule \<Rightarrow> Inl None))"

definition run_decide :: "run_policy \<Rightarrow> int \<Rightarrow> run_decision" where
  "run_decide rp now_ms =
     (let always_ask = (asking rp \<noteq> []);
          always_ask_code = (case asking rp of [] \<Rightarrow> None | c # _ \<Rightarrow> Some (''ALWAYS_ASK:'' @ ask_class_name c))
      in if rp_mode rp = RmAsk then RunAsk (case always_ask_code of None \<Rightarrow> ''MODE_ASK'' | Some s \<Rightarrow> s)
         else (case decide_rules rp now_ms of
           Inr rule \<Rightarrow> RunApprove rule
         | Inl uncovered_code \<Rightarrow>
             if always_ask then RunAsk (case always_ask_code of None \<Rightarrow> [] | Some s \<Rightarrow> s)
             else (case rp_mode rp of
                 RmRunEverything \<Rightarrow> RunApprove ''run_mode:RUN_EVERYTHING''
               | RmAutonomous \<Rightarrow>
                   RunApprove (if rp_dependency_install rp \<and> AcNetwork \<in> set (rp_ask_classes rp)
                     then ''run_mode:AUTONOMOUS:dependency_install'' else ''run_mode:AUTONOMOUS'')
               | RmAllowlistSandbox \<Rightarrow>
                   if rp_contained rp then RunApprove ''run_mode:ALLOWLIST_SANDBOX:contained''
                   else RunAsk (case uncovered_code of None \<Rightarrow> ''NOT_IN_ALLOWLIST'' | Some s \<Rightarrow> s)
               | _ \<Rightarrow> RunAsk (case uncovered_code of None \<Rightarrow> ''NOT_IN_ALLOWLIST'' | Some s \<Rightarrow> s))))"

section \<open>What covers a command\<close>

lemma prefix_matches_iff: "prefix_matches pattern command \<longleftrightarrow> take (length pattern) command = pattern"
proof (induction pattern arbitrary: command)
  case Nil
  show ?case by (simp add: prefix_matches_def)
next
  case (Cons p ps)
  show ?case
  proof (cases command)
    case Nil
    then show ?thesis by (simp add: prefix_matches_def)
  next
    case c: (Cons c cs)
    with Cons.IH [of cs] show ?thesis by (auto simp: prefix_matches_def)
  qed
qed

lemma covering_loop_ok:
  assumes "covering_loop why rs command programs = Inr r"
  shows "r \<in> set rs \<and> take (length (ar_pattern r)) command = ar_pattern r \<and> ar_program_path r \<noteq> []
    \<and> command \<noteq> [] \<and> map_of programs (hd command) = Some (Some (ar_program_path r))"
  using assms
proof (induction rs arbitrary: why)
  case (Cons q rs)
  let ?now = "case command of [] \<Rightarrow> None | t # _ \<Rightarrow> map_of programs t"
  have "(\<exists>why. covering_loop why rs command programs = Inr r) \<or>
      (q = r \<and> prefix_matches (ar_pattern r) command \<and> ar_program_path r \<noteq> [] \<and> ?now = Some (Some (ar_program_path r)))"
    using Cons.prems unfolding covering_loop.simps
    by (cases ?now; cases "the ?now") (simp_all split: if_splits, blast+)
  then show ?case
  proof (elim disjE exE)
    fix why assume "covering_loop why rs command programs = Inr r"
    from Cons.IH [OF this] show ?case by simp
  next
    assume "q = r \<and> prefix_matches (ar_pattern r) command \<and> ar_program_path r \<noteq> [] \<and> ?now = Some (Some (ar_program_path r))"
    then show ?case by (cases command) (simp_all add: prefix_matches_iff)
  qed
qed simp

lemma cover_all_ok:
  assumes "cover_all rules programs used commands = Inr used'"
  shows "set used \<subseteq> set used' \<and> (set used \<subseteq> set rules \<longrightarrow> set used' \<subseteq> set rules)
    \<and> (\<forall>command \<in> set commands. \<exists>r. covering_rule rules command programs = Inr r
         \<and> (\<exists>u \<in> set used'. ar_rule_id u = ar_rule_id r))"
  using assms
proof (induction commands arbitrary: used)
  case (Cons command commands)
  then obtain r where r: "covering_rule rules command programs = Inr r"
    and rest: "cover_all rules programs
       (if list_ex (\<lambda>u. ar_rule_id u = ar_rule_id r) used then used else used @ [r]) commands = Inr used'"
    by auto
  have "r \<in> set rules" using r covering_loop_ok unfolding covering_rule_def by blast
  with Cons.IH [OF rest] r show ?case by (auto simp: list_ex_iff split: if_splits)
qed simp

text \<open>A rule of the task covers one simple command now: it is in scope and not expired, its pattern is a
  prefix, and the program is the file the rule was made for and none of the wrappers.\<close>

definition in_force :: "run_policy \<Rightarrow> int \<Rightarrow> allow_rule \<Rightarrow> bool" where
  "in_force rp now_ms r \<longleftrightarrow> r \<in> set (rp_rules rp)
     \<and> (case ar_expires_at_ms r of None \<Rightarrow> True | Some e \<Rightarrow> now_ms < e)
     \<and> (case ar_scope r of
          ScTask \<Rightarrow> ar_scope_key r = rp_task_id rp
        | ScRepo \<Rightarrow> same_root (ar_scope_key r) (rp_repo_root rp)
        | ScUser \<Rightarrow> True)"

definition covers_command :: "run_policy \<Rightarrow> int \<Rightarrow> allow_rule \<Rightarrow> string list \<Rightarrow> bool" where
  "covers_command rp now_ms r command \<longleftrightarrow> in_force rp now_ms r
     \<and> take (length (ar_pattern r)) command = ar_pattern r
     \<and> command \<noteq> [] \<and> program_name (hd command) \<notin> set WRAPPERS
     \<and> ar_program_path r \<noteq> [] \<and> map_of (rp_programs rp) (hd command) = Some (Some (ar_program_path r))"

lemma set_live_rules: "r \<in> set (live_rules rp now_ms) \<longleftrightarrow> in_force rp now_ms r"
  by (auto simp: live_rules_def in_force_def is_none_or_def split: option.splits)

lemma validated_pattern:
  assumes "validate_pattern pattern = Inr ()"
  shows "pattern \<noteq> [] \<and> program_name (hd pattern) \<notin> set WRAPPERS \<and> (\<forall>t \<in> set pattern. \<not> has_shell_syntax t \<and> \<not> names_computer t)"
proof -
  have "checks (map check_token pattern) = Inr ()" and rest: "pattern \<noteq> []" "\<not> list_ex names_computer pattern"
    "program_name (hd pattern) \<notin> set WRAPPERS"
    using assms by (auto simp: validate_pattern_def Let_def split: if_splits)
  then have "\<forall>t \<in> set pattern. check_token t = Inr ()" by (simp add: checks_ok)
  with rest show ?thesis by (auto simp: check_token_def list_ex_iff split: if_splits)
qed

lemma validated_rule:
  assumes "validate_rule r = Inr ()"
  shows "validate_pattern (ar_pattern r) = Inr () \<and> (ar_covers_always_ask r \<longrightarrow> ar_scope r \<noteq> ScUser \<and> 2 \<le> length (ar_pattern r))"
  using assms by (auto simp: validate_rule_def split: if_splits)

lemma covering_rule_covers:
  assumes "covering_rule (live_rules rp now_ms) command (rp_programs rp) = Inr r"
    and valid: "\<forall>r \<in> set (rp_rules rp). validate_rule r = Inr ()"
  shows "covers_command rp now_ms r command"
proof -
  note ok = covering_loop_ok [OF assms(1) [unfolded covering_rule_def]]
  then have force: "in_force rp now_ms r" by (simp add: set_live_rules)
  then have "validate_rule r = Inr ()" using valid by (simp add: in_force_def)
  then have p: "ar_pattern r \<noteq> []" "program_name (hd (ar_pattern r)) \<notin> set WRAPPERS"
    using validated_rule validated_pattern by blast+
  have "hd (ar_pattern r) = hd command"
    using ok p(1) by (metis hd_take length_greater_0_conv)
  with ok force p show ?thesis by (simp add: covers_command_def)
qed

lemma decide_rules_ok:
  assumes "decide_rules rp now_ms = Inr rule"
    and "distinct (map ar_rule_id (rp_rules rp))" "\<forall>r \<in> set (rp_rules rp). validate_rule r = Inr ()"
  shows "\<exists>argv commands. rp_argv rp = Some argv \<and> sub_commands argv = Some commands
    \<and> \<not> wrapper_in_workspace rp argv
    \<and> (\<forall>command \<in> set commands. \<exists>r. covers_command rp now_ms r command
         \<and> (asking rp \<noteq> [] \<longrightarrow> ar_covers_always_ask r))"
proof -
  obtain argv used where argv: "rp_argv rp = Some argv" and wrap: "\<not> wrapper_in_workspace rp argv"
    and used: "covering_rules (live_rules rp now_ms) argv (rp_programs rp) = Inr used"
    and ask: "asking rp = [] \<or> list_all ar_covers_always_ask used"
    using assms(1) by (auto simp: decide_rules_def split: option.splits if_splits sum.splits uncovered.splits)
  obtain commands where cs: "sub_commands argv = Some commands"
    and all: "cover_all (live_rules rp now_ms) (rp_programs rp) [] commands = Inr used"
    using used by (auto simp: covering_rules_def split: option.splits)
  note ok = cover_all_ok [OF all]
  have "\<exists>r. covers_command rp now_ms r command \<and> (asking rp \<noteq> [] \<longrightarrow> ar_covers_always_ask r)"
    if c: "command \<in> set commands" for command
  proof -
    obtain r u where r: "covering_rule (live_rules rp now_ms) command (rp_programs rp) = Inr r"
      and u: "u \<in> set used" "ar_rule_id u = ar_rule_id r"
      using ok c by blast
    have cov: "covers_command rp now_ms r command" using r assms(3) by (rule covering_rule_covers)
    have "u \<in> set (rp_rules rp)" using ok u(1) by (auto simp: set_live_rules in_force_def)
    moreover have "r \<in> set (rp_rules rp)" using cov by (simp add: covers_command_def in_force_def)
    ultimately have "u = r" using assms(2) u(2) by (auto simp: distinct_map inj_on_def)
    with ask u(1) cov show ?thesis by (auto simp: list_all_iff)
  qed
  with argv wrap cs show ?thesis by blast
qed

section \<open>Splitting a quoted script\<close>

definition quote_word :: "string \<Rightarrow> string" where
  "quote_word w = CHR 0x27 # w @ [CHR 0x27]"

definition quote_script :: "string list list \<Rightarrow> string" where
  "quote_script commands = join '' && '' (map (\<lambda>ws. join '' '' (map quote_word ws)) commands)"

lemma split_loop_single:
  "CHR 0x27 \<notin> set w \<Longrightarrow>
   split_loop QSingle sp (w @ CHR 0x27 # rest) = split_loop QNone (sp\<lparr>sp_word := sp_word sp @ w\<rparr>) rest"
  by (induction w arbitrary: sp) (auto simp: push_def)

definition between_words :: "splitter \<Rightarrow> bool" where
  "between_words sp \<longleftrightarrow> sp_word sp = [] \<and> \<not> sp_in_word sp"

lemma split_loop_word:
  assumes "between_words sp" "CHR 0x27 \<notin> set w"
  shows "split_loop QNone sp (quote_word w @ rest) =
    split_loop QNone (sp\<lparr>sp_word := w, sp_in_word := True\<rparr>) rest"
  using assms
  by (cases sp) (simp add: quote_word_def split_loop_single open_word_def between_words_def NOT_SIMPLE_def)

lemma split_loop_words:
  assumes "between_words sp" "ws \<noteq> []" "\<forall>w \<in> set ws. CHR 0x27 \<notin> set w"
  shows "split_loop QNone sp (join '' '' (map quote_word ws) @ rest) =
    split_loop QNone (sp\<lparr>sp_current := sp_current sp @ butlast ws, sp_word := last ws, sp_in_word := True\<rparr>) rest"
  using assms
proof (induction ws arbitrary: sp)
  case (Cons w ws)
  show ?case
  proof (cases "ws = []")
    case True
    with Cons.prems show ?thesis by (simp add: split_loop_word)
  next
    case False
    let ?sp = "sp\<lparr>sp_current := sp_current sp @ [w], sp_word := [], sp_in_word := False\<rparr>"
    have "split_loop QNone sp (join '' '' (map quote_word (w # ws)) @ rest)
        = split_loop QNone (sp\<lparr>sp_word := w, sp_in_word := True\<rparr>) ('' '' @ join '' '' (map quote_word ws) @ rest)"
      using False Cons.prems by (simp add: join_Cons split_loop_word)
    also have "\<dots> = split_loop QNone ?sp (join '' '' (map quote_word ws) @ rest)"
      by (simp add: end_word_def)
    also have "\<dots> = split_loop QNone (?sp\<lparr>sp_current := sp_current ?sp @ butlast ws,
        sp_word := last ws, sp_in_word := True\<rparr>) rest"
      using False Cons.prems by (intro Cons.IH) (simp_all add: between_words_def)
    finally show ?thesis using False by simp
  qed
qed simp

lemma split_loop_script:
  assumes "between_words sp" "sp_current sp = []" "commands \<noteq> []"
    and "\<forall>ws \<in> set commands. ws \<noteq> [] \<and> (\<forall>w \<in> set ws. CHR 0x27 \<notin> set w)"
  shows "split_loop QNone sp (quote_script commands) = Some (QNone,
    sp\<lparr>sp_commands := sp_commands sp @ butlast commands, sp_current := butlast (last commands),
       sp_word := last (last commands), sp_in_word := True\<rparr>)"
  using assms
proof (induction commands arbitrary: sp)
  case (Cons ws commands)
  show ?case
  proof (cases "commands = []")
    case True
    with Cons.prems split_loop_words [of sp ws "[]"] show ?thesis by (simp add: quote_script_def)
  next
    case False
    let ?sp = "sp\<lparr>sp_commands := sp_commands sp @ [ws], sp_current := [], sp_word := [], sp_in_word := False\<rparr>"
    have "split_loop QNone sp (quote_script (ws # commands))
        = split_loop QNone sp (join '' '' (map quote_word ws) @ '' && '' @ quote_script commands)"
      using False by (simp add: quote_script_def join_Cons)
    also have "\<dots> = split_loop QNone (sp\<lparr>sp_current := butlast ws, sp_word := last ws, sp_in_word := True\<rparr>)
        ('' && '' @ quote_script commands)"
      using Cons.prems by (subst split_loop_words) simp_all
    also have "\<dots> = split_loop QNone ?sp (quote_script commands)"
      using Cons.prems by (cases sp) (simp add: end_word_def end_command_def)
    also have "\<dots> = Some (QNone, ?sp\<lparr>sp_commands := sp_commands ?sp @ butlast commands,
        sp_current := butlast (last commands), sp_word := last (last commands), sp_in_word := True\<rparr>)"
      using False Cons.prems by (intro Cons.IH) (simp_all add: between_words_def)
    finally show ?thesis using False by simp
  qed
qed simp

lemma quote_script_last:
  assumes "commands \<noteq> []" "\<forall>ws \<in> set commands. ws \<noteq> []"
  shows "\<exists>s. quote_script commands = s @ [CHR 0x27]"
proof -
  have words: "ws \<noteq> [] \<Longrightarrow> \<exists>s. join '' '' (map quote_word ws) = s @ [CHR 0x27]" for ws
  proof (induction ws)
    case (Cons w ws)
    then show ?case by (cases "ws = []") (auto simp: quote_word_def join_Cons)
  qed simp
  show ?thesis
    using assms
  proof (induction commands)
    case (Cons ws commands)
    then show ?case
      using words [of ws] by (cases "commands = []") (auto simp: quote_script_def join_Cons)
  qed simp
qed

section \<open>Ranks\<close>

lemma run_decide_rank_mono:
  assumes "run_decide rp now_ms = RunApprove rule" "run_mode_rank (rp_mode rp) \<le> run_mode_rank m"
  shows "\<exists>rule'. run_decide (rp\<lparr>rp_mode := m\<rparr>) now_ms = RunApprove rule'"
proof -
  let ?rp = "rp\<lparr>rp_mode := m\<rparr>"
  have same: "live_rules ?rp now_ms = live_rules rp now_ms" "wrapper_in_workspace ?rp = wrapper_in_workspace rp"
    by (simp_all add: live_rules_def wrapper_in_workspace_def fun_eq_iff
      cong: rule_scope.case_cong list.case_cong if_cong option.case_cong)
  have mode: "rp_mode rp \<noteq> RmAsk" using assms(1) by (auto simp: run_decide_def Let_def)
  then have m: "m \<noteq> RmAsk" using assms(2) by (cases "rp_mode rp") auto
  have ask: "asking ?rp = []" if "asking rp = []"
    using that assms(2) by (cases "rp_mode rp"; cases m) (auto simp: asking_def filter_empty_conv)
  show ?thesis
  proof (cases "decide_rules rp now_ms")
    case (Inr r)
    then have "decide_rules ?rp now_ms = Inr r"
      using ask by (auto simp: decide_rules_def same split: option.splits if_splits sum.splits uncovered.splits)
    then show ?thesis using m by (simp add: run_decide_def)
  next
    case (Inl code)
    then have none: "asking rp = []" "asking ?rp = []"
      using assms(1) mode ask by (auto simp: run_decide_def Let_def split: if_splits)
    have "rp_mode rp = RmAllowlistSandbox \<and> rp_contained rp \<or> rp_mode rp = RmRunEverything \<or> rp_mode rp = RmAutonomous"
      using Inl none assms(1) mode by (cases "rp_mode rp") (auto simp: run_decide_def Let_def split: if_splits)
    then show ?thesis
      using assms(2) m none by (cases "decide_rules ?rp now_ms"; cases m) (auto simp: run_decide_def Let_def)
  qed
qed

section \<open>Properties\<close>

text \<open>
  C36: A script whose words are single-quoted, separated by blanks within a command and by
  \<open>&&\<close> between commands, is split into exactly its commands and words, whatever characters
  other than the single quote the words hold; nothing inside the quotes acts as shell syntax.
\<close>

theorem split_quoted_script:
  assumes "commands \<noteq> []" "\<forall>ws \<in> set commands. ws \<noteq> [] \<and> (\<forall>w \<in> set ws. CHR 0x27 \<notin> set w)"
  shows "split_script (quote_script commands) = Some commands"
proof -
  obtain s where s: "quote_script commands = s @ [CHR 0x27]"
    using quote_script_last assms by blast
  then have t: "trim_end (quote_script commands) = s @ [CHR 0x27]"
    by (simp add: trim_end_def is_whitespace_def)
  have no: "\<not> ends_with (s @ [CHR 0x27]) [c, c]" if "c \<noteq> CHR 0x27" for c
    using that by (auto simp: ends_with_iff append_eq_append_conv2 Cons_eq_append_conv)
  have "butlast (last commands) @ [last (last commands)] = last commands" "butlast commands @ [last commands] = commands"
    using assms by simp_all
  then show ?thesis
    using split_loop_script [of split_start commands] assms no [of "CHR ''&''"] no [of "CHR ''|''"]
    by (simp add: split_script_def split_start_def between_words_def end_word_def t Let_def)
qed

theorem split_quoted_script_witness:
  "split_script (quote_script [[''echo'', ''$(rm -rf /); a | b''], [''true'']]) =
     Some [[''echo'', ''$(rm -rf /); a | b''], [''true'']]"
  by (rule split_quoted_script) simp_all

text \<open>
  C34: What an approval by a run mode rests on, when the rules passed validation and have their
  own ids. The mode is not ASK. Either the call is a command, its shell is not a file of the
  workspace, and every simple command in it is covered by a rule that is in scope, not
  expired, pinned to the program that would run and names no wrapper, where each of these
  rules was made for always-ask effects, not for all of a user's tasks, if the call has any;
  or nothing about the call always asks and the mode is one that approves such calls.
\<close>

theorem run_approval_justified:
  assumes "run_decide rp now_ms = RunApprove rule"
    and "distinct (map ar_rule_id (rp_rules rp))" "\<forall>r \<in> set (rp_rules rp). validate_rule r = Inr ()"
  shows "rp_mode rp \<noteq> RmAsk \<and>
    ((\<exists>argv commands. rp_argv rp = Some argv \<and> sub_commands argv = Some commands
        \<and> \<not> wrapper_in_workspace rp argv
        \<and> (\<forall>command \<in> set commands. \<exists>r. covers_command rp now_ms r command
             \<and> (asking rp \<noteq> [] \<longrightarrow> ar_covers_always_ask r \<and> ar_scope r \<noteq> ScUser)))
     \<or> (asking rp = [] \<and> (rp_mode rp = RmAllowlistSandbox \<and> rp_contained rp
          \<or> rp_mode rp = RmRunEverything \<or> rp_mode rp = RmAutonomous)))"
proof -
  have mode: "rp_mode rp \<noteq> RmAsk"
    using assms(1) by (auto simp: run_decide_def Let_def)
  show ?thesis
  proof (cases "decide_rules rp now_ms")
    case (Inl code)
    with assms(1) mode have "asking rp = []"
      by (auto simp: run_decide_def Let_def split: if_splits)
    with Inl assms(1) mode show ?thesis
      by (cases "rp_mode rp") (auto simp: run_decide_def Let_def split: if_splits)
  next
    case (Inr r)
    have narrow: "ar_scope r \<noteq> ScUser" if "covers_command rp now_ms r command" "ar_covers_always_ask r" for r command
      using that assms(3) validated_rule unfolding covers_command_def in_force_def by blast
    from decide_rules_ok [OF Inr assms(2,3)] mode show ?thesis using narrow by metis
  qed
qed

definition sample_rule :: allow_rule where
  "sample_rule = \<lparr>ar_rule_id = ''r1'', ar_pattern = [''cargo'', ''test''], ar_program_path = ''/usr/bin/cargo'',
     ar_scope = ScRepo, ar_scope_key = ''/repo'', ar_created_by = ''user:1'', ar_created_at_ms = 1,
     ar_expires_at_ms = Some 100, ar_covers_always_ask = True, ar_origin_task = ''t''\<rparr>"

definition sample_policy :: run_policy where
  "sample_policy = \<lparr>rp_mode = RmAllowlist, rp_task_id = ''t'', rp_repo_root = ''/repo/'',
     rp_rules = [sample_rule], rp_argv = Some [''sh'', ''-c'', ''cargo test --all; cargo test''],
     rp_programs = [(''cargo'', Some ''/usr/bin/cargo''), (''sh'', Some ''/bin/sh'')],
     rp_ask_classes = [AcNetwork], rp_dependency_install = False, rp_contained = False\<rparr>"

lemma sample_policy_approves: "run_decide sample_policy 7 = RunApprove ''allowlist:r1''"
  by code_simp

theorem run_approval_justified_witness:
  "sub_commands [''sh'', ''-c'', ''cargo test --all; cargo test''] = Some [[''cargo'', ''test'', ''--all''], [''cargo'', ''test'']]
   \<and> (\<exists>r. covers_command sample_policy 7 r [''cargo'', ''test''] \<and> ar_covers_always_ask r)"
proof -
  have d: "distinct (map ar_rule_id (rp_rules sample_policy))" by code_simp
  have "list_all (\<lambda>r. validate_rule r = Inr ()) (rp_rules sample_policy)" by code_simp
  then have v: "\<forall>r \<in> set (rp_rules sample_policy). validate_rule r = Inr ()" by (simp add: list_all_iff)
  have c: "sub_commands [''sh'', ''-c'', ''cargo test --all; cargo test''] = Some [[''cargo'', ''test'', ''--all''], [''cargo'', ''test'']]"
    by code_simp
  have p: "rp_argv sample_policy = Some [''sh'', ''-c'', ''cargo test --all; cargo test'']" by (simp add: sample_policy_def)
  have a: "asking sample_policy = [AcNetwork]" by code_simp
  have m: "rp_mode sample_policy = RmAllowlist" by (simp add: sample_policy_def)
  from run_approval_justified [OF sample_policy_approves d v] p c a m show ?thesis by auto
qed

text \<open>
  C35: A run mode of a higher rank approves at least what a lower one approves: whatever runs
  without asking under a mode still does when the task moves to a mode of the same or a higher
  rank.
\<close>

theorem higher_mode_approves_more:
  assumes "run_decide rp now_ms = RunApprove rule" "run_mode_rank (rp_mode rp) \<le> run_mode_rank m"
  shows "\<exists>rule'. run_decide (rp\<lparr>rp_mode := m\<rparr>) now_ms = RunApprove rule'"
  using assms by (rule run_decide_rank_mono)

theorem higher_mode_approves_more_witness:
  "\<exists>rule. run_decide (sample_policy\<lparr>rp_mode := RmAutonomous\<rparr>) 7 = RunApprove rule"
  by (rule higher_mode_approves_more [OF sample_policy_approves]) (simp add: sample_policy_def)

end
