(* ===== verification/Kernel.thy ===== *)
theory Kernel
  imports Approval Config Run_Mode
begin

text \<open>
  \<open>crates/policy/src/kernel.rs\<close>: the capability kernel, the decision every tool call passes
  before any effect. A denial is its stable code; the reasons of an approval request and the
  scope it would bind are values, the JSON object of the scope is the record \<open>ask_scope\<close>. The
  assurance section of the envelope is not read by the kernel and is left out. Lower-casing the
  name of the allowing rule is the ASCII one. The lemmas characterize when the kernel allows,
  show that tightening any input never turns a refusal into a permission, and give the meaning
  of the resource globs.
\<close>

section \<open>Policy envelope\<close>

definition PROFILE_LOCAL_AUTONOMOUS :: string where
  "PROFILE_LOCAL_AUTONOMOUS = ''local_autonomous''"

definition PROFILE_LOCAL_TRUSTED :: string where
  "PROFILE_LOCAL_TRUSTED = ''local_trusted''"

definition PROFILE_REVIEW_ISOLATED :: string where
  "PROFILE_REVIEW_ISOLATED = ''review_isolated''"

definition PROFILE_PLAN :: string where
  "PROFILE_PLAN = ''plan''"

definition PROFILE_CLOUD_ISOLATED :: string where
  "PROFILE_CLOUD_ISOLATED = ''cloud_isolated''"

record policy_envelope =
  pe_profile_ceilings :: "(string \<times> effect_class) list"
  pe_profile_denied_capabilities :: "(string \<times> string list) list"
  pe_denied_capabilities :: "string list"
  pe_approval_effects :: "effect_class list"
  pe_no_approval_profiles :: "string list"

definition default_envelope :: policy_envelope where
  "default_envelope = \<lparr>
     pe_profile_ceilings = [(PROFILE_CLOUD_ISOLATED, Destructive), (PROFILE_LOCAL_AUTONOMOUS, ReversibleWrite),
       (PROFILE_LOCAL_TRUSTED, Destructive), (PROFILE_PLAN, ReadOnly), (PROFILE_REVIEW_ISOLATED, ReversibleWrite)],
     pe_profile_denied_capabilities =
       [(PROFILE_LOCAL_AUTONOMOUS, [''deploy'', ''secret.use'']),
        (PROFILE_REVIEW_ISOLATED, [''deploy'', ''external.call'', ''git.commit'', ''git.push'', ''network.egress'', ''secret.use''])],
     pe_denied_capabilities = [],
     pe_approval_effects = [ProtectedWrite, ExternalSideEffect, SecretAccess, Destructive],
     pe_no_approval_profiles = [PROFILE_LOCAL_AUTONOMOUS]\<rparr>"

section \<open>Resources\<close>

record resource_target =
  rt_capability :: string
  rt_resource :: string

record resource_selector =
  sel_capability :: string
  sel_pattern :: string

definition selector_parse :: "string \<Rightarrow> resource_selector option" where
  "selector_parse s = (case split_once CHR '':'' s of
     None \<Rightarrow> None
   | Some (capability, pattern) \<Rightarrow>
       if capability \<noteq> [] \<and> list_all (\<lambda>b. is_ascii_alphanumeric b \<or> b \<in> {CHR ''.'', CHR ''_'', CHR ''-''}) capability
          \<and> pattern \<noteq> [] \<and> length pattern \<le> 4096 \<and> CHR 0x00 \<notin> set pattern
       then Some \<lparr>sel_capability = capability, sel_pattern = pattern\<rparr> else None)"

definition squeeze :: "string \<Rightarrow> string" where
  "squeeze s = foldl (\<lambda>out c. if c \<noteq> CHR ''/'' \<or> \<not> ends_with out ''/'' then out @ [c] else out) [] s"

fun glob :: "string \<Rightarrow> string \<Rightarrow> bool" where
  "glob [] s = (s = [])"
| "glob (c # rest) s =
     (if c = CHR ''*'' then
        (if starts_with rest ''*''
         then list_ex (\<lambda>i. glob (tl rest) (drop i s)) [0..<Suc (length s)]
         else list_ex (\<lambda>i. glob rest (drop i s)) [0..<Suc (length (takeWhile (\<lambda>b. b \<noteq> CHR ''/'') s))])
      else if c = CHR ''?'' then (case s of [] \<Rightarrow> False | x # tail \<Rightarrow> x \<noteq> CHR ''/'' \<and> glob rest tail)
      else (case s of [] \<Rightarrow> False | x # tail \<Rightarrow> x = c \<and> glob rest tail))"

definition covers :: "resource_selector \<Rightarrow> string \<Rightarrow> bool" where
  "covers sel resource =
     (let pattern = squeeze (replace_char CHR 0x5C CHR ''/'' (sel_pattern sel));
          resource = squeeze (replace_char CHR 0x5C CHR ''/'' resource)
      in glob pattern resource
         \<or> (case strip_suffix pattern ''/**'' of
              None \<Rightarrow> False
            | Some dir \<Rightarrow> dir = trim_end_chars [CHR ''/''] resource))"

section \<open>Request and decision\<close>

record kernel_request =
  kr_tool_name :: string
  kr_effect_class :: effect_class
  kr_required_capabilities :: "string list"
  kr_execution_profile :: string
  kr_mode :: task_mode
  kr_lease :: "capability_lease option"
  kr_targets :: "resource_target list"
  kr_approval :: "approval option"
  kr_intent_hash :: string
  kr_config :: "resolved_config option"
  kr_run :: "run_policy option"
  kr_emergency_stopped :: bool
  kr_now :: timestamp

datatype kernel_rule = KrProfile string | KrApproval uuid | KrRun string

datatype ask_reason = AskByConfig string | AskByEffect effect_class

datatype approval_reason = NeedsApproval ask_reason "string option" | AlreadyUsed uuid

record ask_scope =
  as_tool :: string
  as_effect_class :: effect_class
  as_capabilities :: "string list"
  as_execution_profile :: string
  as_lease_id :: uuid
  as_intent_hash :: string
  as_supersedes_approval :: "uuid option"
  as_run_mode :: "string option"
  as_ask_classes :: "string list option"
  as_contained :: "bool option"
  as_ask_reason :: "string option"
  as_computer_control :: bool

datatype kernel_decision =
    KdAllow kernel_rule "uuid option"
  | KdDeny string
  | KdApprovalRequired approval_reason ask_scope

fun effect_class_debug :: "effect_class \<Rightarrow> string" where
  "effect_class_debug ReadOnly = ''ReadOnly''"
| "effect_class_debug ReversibleWrite = ''ReversibleWrite''"
| "effect_class_debug ProtectedWrite = ''ProtectedWrite''"
| "effect_class_debug ExternalSideEffect = ''ExternalSideEffect''"
| "effect_class_debug SecretAccess = ''SecretAccess''"
| "effect_class_debug Destructive = ''Destructive''"

section \<open>Deciding\<close>

definition posture_denial :: "task_mode \<Rightarrow> effect_class \<Rightarrow> string list \<Rightarrow> string option" where
  "posture_denial mode effect required =
     map_option (\<lambda>_. ''MODE_POSTURE'') (refusal (posture mode) effect required)"

text \<open>Step 2: the lease, its operations and its resources.\<close>

definition check_lease :: "kernel_request \<Rightarrow> string + capability_lease" where
  "check_lease req = (case kr_lease req of
     None \<Rightarrow> Inl ''LEASE_REQUIRED''
   | Some lease \<Rightarrow>
       if \<not> lease_is_valid lease (kr_now req) then Inl ''LEASE_INVALID''
       else if cl_execution_profile lease \<noteq> kr_execution_profile req then Inl ''LEASE_PROFILE_MISMATCH''
       else if list_ex (\<lambda>c. \<not> list_ex (\<lambda>op. op = c) (cl_operations lease)) (kr_required_capabilities req)
         then Inl ''CAPABILITY_NOT_LEASED''
       else Inr lease)"

fun parse_selectors :: "string list \<Rightarrow> string + resource_selector list" where
  "parse_selectors [] = Inr []"
| "parse_selectors (s # ss) = (case selector_parse s of
     None \<Rightarrow> Inl ''LEASE_RESOURCE_MALFORMED''
   | Some sel \<Rightarrow> rbind (parse_selectors ss) (\<lambda>sels. Inr (sel # sels)))"

definition check_target :: "resource_selector list \<Rightarrow> resource_target \<Rightarrow> string + unit" where
  "check_target selectors t =
     (let named = filter (\<lambda>s. sel_capability s = rt_capability t) selectors
      in if named = [] then Inl ''LEASE_RESOURCE_NOT_COVERED''
         else if \<not> list_ex (\<lambda>s. covers s (rt_resource t)) named then Inl ''LEASE_RESOURCE_NOT_COVERED''
         else Inr ())"

text \<open>Steps 3 to 4: the envelope, the posture of the mode, the ceiling of the lease.\<close>

definition check_envelope :: "policy_envelope \<Rightarrow> kernel_request \<Rightarrow> capability_lease \<Rightarrow> string + unit" where
  "check_envelope env req lease =
     (case map_of (pe_profile_ceilings env) (kr_execution_profile req) of
        None \<Rightarrow> Inl ''PROFILE_UNSUPPORTED''
      | Some ceiling \<Rightarrow>
          if list_ex (\<lambda>c. c \<in> set (pe_denied_capabilities env)) (kr_required_capabilities req)
            then Inl ''CAPABILITY_DENIED_BY_POLICY''
          else if list_ex (\<lambda>c. case map_of (pe_profile_denied_capabilities env) (kr_execution_profile req) of
                  None \<Rightarrow> False | Some d \<Rightarrow> c \<in> set d) (kr_required_capabilities req)
            then Inl ''CAPABILITY_DENIED_FOR_PROFILE''
          else if kr_effect_class req > ceiling then Inl ''PROFILE_CEILING''
          else (case posture_denial (kr_mode req) (kr_effect_class req) (kr_required_capabilities req) of
              Some code \<Rightarrow> Inl code
            | None \<Rightarrow>
                if kr_effect_class req > cl_effect_ceiling lease then Inl ''LEASE_CEILING'' else Inr ()))"

text \<open>Step 5: the resolved configuration: a denial, or the first capability it asks for.\<close>

fun config_asks :: "resolved_config \<Rightarrow> ask_reason option \<Rightarrow> string list \<Rightarrow> string + ask_reason option" where
  "config_asks cfg ask [] = Inr ask"
| "config_asks cfg ask (c # cs) = (case map_option rs_value (map_of (rc_permissions cfg) c) of
     Some PmDeny \<Rightarrow> Inl ''CAPABILITY_DENIED_BY_CONFIG''
   | Some PmAsk \<Rightarrow> config_asks cfg (if ask = None then Some (AskByConfig c) else ask) cs
   | _ \<Rightarrow> config_asks cfg ask cs)"

definition needs_sandbox :: "resolved_config \<Rightarrow> kernel_request \<Rightarrow> bool" where
  "needs_sandbox cfg req \<longleftrightarrow>
     (case rc_device cfg of None \<Rightarrow> False | Some d \<Rightarrow> dc_sandbox_required (rs_value d) = Some True)
   \<and> list_ex (\<lambda>c. c = ''shell.exec'') (kr_required_capabilities req)
   \<and> kr_execution_profile req \<notin> {PROFILE_REVIEW_ISOLATED, PROFILE_CLOUD_ISOLATED}"

definition check_config :: "kernel_request \<Rightarrow> string + ask_reason option" where
  "check_config req = (case kr_config req of
     None \<Rightarrow> Inr None
   | Some cfg \<Rightarrow>
       if needs_sandbox cfg req then Inl ''DEVICE_REQUIRES_SANDBOX''
       else config_asks cfg None (kr_required_capabilities req))"

text \<open>Step 6: what asks, and step 7: who answers.\<close>

definition computer_control :: "kernel_request \<Rightarrow> bool" where
  "computer_control req \<longleftrightarrow>
     list_ex (\<lambda>c. c = ''computer.act'' \<or> c = ''computer.screen'') (kr_required_capabilities req)"

definition asks :: "policy_envelope \<Rightarrow> kernel_request \<Rightarrow> ask_reason option \<Rightarrow> ask_reason option" where
  "asks env req by_config =
     (if (kr_effect_class req \<in> set (pe_approval_effects env) \<or> computer_control req) \<and> by_config = None
      then Some (AskByEffect (kr_effect_class req)) else by_config)"

definition run_answer :: "kernel_request \<Rightarrow> run_decision option" where
  "run_answer req =
     (if computer_control req then Some (RunAsk ''ALWAYS_ASK:COMPUTER_CONTROL'')
      else (case kr_run req of None \<Rightarrow> None | Some r \<Rightarrow> Some (run_decide r (kr_now req))))"

definition run_ask_code :: "kernel_request \<Rightarrow> string option" where
  "run_ask_code req = (case run_answer req of Some (RunAsk code) \<Rightarrow> Some code | _ \<Rightarrow> None)"

definition run_approves :: "kernel_request \<Rightarrow> string option" where
  "run_approves req = (case run_answer req of Some (RunApprove rule) \<Rightarrow> Some rule | _ \<Rightarrow> None)"

definition scope_of :: "kernel_request \<Rightarrow> capability_lease \<Rightarrow> uuid option \<Rightarrow> ask_scope" where
  "scope_of req lease supersedes = \<lparr>
     as_tool = kr_tool_name req, as_effect_class = kr_effect_class req,
     as_capabilities = kr_required_capabilities req, as_execution_profile = kr_execution_profile req,
     as_lease_id = cl_lease_id lease, as_intent_hash = kr_intent_hash req,
     as_supersedes_approval = supersedes,
     as_run_mode = map_option (\<lambda>r. run_mode_name (rp_mode r)) (kr_run req),
     as_ask_classes = (if computer_control req then Some [''COMPUTER_CONTROL'']
       else map_option (\<lambda>r. map ask_class_name (rp_ask_classes r)) (kr_run req)),
     as_contained = map_option rp_contained (kr_run req),
     as_ask_reason = run_ask_code req, as_computer_control = computer_control req\<rparr>"

definition answer :: "kernel_request \<Rightarrow> capability_lease \<Rightarrow> ask_reason \<Rightarrow> kernel_decision" where
  "answer req lease reason = (case kr_approval req of
     Some a \<Rightarrow>
       if authorizes a (kr_intent_hash req) (kr_now req)
         then KdAllow (KrApproval (ap_approval_id a)) (Some (ap_approval_id a))
       else if ap_state a = ApDenied then KdDeny ''APPROVAL_DENIED''
       else if is_consumed a then
         (case run_approves req of
            Some rule \<Rightarrow> KdAllow (KrRun rule) None
          | None \<Rightarrow> KdApprovalRequired (AlreadyUsed (ap_approval_id a)) (scope_of req lease (Some (ap_approval_id a))))
       else if ap_state a = ApApproved then KdDeny ''APPROVAL_MISMATCH''
       else KdApprovalRequired (NeedsApproval reason (run_ask_code req)) (scope_of req lease None)
   | None \<Rightarrow>
       (case run_approves req of
          Some rule \<Rightarrow> KdAllow (KrRun rule) None
        | None \<Rightarrow> KdApprovalRequired (NeedsApproval reason (run_ask_code req)) (scope_of req lease None)))"

text \<open>Steps 2 to 6: the code of a denial, or the lease and why the call asks, if it does.\<close>

definition clearance :: "policy_envelope \<Rightarrow> kernel_request \<Rightarrow> string + capability_lease \<times> ask_reason option" where
  "clearance env req =
     rbind (check_lease req) (\<lambda>lease.
     rbind (parse_selectors (cl_resources lease)) (\<lambda>selectors.
     rbind (checks (map (check_target selectors) (kr_targets req))) (\<lambda>_.
     rbind (check_envelope env req lease) (\<lambda>_.
     rbind (check_config req) (\<lambda>by_config.
     Inr (lease, asks env req by_config))))))"

definition decide :: "policy_envelope \<Rightarrow> kernel_request \<Rightarrow> kernel_decision" where
  "decide env req =
     (if kr_emergency_stopped req \<and> kr_effect_class req \<noteq> ReadOnly then KdDeny ''EMERGENCY_STOP''
      else (case clearance env req of
           Inl code \<Rightarrow> KdDeny code
         | Inr (lease, None) \<Rightarrow>
             KdAllow (KrProfile (to_ascii_lowercase
               (kr_execution_profile req @ '':'' @ effect_class_debug (kr_effect_class req)))) None
         | Inr (lease, Some reason) \<Rightarrow>
             if kr_execution_profile req \<in> set (pe_no_approval_profiles env) then KdDeny ''APPROVAL_UNAVAILABLE''
             else answer req lease reason))"

section \<open>Default leases\<close>

definition default_operations :: "string \<Rightarrow> string list" where
  "default_operations profile =
     (if profile = PROFILE_PLAN then [''fs.read'', ''git.read'', ''memory.query'', ''external.list'']
      else if profile = PROFILE_REVIEW_ISOLATED then
        [''fs.read'', ''fs.write'', ''git.read'', ''shell.exec'', ''memory.query'', ''external.list'']
      else if profile = PROFILE_CLOUD_ISOLATED then
        [''fs.read'', ''fs.write'', ''git.read'', ''shell.exec'', ''network.egress'', ''secret.use'',
         ''browser.control'', ''memory.query'', ''memory.propose'', ''external.list'', ''external.call'']
      else if profile = PROFILE_LOCAL_AUTONOMOUS then
        [''fs.read'', ''fs.write'', ''git.read'', ''git.worktree'', ''git.merge'', ''git.apply'', ''shell.exec'',
         ''browser.control'', ''memory.query'', ''memory.propose'', ''external.list'', ''external.call'']
      else
        [''fs.read'', ''fs.write'', ''git.read'', ''git.worktree'', ''git.merge'', ''git.apply'', ''git.commit'',
         ''git.push'', ''shell.exec'', ''network.egress'', ''secret.use'', ''browser.control'',
         ''computer.observe'', ''computer.act'', ''computer.screen'', ''memory.query'', ''memory.propose'',
         ''external.list'', ''external.call''])"

definition default_resource :: "string \<Rightarrow> string \<Rightarrow> string" where
  "default_resource root op =
     (if op = ''network.egress'' then ''network.egress:forge-api:443''
      else if op = ''secret.use'' then ''secret.use:forge-token -> forge-api''
      else if op = ''browser.control'' then ''browser.control:task-session''
      else if op \<in> {''computer.observe'', ''computer.act'', ''computer.screen''} then op @ '':approved-application''
      else if op = ''memory.query'' then ''memory.query:scope-chain''
      else if op = ''memory.propose'' then ''memory.propose:scope-chain''
      else if op = ''external.list'' then ''external.list:configured-servers''
      else if op = ''external.call'' then ''external.call:configured-servers''
      else op @ '':'' @ root @ ''/**'')"

definition default_lease_for_profile ::
  "string \<Rightarrow> string option \<Rightarrow> string list \<times> string list \<times> effect_class" where
  "default_lease_for_profile profile workspace_root =
     (let root = (case workspace_root of None \<Rightarrow> ''<none>'' | Some r \<Rightarrow> r);
          ops = default_operations profile;
          ceiling = (if profile = PROFILE_LOCAL_TRUSTED \<or> profile = PROFILE_CLOUD_ISOLATED then Destructive
                     else if profile = PROFILE_PLAN then ReadOnly else ReversibleWrite)
      in (map (default_resource root) ops, ops, ceiling))"

section \<open>Globs\<close>

datatype glob_token = GLit char | GAny | GStar | GDStar

fun glob_tokens :: "string \<Rightarrow> glob_token list" where
  "glob_tokens [] = []"
| "glob_tokens (c # rest) =
     (if c = CHR ''*'' then
        (if starts_with rest ''*'' then GDStar # glob_tokens (tl rest) else GStar # glob_tokens rest)
      else if c = CHR ''?'' then GAny # glob_tokens rest
      else GLit c # glob_tokens rest)"

text \<open>What a token stands for: itself, one character of a segment, a run within one segment, any run.\<close>

fun fits :: "glob_token \<Rightarrow> string \<Rightarrow> bool" where
  "fits (GLit c) u \<longleftrightarrow> u = [c]"
| "fits GAny u \<longleftrightarrow> (\<exists>c. u = [c] \<and> c \<noteq> CHR ''/'')"
| "fits GStar u \<longleftrightarrow> CHR ''/'' \<notin> set u"
| "fits GDStar u \<longleftrightarrow> True"

definition reads_as :: "glob_token list \<Rightarrow> string \<Rightarrow> bool" where
  "reads_as ts s \<longleftrightarrow> (\<exists>us. s = concat us \<and> list_all2 fits ts us)"

lemma reads_as_Nil [simp]: "reads_as [] s \<longleftrightarrow> s = []"
  by (simp add: reads_as_def)

lemma reads_as_Cons: "reads_as (t # ts) s \<longleftrightarrow> (\<exists>u v. s = u @ v \<and> fits t u \<and> reads_as ts v)"
proof
  assume "reads_as (t # ts) s"
  then obtain u us where "s = u @ concat us" "fits t u" "list_all2 fits ts us"
    by (auto simp: reads_as_def list_all2_Cons1)
  then show "\<exists>u v. s = u @ v \<and> fits t u \<and> reads_as ts v" unfolding reads_as_def by blast
next
  assume "\<exists>u v. s = u @ v \<and> fits t u \<and> reads_as ts v"
  then obtain u us where "s = concat (u # us)" "list_all2 fits (t # ts) (u # us)"
    by (auto simp: reads_as_def)
  then show "reads_as (t # ts) s" unfolding reads_as_def by blast
qed

lemma ex_split_drop: "(\<exists>u v. s = u @ v \<and> P v) \<longleftrightarrow> (\<exists>i \<le> length s. P (drop i s))"
proof
  assume "\<exists>u v. s = u @ v \<and> P v"
  then obtain u v where "s = u @ v" "P v" by blast
  then show "\<exists>i \<le> length s. P (drop i s)" by (intro exI [of _ "length u"]) simp
next
  assume "\<exists>i \<le> length s. P (drop i s)"
  then show "\<exists>u v. s = u @ v \<and> P v" by (metis append_take_drop_id)
qed

lemma ex_segment_drop:
  "(\<exists>u v. s = u @ v \<and> x \<notin> set u \<and> P v) \<longleftrightarrow> (\<exists>i \<le> length (takeWhile (\<lambda>b. b \<noteq> x) s). P (drop i s))"
proof
  assume "\<exists>u v. s = u @ v \<and> x \<notin> set u \<and> P v"
  then obtain u v where s: "s = u @ v" "x \<notin> set u" "P v" by blast
  then have "takeWhile (\<lambda>b. b \<noteq> x) s = u @ takeWhile (\<lambda>b. b \<noteq> x) v"
    by (induction u arbitrary: s) auto
  with s show "\<exists>i \<le> length (takeWhile (\<lambda>b. b \<noteq> x) s). P (drop i s)" by (intro exI [of _ "length u"]) simp
next
  assume "\<exists>i \<le> length (takeWhile (\<lambda>b. b \<noteq> x) s). P (drop i s)"
  then obtain i where i: "i \<le> length (takeWhile (\<lambda>b. b \<noteq> x) s)" "P (drop i s)" by blast
  have "x \<notin> set (take i s)" using i(1)
  proof (induction s arbitrary: i)
    case (Cons y s)
    then show ?case by (cases i) (auto split: if_splits)
  qed simp
  with i(2) have "s = take i s @ drop i s \<and> x \<notin> set (take i s) \<and> P (drop i s)" by simp
  then show "\<exists>u v. s = u @ v \<and> x \<notin> set u \<and> P v" by blast
qed

lemma list_ex_upt_Suc: "list_ex P [0..<Suc n] \<longleftrightarrow> (\<exists>i \<le> n. P i)"
  by (auto simp: list_ex_iff Bex_def less_Suc_eq_le simp del: upt_Suc)

lemma reads_as_GStar:
  "reads_as (GStar # ts) s \<longleftrightarrow> (\<exists>i \<le> length (takeWhile (\<lambda>b. b \<noteq> CHR ''/'') s). reads_as ts (drop i s))"
  unfolding reads_as_Cons fits.simps by (rule ex_segment_drop)

lemma reads_as_GDStar: "reads_as (GDStar # ts) s \<longleftrightarrow> (\<exists>i \<le> length s. reads_as ts (drop i s))"
  unfolding reads_as_Cons fits.simps simp_thms by (rule ex_split_drop)

lemma reads_as_one:
  "reads_as (GAny # ts) s \<longleftrightarrow> (case s of [] \<Rightarrow> False | x # tail \<Rightarrow> x \<noteq> CHR ''/'' \<and> reads_as ts tail)"
  "reads_as (GLit c # ts) s \<longleftrightarrow> (case s of [] \<Rightarrow> False | x # tail \<Rightarrow> x = c \<and> reads_as ts tail)"
proof -
  have any: "reads_as (GAny # ts) s \<longleftrightarrow> (\<exists>x v. s = x # v \<and> x \<noteq> CHR ''/'' \<and> reads_as ts v)"
    unfolding reads_as_Cons fits.simps by (metis append_Cons append_Nil)
  have lit: "reads_as (GLit c # ts) s \<longleftrightarrow> (\<exists>v. s = c # v \<and> reads_as ts v)"
    unfolding reads_as_Cons fits.simps by simp
  show "reads_as (GAny # ts) s \<longleftrightarrow> (case s of [] \<Rightarrow> False | x # tail \<Rightarrow> x \<noteq> CHR ''/'' \<and> reads_as ts tail)"
    unfolding any by (cases s) simp_all
  show "reads_as (GLit c # ts) s \<longleftrightarrow> (case s of [] \<Rightarrow> False | x # tail \<Rightarrow> x = c \<and> reads_as ts tail)"
    unfolding lit by (cases s) auto
qed

lemma glob_reads_as: "glob p s \<longleftrightarrow> reads_as (glob_tokens p) s"
proof (induction p s rule: glob.induct)
  case (2 c rest s)
  consider "c = CHR ''*''" "starts_with rest ''*''" | "c = CHR ''*''" "\<not> starts_with rest ''*''"
    | "c = CHR ''?''" | "c \<noteq> CHR ''*''" "c \<noteq> CHR ''?''" by blast
  then show ?case
  proof cases
    case 1
    then show ?thesis using 2(1) by (simp add: list_ex_upt_Suc reads_as_GDStar less_Suc_eq_le cong: conj_cong del: upt_Suc)
  next
    case c: 2
    then show ?thesis using 2(2) by (simp add: list_ex_upt_Suc reads_as_GStar less_Suc_eq_le cong: conj_cong del: upt_Suc)
  next
    case 3
    then show ?thesis using 2(3) by (simp add: reads_as_one split: list.splits)
  next
    case 4
    then show ?thesis using 2(4) by (simp add: reads_as_one split: list.splits)
  qed
qed simp

section \<open>When the kernel allows\<close>

text \<open>The lease is authority for the call: valid now, for this profile, granting every operation, readable,
  and naming every resource the call touches.\<close>

definition lease_grants :: "kernel_request \<Rightarrow> capability_lease \<Rightarrow> bool" where
  "lease_grants req lease \<longleftrightarrow> kr_lease req = Some lease
     \<and> lease_is_valid lease (kr_now req)
     \<and> cl_execution_profile lease = kr_execution_profile req
     \<and> set (kr_required_capabilities req) \<subseteq> set (cl_operations lease)
     \<and> (\<forall>s \<in> set (cl_resources lease). selector_parse s \<noteq> None)
     \<and> (\<forall>t \<in> set (kr_targets req). \<exists>s \<in> set (cl_resources lease). \<exists>sel.
          selector_parse s = Some sel \<and> sel_capability sel = rt_capability t \<and> covers sel (rt_resource t))"

text \<open>The call stays within the envelope, the posture of the task's mode and the ceiling of the lease.\<close>

definition within_bounds :: "policy_envelope \<Rightarrow> kernel_request \<Rightarrow> capability_lease \<Rightarrow> bool" where
  "within_bounds env req lease \<longleftrightarrow>
     (\<exists>ceiling. map_of (pe_profile_ceilings env) (kr_execution_profile req) = Some ceiling \<and> kr_effect_class req \<le> ceiling)
     \<and> set (kr_required_capabilities req) \<inter> set (pe_denied_capabilities env) = {}
     \<and> (\<forall>d. map_of (pe_profile_denied_capabilities env) (kr_execution_profile req) = Some d \<longrightarrow>
          set (kr_required_capabilities req) \<inter> set d = {})
     \<and> refusal (posture (kr_mode req)) (kr_effect_class req) (kr_required_capabilities req) = None
     \<and> kr_effect_class req \<le> cl_effect_ceiling lease"

definition config_level :: "kernel_request \<Rightarrow> string \<Rightarrow> permission" where
  "config_level req c = (case kr_config req of None \<Rightarrow> PmAllow | Some cfg \<Rightarrow> permission_level cfg c)"

definition config_forbids :: "kernel_request \<Rightarrow> bool" where
  "config_forbids req \<longleftrightarrow> (\<exists>c \<in> set (kr_required_capabilities req). config_level req c = PmDeny)
     \<or> (\<exists>cfg. kr_config req = Some cfg \<and> needs_sandbox cfg req)"

definition asked :: "policy_envelope \<Rightarrow> kernel_request \<Rightarrow> bool" where
  "asked env req \<longleftrightarrow> kr_effect_class req \<in> set (pe_approval_effects env) \<or> computer_control req
     \<or> (\<exists>c \<in> set (kr_required_capabilities req). config_level req c = PmAsk)"

lemma check_lease_ok:
  "check_lease req = Inr lease \<longleftrightarrow> kr_lease req = Some lease \<and> lease_is_valid lease (kr_now req)
     \<and> cl_execution_profile lease = kr_execution_profile req
     \<and> set (kr_required_capabilities req) \<subseteq> set (cl_operations lease)"
  by (cases "kr_lease req") (auto simp: check_lease_def list_ex_iff)

lemma parse_selectors_ok:
  "parse_selectors ss = Inr sels \<longleftrightarrow> map selector_parse ss = map Some sels"
proof (induction ss arbitrary: sels)
  case (Cons s ss)
  show ?case
    by (cases "selector_parse s"; cases sels) (auto simp: Cons.IH)
qed auto

lemma check_target_ok:
  "check_target sels t = Inr () \<longleftrightarrow> (\<exists>s \<in> set sels. sel_capability s = rt_capability t \<and> covers s (rt_resource t))"
  by (auto simp: check_target_def Let_def list_ex_iff filter_empty_conv)

lemma selectors_grant:
  "(\<exists>sels. parse_selectors ss = Inr sels \<and> checks (map (check_target sels) ts) = Inr ()) \<longleftrightarrow>
     (\<forall>s \<in> set ss. selector_parse s \<noteq> None)
   \<and> (\<forall>t \<in> set ts. \<exists>s \<in> set ss. \<exists>sel. selector_parse s = Some sel
        \<and> sel_capability sel = rt_capability t \<and> covers sel (rt_resource t))"
proof (cases "\<forall>s \<in> set ss. selector_parse s \<noteq> None")
  case True
  let ?sels = "map (\<lambda>s. the (selector_parse s)) ss"
  have eq: "parse_selectors ss = Inr sels \<longleftrightarrow> sels = ?sels" for sels
  proof -
    have "map selector_parse ss = map Some ?sels" using True by simp
    then show ?thesis unfolding parse_selectors_ok by (metis inj_Some map_injective)
  qed
  have "checks (map (check_target ?sels) ts) = Inr () \<longleftrightarrow>
      (\<forall>t \<in> set ts. \<exists>s \<in> set ss. \<exists>sel. selector_parse s = Some sel
        \<and> sel_capability sel = rt_capability t \<and> covers sel (rt_resource t))"
    using True by (simp add: checks_ok check_target_ok) (metis option.collapse option.sel)
  with True eq show ?thesis by simp
next
  case False
  then have "parse_selectors ss \<noteq> Inr sels" for sels
    unfolding parse_selectors_ok by (metis imageE imageI list.set_map option.distinct(1))
  with False show ?thesis by blast
qed

lemma check_envelope_ok: "check_envelope env req lease = Inr () \<longleftrightarrow> within_bounds env req lease"
proof (cases "map_of (pe_profile_ceilings env) (kr_execution_profile req)")
  case None
  then show ?thesis by (simp add: check_envelope_def within_bounds_def)
next
  case (Some ceiling)
  show ?thesis
    by (cases "refusal (posture (kr_mode req)) (kr_effect_class req) (kr_required_capabilities req)";
        cases "map_of (pe_profile_denied_capabilities env) (kr_execution_profile req)")
      (auto simp: check_envelope_def within_bounds_def Some posture_denial_def list_ex_iff not_less not_le)
qed

lemma config_asks_ok:
  "config_asks cfg ask cs = Inr r \<longleftrightarrow> (\<forall>c \<in> set cs. permission_level cfg c \<noteq> PmDeny)
     \<and> r = (if ask \<noteq> None then ask
            else map_option AskByConfig (find (\<lambda>c. permission_level cfg c = PmAsk) cs))"
proof (induction cs arbitrary: ask)
  case (Cons c cs)
  show ?case
  proof (cases "map_of (rc_permissions cfg) c")
    case None
    then have "permission_level cfg c = PmAllow" by (simp add: permission_level_def)
    with None show ?thesis by (simp add: Cons.IH)
  next
    case (Some z)
    then have "permission_level cfg c = rs_value z" by (simp add: permission_level_def)
    with Some show ?thesis by (cases "rs_value z") (simp_all add: Cons.IH)
  qed
qed auto

lemma check_config_ok:
  "(\<exists>r. check_config req = Inr r \<and> asks env req r = ask) \<longleftrightarrow> \<not> config_forbids req \<and>
     ask = asks env req (map_option AskByConfig (find (\<lambda>c. config_level req c = PmAsk) (kr_required_capabilities req)))"
proof (cases "kr_config req")
  case None
  have "find (\<lambda>c. False) xs = None" for xs :: "string list" by (induction xs) simp_all
  with None show ?thesis
    by (auto simp: check_config_def config_forbids_def config_level_def cong: if_cong)
next
  case (Some cfg)
  then show ?thesis
    by (auto simp: check_config_def config_forbids_def config_level_def config_asks_ok)
qed

lemma asks_None:
  "asks env req (map_option AskByConfig (find (\<lambda>c. config_level req c = PmAsk) (kr_required_capabilities req))) = None
     \<longleftrightarrow> \<not> asked env req"
  by (auto simp: asks_def asked_def find_None_iff_ball)

lemma clearance_ok:
  "clearance env req = Inr (lease, ask) \<longleftrightarrow>
   lease_grants req lease \<and> within_bounds env req lease \<and> \<not> config_forbids req \<and>
   ask = asks env req (map_option AskByConfig (find (\<lambda>c. config_level req c = PmAsk) (kr_required_capabilities req)))"
proof -
  have "clearance env req = Inr (lease, ask) \<longleftrightarrow> check_lease req = Inr lease
      \<and> (\<exists>sels. parse_selectors (cl_resources lease) = Inr sels \<and> checks (map (check_target sels) (kr_targets req)) = Inr ())
      \<and> check_envelope env req lease = Inr ()
      \<and> (\<exists>r. check_config req = Inr r \<and> asks env req r = ask)"
    by (auto simp: clearance_def)
  then show ?thesis
    unfolding check_lease_ok selectors_grant check_envelope_ok check_config_ok lease_grants_def by blast
qed

definition clear :: "policy_envelope \<Rightarrow> kernel_request \<Rightarrow> capability_lease \<Rightarrow> bool" where
  "clear env req lease \<longleftrightarrow> \<not> (kr_emergency_stopped req \<and> kr_effect_class req \<noteq> ReadOnly)
     \<and> lease_grants req lease \<and> within_bounds env req lease \<and> \<not> config_forbids req"

lemma decide_clear:
  assumes "clear env req lease"
  shows "decide env req =
    (if \<not> asked env req then KdAllow (KrProfile (to_ascii_lowercase
        (kr_execution_profile req @ '':'' @ effect_class_debug (kr_effect_class req)))) None
     else if kr_execution_profile req \<in> set (pe_no_approval_profiles env) then KdDeny ''APPROVAL_UNAVAILABLE''
     else answer req lease (the (asks env req
       (map_option AskByConfig (find (\<lambda>c. config_level req c = PmAsk) (kr_required_capabilities req))))))"
proof -
  let ?ask = "asks env req (map_option AskByConfig (find (\<lambda>c. config_level req c = PmAsk) (kr_required_capabilities req)))"
  have ok: "clearance env req = Inr (lease, ?ask)"
    using assms by (simp add: clearance_ok clear_def)
  have stop: "\<not> (kr_emergency_stopped req \<and> kr_effect_class req \<noteq> ReadOnly)"
    using assms by (simp add: clear_def)
  show ?thesis
  proof (cases ?ask)
    case None
    then have "\<not> asked env req" using asks_None by blast
    with None show ?thesis
      unfolding decide_def ok if_not_P [OF stop] sum.case prod.case None option.case by simp
  next
    case (Some why)
    then have "asked env req" using asks_None [of env req] by auto
    then show ?thesis
      unfolding decide_def ok if_not_P [OF stop] sum.case prod.case Some option.case by simp
  qed
qed

lemma decide_not_clear:
  assumes "\<And>lease. \<not> clear env req lease"
  shows "\<exists>code. decide env req = KdDeny code"
proof (cases "kr_emergency_stopped req \<and> kr_effect_class req \<noteq> ReadOnly")
  case True
  then show ?thesis by (simp add: decide_def)
next
  case False
  then have "clearance env req \<noteq> Inr (lease, ask)" for lease ask
    using assms [of lease] unfolding clearance_ok clear_def by blast
  then obtain code where "clearance env req = Inl code" by (cases "clearance env req") auto
  then show ?thesis unfolding decide_def if_not_P [OF False] by simp
qed

text \<open>Who answers an asked call in favour: the approval of this exact intent, or the run mode.\<close>

definition answered :: "kernel_request \<Rightarrow> kernel_rule \<Rightarrow> uuid option \<Rightarrow> bool" where
  "answered req rule aid \<longleftrightarrow>
     (\<exists>a. kr_approval req = Some a \<and> authorizes a (kr_intent_hash req) (kr_now req)
        \<and> rule = KrApproval (ap_approval_id a) \<and> aid = Some (ap_approval_id a))
   \<or> (\<exists>r rp. \<not> computer_control req \<and> kr_run req = Some rp \<and> run_decide rp (kr_now req) = RunApprove r
        \<and> rule = KrRun r \<and> aid = None
        \<and> (\<forall>a. kr_approval req = Some a \<longrightarrow> is_consumed a))"

lemma run_approves_Some:
  "run_approves req = Some r \<longleftrightarrow> \<not> computer_control req
     \<and> (\<exists>rp. kr_run req = Some rp \<and> run_decide rp (kr_now req) = RunApprove r)"
  by (auto simp: run_approves_def run_answer_def split: option.splits run_decision.splits)

lemma answer_allows: "answer req lease reason = KdAllow rule aid \<longleftrightarrow> answered req rule aid"
proof (cases "kr_approval req")
  case None
  have "answer req lease reason = KdAllow rule aid \<longleftrightarrow> (\<exists>r. run_approves req = Some r \<and> rule = KrRun r \<and> aid = None)"
    by (auto simp: answer_def None split: option.splits)
  then show ?thesis unfolding run_approves_Some answered_def None by blast
next
  case (Some a)
  show ?thesis
  proof (cases "authorizes a (kr_intent_hash req) (kr_now req)")
    case True
    then have "\<not> is_consumed a" by (simp add: authorizes_def is_consumed_def)
    with True Some show ?thesis by (auto simp: answer_def answered_def)
  next
    case False
    have "answer req lease reason = KdAllow rule aid \<longleftrightarrow>
        is_consumed a \<and> (\<exists>r. run_approves req = Some r \<and> rule = KrRun r \<and> aid = None)"
      using False by (auto simp: answer_def Some is_consumed_def split: option.splits)
    with False Some show ?thesis unfolding run_approves_Some answered_def by auto
  qed
qed

lemma decide_allows:
  "decide env req = KdAllow rule aid \<longleftrightarrow>
     (\<exists>lease. clear env req lease) \<and>
     (if asked env req then kr_execution_profile req \<notin> set (pe_no_approval_profiles env) \<and> answered req rule aid
      else rule = KrProfile (to_ascii_lowercase
        (kr_execution_profile req @ '':'' @ effect_class_debug (kr_effect_class req))) \<and> aid = None)"
proof (cases "\<exists>lease. clear env req lease")
  case True
  then obtain lease where "clear env req lease" by blast
  then show ?thesis unfolding decide_clear [OF \<open>clear env req lease\<close>] by (auto simp: answer_allows)
next
  case False
  then obtain code where "decide env req = KdDeny code" using decide_not_clear by blast
  with False show ?thesis by simp
qed

section \<open>Resources under a root\<close>

definition normal :: "string \<Rightarrow> string" where
  "normal s = squeeze (replace_char CHR 0x5C CHR ''/'' s)"

lemma covers_reads_as:
  "covers sel r \<longleftrightarrow> reads_as (glob_tokens (normal (sel_pattern sel))) (normal r)
     \<or> normal (sel_pattern sel) = trim_end_chars [CHR ''/''] (normal r) @ ''/**''"
  by (auto simp: covers_def normal_def Let_def glob_reads_as strip_suffix_Some split: option.splits)
    (metis option.distinct(1) strip_suffix_Some)

text \<open>A name without wildcards, backslashes and doubled separators stands for itself.\<close>

definition plain_root :: "string \<Rightarrow> bool" where
  "plain_root root \<longleftrightarrow> root \<noteq> [] \<and> last root \<noteq> CHR ''/'' \<and> normal root = root
     \<and> CHR ''*'' \<notin> set root \<and> CHR ''?'' \<notin> set root"

lemma glob_tokens_plain:
  "CHR ''*'' \<notin> set u \<Longrightarrow> CHR ''?'' \<notin> set u \<Longrightarrow> glob_tokens (u @ p) = map GLit u @ glob_tokens p"
  by (induction u) auto

lemma reads_as_plain: "reads_as (map GLit u @ ts) s \<longleftrightarrow> (\<exists>v. s = u @ v \<and> reads_as ts v)"
proof (induction u arbitrary: s)
  case (Cons c u)
  show ?case by (cases s) (auto simp: reads_as_one Cons.IH)
qed simp

lemma reads_as_any: "reads_as [GDStar] s"
  by (auto simp: reads_as_GDStar intro!: exI [of _ "length s"])

definition squeeze_step :: "string \<Rightarrow> char \<Rightarrow> string" where
  "squeeze_step out c = (if c \<noteq> CHR ''/'' \<or> \<not> ends_with out ''/'' then out @ [c] else out)"

lemma squeeze_fold: "squeeze s = foldl squeeze_step [] s"
  by (simp add: squeeze_def squeeze_step_def [abs_def])

lemma normal_root_pattern:
  assumes "plain_root root"
  shows "normal (root @ ''/**'') = root @ ''/**''"
proof -
  have "squeeze (replace_char CHR 0x5C CHR ''/'' root) = root" using assms by (simp add: plain_root_def normal_def)
  moreover have "\<not> ends_with root ''/''" using assms by (auto simp: plain_root_def ends_with_iff)
  moreover have "\<not> ends_with (root @ ''/*'') ''/''" by (auto simp: ends_with_iff)
  moreover have "replace_char CHR 0x5C CHR ''/'' (root @ ''/**'') = replace_char CHR 0x5C CHR ''/'' root @ ''/**''"
    by (simp add: replace_char_def)
  ultimately show ?thesis
    unfolding normal_def squeeze_fold by (simp add: squeeze_step_def)
qed

lemma trim_end_slash: "\<exists>n. s = trim_end_chars [CHR ''/''] s @ replicate n (CHR ''/'')"
proof (induction s rule: rev_induct)
  case Nil
  show ?case by (simp add: trim_end_chars_def)
next
  case (snoc c s)
  show ?case
  proof (cases "c = CHR ''/''")
    case True
    from snoc obtain n where "s = trim_end_chars [CHR ''/''] s @ replicate n (CHR ''/'')" ..
    then have "s @ [c] = trim_end_chars [CHR ''/''] s @ replicate (Suc n) (CHR ''/'')"
      by (metis True append_assoc replicate_Suc replicate_append_same)
    moreover have "trim_end_chars [CHR ''/''] (s @ [c]) = trim_end_chars [CHR ''/''] s"
      using True by (simp add: trim_end_chars_def)
    ultimately show ?thesis by metis
  next
    case False
    then have "trim_end_chars [CHR ''/''] (s @ [c]) = s @ [c]" by (simp add: trim_end_chars_def)
    then show ?thesis by (metis append_Nil2 replicate_0)
  qed
qed

lemma covers_root:
  assumes "plain_root root"
  shows "covers \<lparr>sel_capability = cap, sel_pattern = root @ ''/**''\<rparr> r \<longleftrightarrow>
    normal r = root \<or> starts_with (normal r) (root @ ''/'')"
proof -
  have "glob_tokens (root @ ''/**'') = map GLit (root @ ''/'') @ [GDStar]"
    using assms glob_tokens_plain [of "root @ ''/''" "''**''"] by (simp add: plain_root_def starts_with_def)
  then have under: "reads_as (glob_tokens (root @ ''/**'')) (normal r) \<longleftrightarrow> starts_with (normal r) (root @ ''/'')"
    unfolding starts_with_iff by (simp only: reads_as_plain) (simp add: reads_as_any)
  have self: "root = trim_end_chars [CHR ''/''] (normal r) \<Longrightarrow> normal r = root \<or> starts_with (normal r) (root @ ''/'')"
  proof -
    assume "root = trim_end_chars [CHR ''/''] (normal r)"
    then obtain n where "normal r = root @ replicate n (CHR ''/'')" using trim_end_slash [of "normal r"] by auto
    then show ?thesis by (cases n) (auto simp: starts_with_iff)
  qed
  have "trim_end_chars [CHR ''/''] root = root"
    using assms by (auto simp: trim_end_chars_def plain_root_def rev_swap dropWhile_hd hd_rev)
  then show ?thesis
    unfolding covers_reads_as resource_selector.simps normal_root_pattern [OF assms] under using self by auto
qed

lemma default_operations_known:
  "op \<in> set (default_operations profile) \<Longrightarrow> op \<in> {''fs.read'', ''fs.write'', ''git.read'', ''git.worktree'', ''git.merge'',
     ''git.apply'', ''git.commit'', ''git.push'', ''shell.exec'', ''network.egress'', ''secret.use'', ''browser.control'',
     ''computer.observe'', ''computer.act'', ''computer.screen'', ''memory.query'', ''memory.propose'',
     ''external.list'', ''external.call''}"
  by (auto simp: default_operations_def split: if_splits)

lemma default_resource_capability:
  assumes "op \<in> set (default_operations profile)"
  shows "\<exists>rest. split_once CHR '':'' (default_resource root op) = Some (op, rest)"
  using default_operations_known [OF assms] unfolding insert_iff empty_iff
  by (elim disjE) (simp_all add: default_resource_def)

lemma default_resource_root:
  assumes "cap = ''fs.read'' \<or> cap = ''fs.write''"
  shows "split_once CHR '':'' (default_resource root cap) = Some (cap, root @ ''/**'')"
  using assms by (elim disjE) (simp_all add: default_resource_def)

lemma selector_parse_Some:
  assumes "selector_parse s = Some sel" "split_once CHR '':'' s = Some (a, b)"
  shows "sel = \<lparr>sel_capability = a, sel_pattern = b\<rparr>"
  using assms by (simp add: selector_parse_def split: if_splits)

lemma default_selectors:
  assumes "parse_selectors (fst (default_lease_for_profile profile (Some root))) = Inr sels"
    and cap: "cap = ''fs.read'' \<or> cap = ''fs.write''"
  shows "{s \<in> set sels. sel_capability s = cap} =
    (if cap \<in> set (default_operations profile) then {\<lparr>sel_capability = cap, sel_pattern = root @ ''/**''\<rparr>} else {})"
proof -
  have "map (\<lambda>op. selector_parse (default_resource root op)) (default_operations profile) = map Some sels"
    using assms(1) by (simp add: parse_selectors_ok default_lease_for_profile_def Let_def comp_def)
  then have sels: "(\<lambda>op. selector_parse (default_resource root op)) ` set (default_operations profile) = Some ` set sels"
    by (metis list.set_map)
  have of: "sel_capability s = op \<and> (op = cap \<longrightarrow> s = \<lparr>sel_capability = cap, sel_pattern = root @ ''/**''\<rparr>)"
    if op: "op \<in> set (default_operations profile)" and sel: "selector_parse (default_resource root op) = Some s" for op s
  proof -
    obtain rest where "split_once CHR '':'' (default_resource root op) = Some (op, rest)"
      using default_resource_capability [OF op] by blast
    then show ?thesis
      using selector_parse_Some [OF sel] default_resource_root [OF cap, of root] by fastforce
  qed
  have src: "\<exists>op \<in> set (default_operations profile). selector_parse (default_resource root op) = Some s" if "s \<in> set sels" for s
    using sels that by (metis imageE imageI)
  have dst: "\<exists>s \<in> set sels. selector_parse (default_resource root op) = Some s" if "op \<in> set (default_operations profile)" for op
    using sels that by (metis imageE imageI)
  show ?thesis
  proof (cases "cap \<in> set (default_operations profile)")
    case True
    have "s = \<lparr>sel_capability = cap, sel_pattern = root @ ''/**''\<rparr>" if "s \<in> set sels" "sel_capability s = cap" for s
      using src [OF that(1)] of that(2) by blast
    moreover have "\<lparr>sel_capability = cap, sel_pattern = root @ ''/**''\<rparr> \<in> set sels"
      using dst [OF True] of [OF True] by metis
    moreover have "sel_capability \<lparr>sel_capability = cap, sel_pattern = root @ ''/**''\<rparr> = cap" by simp
    ultimately show ?thesis unfolding if_P [OF True] by blast
  next
    case False
    have "sel_capability s \<noteq> cap" if "s \<in> set sels" for s
      using src [OF that] of False by metis
    then show ?thesis unfolding if_not_P [OF False] by blast
  qed
qed

section \<open>Changing the configuration of a request\<close>

lemma set_config_sel:
  "kr_effect_class (req\<lparr>kr_config := cfg\<rparr>) = kr_effect_class req"
  "kr_required_capabilities (req\<lparr>kr_config := cfg\<rparr>) = kr_required_capabilities req"
  "kr_execution_profile (req\<lparr>kr_config := cfg\<rparr>) = kr_execution_profile req"
  "kr_mode (req\<lparr>kr_config := cfg\<rparr>) = kr_mode req"
  "kr_lease (req\<lparr>kr_config := cfg\<rparr>) = kr_lease req"
  "kr_targets (req\<lparr>kr_config := cfg\<rparr>) = kr_targets req"
  "kr_approval (req\<lparr>kr_config := cfg\<rparr>) = kr_approval req"
  "kr_intent_hash (req\<lparr>kr_config := cfg\<rparr>) = kr_intent_hash req"
  "kr_run (req\<lparr>kr_config := cfg\<rparr>) = kr_run req"
  "kr_emergency_stopped (req\<lparr>kr_config := cfg\<rparr>) = kr_emergency_stopped req"
  "kr_now (req\<lparr>kr_config := cfg\<rparr>) = kr_now req"
  by simp_all

lemma set_config_same:
  "computer_control (req\<lparr>kr_config := cfg\<rparr>) = computer_control req"
  "lease_grants (req\<lparr>kr_config := cfg\<rparr>) lease = lease_grants req lease"
  "within_bounds env (req\<lparr>kr_config := cfg\<rparr>) lease = within_bounds env req lease"
  "answered (req\<lparr>kr_config := cfg\<rparr>) rule aid = answered req rule aid"
  unfolding answered_def computer_control_def lease_grants_def within_bounds_def set_config_sel by (rule refl)+

text \<open>One configuration is at least as strict as another, for every capability and in what the device requires.\<close>

definition stricter :: "resolved_config \<Rightarrow> resolved_config \<Rightarrow> bool" where
  "stricter new old \<longleftrightarrow> (\<forall>c. permission_level old c \<le> permission_level new c)
     \<and> map_option rs_value (rc_device new) = map_option rs_value (rc_device old)"

lemma stricter_forbids:
  assumes "stricter new old" "config_forbids (req\<lparr>kr_config := Some old\<rparr>)"
  shows "config_forbids (req\<lparr>kr_config := Some new\<rparr>)"
proof -
  have "p = PmDeny" if "PmDeny \<le> p" for p using that by (cases p) (simp_all add: less_eq_permission_def)
  then have "permission_level new c = PmDeny" if "permission_level old c = PmDeny" for c
    using assms(1) that unfolding stricter_def by metis
  moreover have "needs_sandbox old (req\<lparr>kr_config := Some old\<rparr>) = needs_sandbox new (req\<lparr>kr_config := Some new\<rparr>)"
    using assms(1)
    by (cases "rc_device old"; cases "rc_device new") (simp_all add: stricter_def needs_sandbox_def)
  ultimately show ?thesis
    using assms(2) by (auto simp: config_forbids_def config_level_def)
qed

lemma stricter_asked:
  assumes "stricter new old" "asked env (req\<lparr>kr_config := Some old\<rparr>)" "\<not> config_forbids (req\<lparr>kr_config := Some new\<rparr>)"
  shows "asked env (req\<lparr>kr_config := Some new\<rparr>)"
proof -
  have "p = PmAsk \<or> p = PmDeny" if "PmAsk \<le> p" for p using that by (cases p) (simp_all add: less_eq_permission_def)
  then have "permission_level new c = PmAsk \<or> permission_level new c = PmDeny" if "permission_level old c = PmAsk" for c
    using assms(1) that unfolding stricter_def by metis
  then show ?thesis
    using assms(2,3) by (auto simp: asked_def config_forbids_def config_level_def set_config_same)
qed

lemma stricter_allows:
  assumes "stricter new old" "decide env (req\<lparr>kr_config := Some new\<rparr>) = KdAllow rule aid"
  shows "\<exists>rule' aid'. decide env (req\<lparr>kr_config := Some old\<rparr>) = KdAllow rule' aid'"
proof -
  let ?new = "req\<lparr>kr_config := Some new\<rparr>" and ?old = "req\<lparr>kr_config := Some old\<rparr>"
  obtain lease where new: "clear env ?new lease" using assms(2) unfolding decide_allows by blast
  then have nf: "\<not> config_forbids ?new" by (simp add: clear_def)
  have old: "clear env ?old lease"
    using new stricter_forbids [OF assms(1)] unfolding clear_def set_config_same set_config_sel by blast
  show ?thesis
  proof (cases "asked env ?old")
    case True
    then have "asked env ?new" using stricter_asked assms(1) nf by blast
    with assms(2) have "kr_execution_profile req \<notin> set (pe_no_approval_profiles env) \<and> answered req rule aid"
      unfolding decide_allows set_config_same set_config_sel by simp
    with True old have "decide env ?old = KdAllow rule aid"
      unfolding decide_allows set_config_same set_config_sel by auto
    then show ?thesis by blast
  next
    case False
    with old have "decide env ?old = KdAllow (KrProfile (to_ascii_lowercase
        (kr_execution_profile ?old @ '':'' @ effect_class_debug (kr_effect_class ?old)))) None"
      unfolding decide_allows by auto
    then show ?thesis by blast
  qed
qed

section \<open>Properties\<close>

text \<open>
  C30: The kernel allows a call exactly when the session is not stopped or the call only reads,
  the call presents a valid lease for its profile that grants its operations and names its
  resources, it stays within the envelope, the posture of the task's mode and the ceiling of the
  lease, no configuration forbids it, and, if it asks, the profile can wait and either an approval
  of this exact intent that is neither expired nor spent is presented, or the run mode approves
  it, which it never does for computer control or beside an approval that is not spent. The rule
  and the approval that are recorded are the ones that allowed it.
\<close>

theorem kernel_allows_iff:
  "decide env req = KdAllow rule aid \<longleftrightarrow>
     (\<exists>lease. \<not> (kr_emergency_stopped req \<and> kr_effect_class req \<noteq> ReadOnly)
        \<and> lease_grants req lease \<and> within_bounds env req lease \<and> \<not> config_forbids req) \<and>
     (if asked env req then kr_execution_profile req \<notin> set (pe_no_approval_profiles env) \<and> answered req rule aid
      else rule = KrProfile (to_ascii_lowercase
        (kr_execution_profile req @ '':'' @ effect_class_debug (kr_effect_class req))) \<and> aid = None)"
  unfolding decide_allows clear_def ..

text \<open>
  C31: The configuration of a lower authority never unlocks a call. A call that is allowed under
  the configuration of all layers is allowed under the layers above any level alone; so a call
  the higher layers deny or leave waiting for an approval is not allowed by adding lower ones.
\<close>

theorem lower_layers_never_unlock:
  assumes "decide env (req\<lparr>kr_config := Some (resolve layers)\<rparr>) = KdAllow rule aid" and "AuDevice < l"
  shows "\<exists>rule' aid'. decide env (req\<lparr>kr_config := Some (resolve (above l layers))\<rparr>) = KdAllow rule' aid'"
proof -
  have "stricter (resolve layers) (resolve (above l layers))"
    using device_above [OF assms(2)] by (simp add: stricter_def permission_level_above)
  then show ?thesis using assms(1) by (rule stricter_allows)
qed

definition push_lease :: capability_lease where
  "push_lease = \<lparr>cl_lease_id = 1, cl_tenant_id = 1, cl_task_id = 1, cl_agent_id = None,
     cl_resources = [''git.push:/repo/**''], cl_operations = [''git.push''], cl_effect_ceiling = Destructive,
     cl_execution_profile = PROFILE_LOCAL_TRUSTED, cl_generation = 1, cl_state = LsActive,
     cl_expires_at = None, cl_revoked_at = None, cl_revoke_reason = None\<rparr>"

definition push_approval :: approval where
  "push_approval = \<lparr>ap_approval_id = 9, ap_task_id = 1, ap_tool_call_id = 1, ap_tool_name = ''git.push'',
     ap_effect_class = ReversibleWrite, ap_intent_hash = ''h'', ap_scope_json = [], ap_state = ApApproved,
     ap_generation = 2, ap_requested_at = 1, ap_resolved_at = Some 2, ap_resolver = Some ''user:1'',
     ap_expires_at = None, ap_consumed_at = None\<rparr>"

definition push_request :: kernel_request where
  "push_request = \<lparr>kr_tool_name = ''git.push'', kr_effect_class = ReversibleWrite,
     kr_required_capabilities = [''git.push''], kr_execution_profile = PROFILE_LOCAL_TRUSTED, kr_mode = MAgent,
     kr_lease = Some push_lease, kr_targets = [], kr_approval = Some push_approval,
     kr_intent_hash = ''h'', kr_config = None, kr_run = None, kr_emergency_stopped = False, kr_now = 5\<rparr>"

theorem lower_layers_never_unlock_witness:
  "\<exists>rule aid. decide default_envelope (push_request\<lparr>kr_config := Some (resolve (above AuProject sample_layers))\<rparr>)
     = KdAllow rule aid"
proof -
  have "decide default_envelope (push_request\<lparr>kr_config := Some (resolve sample_layers)\<rparr>) = KdAllow (KrApproval 9) (Some 9)"
    by code_simp
  moreover have "AuDevice < AuProject" by code_simp
  ultimately show ?thesis by (rule lower_layers_never_unlock)
qed

text \<open>
  C32: What a resource selector covers. With separators normalised on both sides, the resource is
  read off the pattern piece by piece: a character stands for itself, a question mark for one
  character other than the separator, one star for a run without separators, two stars for any
  run; and a pattern that ends in a separator and two stars also covers the directory itself.
\<close>

theorem covers_meaning:
  "covers sel r \<longleftrightarrow>
     (\<exists>us. normal r = concat us \<and> list_all2 fits (glob_tokens (normal (sel_pattern sel))) us)
   \<or> normal (sel_pattern sel) = trim_end_chars [CHR ''/''] (normal r) @ ''/**''"
  unfolding covers_reads_as reads_as_def ..

text \<open>
  C33: A default lease confines file access to the workspace. For a root without wildcards,
  the selectors of the lease of any profile let a file be read or written exactly when the
  profile has that operation and the file, with separators normalised, is the root itself or
  begins with the root and a separator.
\<close>

theorem workspace_lease_confines:
  assumes "plain_root root" and "cap = ''fs.read'' \<or> cap = ''fs.write''"
    and "parse_selectors (fst (default_lease_for_profile profile (Some root))) = Inr sels"
  shows "check_target sels \<lparr>rt_capability = cap, rt_resource = r\<rparr> = Inr () \<longleftrightarrow>
    cap \<in> set (default_operations profile) \<and> (normal r = root \<or> starts_with (normal r) (root @ ''/''))"
proof -
  have "check_target sels \<lparr>rt_capability = cap, rt_resource = r\<rparr> = Inr () \<longleftrightarrow>
      (\<exists>s \<in> {s \<in> set sels. sel_capability s = cap}. covers s r)"
    by (auto simp: check_target_ok)
  then show ?thesis
    unfolding default_selectors [OF assms(3,2)] by (simp add: covers_root [OF assms(1)])
qed

theorem workspace_lease_confines_witness:
  "\<exists>sels. parse_selectors (fst (default_lease_for_profile PROFILE_LOCAL_TRUSTED (Some ''/repo''))) = Inr sels
     \<and> check_target sels \<lparr>rt_capability = ''fs.write'', rt_resource = ''/repo//src/lib.rs''\<rparr> = Inr ()
     \<and> check_target sels \<lparr>rt_capability = ''fs.write'', rt_resource = ''/repository/x''\<rparr> \<noteq> Inr ()"
proof -
  have root: "plain_root ''/repo''" by code_simp
  have "\<not> isl (parse_selectors (fst (default_lease_for_profile PROFILE_LOCAL_TRUSTED (Some ''/repo''))))" by code_simp
  then obtain sels where sels: "parse_selectors (fst (default_lease_for_profile PROFILE_LOCAL_TRUSTED (Some ''/repo''))) = Inr sels"
    by (metis isl_def sum.exhaust)
  have "''fs.write'' \<in> set (default_operations PROFILE_LOCAL_TRUSTED)" by code_simp
  moreover have "starts_with (normal ''/repo//src/lib.rs'') (''/repo'' @ ''/'')" by code_simp
  moreover have "normal ''/repository/x'' \<noteq> ''/repo''" "\<not> starts_with (normal ''/repository/x'') (''/repo'' @ ''/'')"
    by code_simp+
  ultimately show ?thesis
    using workspace_lease_confines [OF root disjI2 [OF refl] sels] sels by blast
qed

end
