(* ===== verification/Spec2Isabelle.thy ===== *)
theory Spec2Isabelle
  imports Store_Aggregates Capacity Budget Admission Input_Queue Kernel
begin

text \<open>
  A verification library for the Core of modbit, the process that runs coding agents: it keeps
  every fact as an event of an append-only store, folds the events into aggregates, admits work
  within capacity and budgets, and lets a tool call run only after a policy decision.

  \<^bold>\<open>The parts and their theories.\<close>

  \<^item> \<open>Prelude\<close> and \<open>Rust_Str\<close>: what the components share. Machine integers that are computed
    with are words (\<open>u8\<close>, \<open>u32\<close>, \<open>u64\<close>) with \<open>saturating_*\<close> and \<open>checked_add\<close>; a
    \<open>Result<T, E>\<close> is a sum with \<open>Inl\<close> the error; a \<open>String\<close> is its bytes. The locales
    \<open>invariant_system\<close> (every step keeps an invariant) and \<open>fold_refinement\<close> (the fold of
    concrete records implements the fold of abstract ones) are the contracts of the components
    that are step systems and folds.
  \<^item> \<open>State_Machine\<close>, \<open>Session\<close>, \<open>Task\<close>, \<open>Run\<close>, \<open>Turn\<close>, \<open>Run_Step\<close>, \<open>Tool_Call\<close>,
    \<open>Approval\<close>, \<open>Assistant_Stream\<close>, \<open>Project\<close>: the aggregates of \<open>crates/domain/src\<close>, one theory per
    file (\<open>Approval\<close> also holds \<open>lease.rs\<close>). Each has the events and, for those with a life cycle,
    the record of the struct and \<open>*_create\<close> and \<open>*_apply\<close>. A project has none of its own: its
    events are applied to the tables of \<open>Projections\<close>. The locales \<open>event_sourced\<close> and \<open>counted_aggregate\<close> are what the
    projections rely on; every aggregate with a life cycle interprets one of them.
  \<^item> \<open>Ledger\<close>: the receipt chain and the authority epochs of \<open>crates/policy/src\<close>.
  \<^item> \<open>Envelope\<close>, \<open>Projections\<close>, \<open>Event_Store\<close>: the canonical bytes and the hash of an event,
    the tables derived from the log, and the operations of \<open>crates/event-store/src/store.rs\<close>
    (append in all its forms, commands, import, verification, rebuild, recovery with its two
    checks on the projections, objects). The
    files \<open>Store_Invariant\<close>, \<open>Store_Operations\<close>, \<open>Store_Correct\<close>, \<open>Store_Theorems\<close>,
    \<open>Store_Replica\<close>, \<open>Store_Integrity\<close> and \<open>Store_Aggregates\<close> prove what a reader of the store
    relies on, over every history of calls.
  \<^item> \<open>Capacity\<close>, \<open>Budget\<close>, \<open>Admission\<close>, \<open>Input_Queue\<close>: the capacity pool, the budgets of a
    parent and its children, plan and activation admission and the input queue of
    \<open>crates/core-runtime/src\<close>, with the parts of \<open>services/modbit-core/src\<close> that call them
    (\<open>spawn.rs\<close>, \<open>escalation.rs\<close>); \<open>Routing\<close> is the plan of \<open>crates/domain/src/routing.rs\<close>.
  \<^item> \<open>Mode\<close>, \<open>Config\<close>, \<open>Run_Mode\<close>, \<open>Kernel\<close>: the policy decision before a tool call. \<open>Mode\<close> is
    \<open>mode.rs\<close> and \<open>runmode.rs\<close> of \<open>crates/domain/src\<close>; \<open>Config\<close> is the layered configuration
    (\<open>config.rs\<close>), \<open>Run_Mode\<close> the allow rules and run modes (\<open>runmode.rs\<close>) and \<open>Kernel\<close> the capability
    kernel (\<open>kernel.rs\<close>) of \<open>crates/policy/src\<close>. \<open>Kernel.decide\<close> reads a lease and an approval of
    \<open>Approval\<close>, a configuration resolved by \<open>Config.resolve\<close> and asks \<open>Run_Mode.run_decide\<close>.

  \<^bold>\<open>What the lemmas show.\<close> The store keeps its chain, its projections and its command records
  through any history; every field of a stored row is fixed by the request; fenced and stale
  writers are refused; an append whose outcome the caller could not learn is not stored twice;
  recovery restores damaged projections from the log; export and import replicate; a different history has a different head hash. The rows of the
  aggregates are well formed in every reachable store: a dispatched tool call had a decision
  that allowed it, an approval authorizes one dispatch, and a task is in the project the log last
  put it in. Capacity and budgets are never
  overcommitted, in the machine arithmetic of the code; plan validation is equivalent to its
  declarative reading; the input queue implements a line of waiting inputs. The kernel allows a
  call exactly under the stated conditions; a lower configuration layer never widens what the
  higher ones decided and never unlocks a call; an approval by a run mode rests on rules that
  cover every command; globs and the default leases cover exactly what is stated.

  \<^bold>\<open>Bounds.\<close> Loops are structural recursions or \<open>fun\<close>s with a termination proof
  (\<open>Routing.walk_up\<close> on the slots not yet seen, \<open>Rust_Str.trim_end_str\<close> and
  \<open>Run_Mode.split_loop\<close> on the rest of the text); no fuel is used.

  \<^bold>\<open>Outside.\<close> SHA-256, JSON text and identifiers are fields of records (\<open>codec\<close>, \<open>world\<close>,
  \<open>plan_codec\<close>) that the definitions take as arguments; a property that needs collision
  freedom or an inverse parser says so, and its witness instantiates it. Whether a file can be
  run is an argument of \<open>Run_Mode.resolve_program\<close>; paths are Unix paths.

  \<^bold>\<open>Not modelled.\<close> The network services, the command line, the desktop and cloud applications,
  process execution, the sandbox backends, the model providers and the native actuators are
  input and output around libraries that are not part of the sources. SQLite and its failures,
  file systems and clocks are parameters or absent: a failed transaction is rolled back, a text
  read is the text written, and foreign keys are not checked. Side tables of the projections
  that no modelled operation reads only move the cursor, and never refuse an event.
\<close>

end
